(* ===== verification/Cos_Prelude.thy ===== *)
theory Cos_Prelude
  imports Main "HOL-Library.Word" "HOL-Library.Monad_Syntax"
begin

text \<open>
  The shared vocabulary of the development.

  Every operation of the kernel is a function into \<open>option\<close>, written with the
  \<open>do\<close> notation of the option monad. \<open>None\<close> stands for a run of the C++ code that has
  no defined outcome: it dereferences \<open>NULL\<close> or an object that does not exist, indexes a
  static array out of its bounds, stops for ever in a failed \<open>COS_ASSERT\<close>
  (\<^verbatim>\<open>include/cos/cosDebug.h\<close>: \<open>while (dummy == 0);\<close>), or never returns.
  Kernel error codes (\<open>-ERR_FULL\<close>, \<open>-ERR_TIMEOUT\<close>, \<dots>) are ordinary return values.

  Pointers to nodes are \<open>nat option\<close>, with \<open>None\<close> for \<open>NULL\<close>; a heap of nodes is a
  partial map from addresses. The target is a 32-bit x86 (\<^verbatim>\<open>target/x86/settings.py\<close>,
  \<open>-m32\<close>), so \<open>long\<close> has 32 bits.
\<close>

unbundle bit_operations_syntax

named_theorems cos_simps \<open>characteristic equations of the kernel's operations\<close>
named_theorems cos_frame \<open>what an operation leaves unchanged\<close>

section \<open>Machine types and constants\<close>

type_synonym u8 = "8 word"
type_synonym u16 = "16 word"
type_synonym u32 = "32 word"

text \<open>\<open>err_t\<close> is a signed long; it is only compared and negated.\<close>
type_synonym err_t = int

text \<open>
  The error codes of \<^verbatim>\<open>include/cos/cosDef.h\<close>. \<open>ERR_TIMEOUT\<close> is not among them:
  \<^verbatim>\<open>cos.h\<close> pulls it in from \<^verbatim>\<open>lwip/err.h\<close> (through \<^verbatim>\<open>eth_device.h\<close>), where it is
  \<open>-3\<close>.
\<close>

definition ERR_OK :: err_t where "ERR_OK = 0"
definition ERR_ERROR :: err_t where "ERR_ERROR = 1"
definition ERR_FULL :: err_t where "ERR_FULL = 3"
definition ERR_EMPTY :: err_t where "ERR_EMPTY = 4"
definition ERR_NOSYS :: err_t where "ERR_NOSYS = 6"
definition ERR_BUSY :: err_t where "ERR_BUSY = 7"
definition ERR_IO :: err_t where "ERR_IO = 8"
definition ERR_TIMEOUT :: err_t where "ERR_TIMEOUT = -3"

lemmas err_defs = ERR_OK_def ERR_ERROR_def ERR_FULL_def ERR_EMPTY_def ERR_NOSYS_def
  ERR_BUSY_def ERR_IO_def ERR_TIMEOUT_def

text \<open>The rounding macros of \<^verbatim>\<open>include/cos/cosDef.h\<close>, on 32-bit values.\<close>

definition WIDTH_ALIGN :: "u32 \<Rightarrow> u32 \<Rightarrow> u32" where
  "WIDTH_ALIGN sz align = (sz + align - 1) AND NOT (align - 1)"

definition WIDTH_ALIGN_DOWN :: "u32 \<Rightarrow> u32 \<Rightarrow> u32" where
  "WIDTH_ALIGN_DOWN sz align = sz AND NOT (align - 1)"

section \<open>Assertions and dereferencing\<close>

text \<open>\<open>COS_ASSERT(EX)\<close>: carries on when the condition holds, never returns otherwise.\<close>

definition cos_assert :: "bool \<Rightarrow> unit option" where
  "cos_assert b = (if b then Some () else None)"

lemma cos_assert_simps [simp]:
  "cos_assert True = Some ()" "cos_assert False = None"
  by (simp_all add: cos_assert_def)

lemma cos_assert_bind [simp]:
  "Option.bind (cos_assert b) f = (if b then f () else None)"
  by (simp add: cos_assert_def)

text \<open>Update of the record stored at an address; \<open>None\<close> when nothing is stored there.\<close>

definition heap_upd :: "('k \<rightharpoonup> 'n) \<Rightarrow> 'k \<Rightarrow> ('n \<Rightarrow> 'n) \<Rightarrow> ('k \<rightharpoonup> 'n) option" where
  "heap_upd h a f = (case h a of None \<Rightarrow> None | Some n \<Rightarrow> Some (h(a \<mapsto> f n)))"

lemma heap_upd_Some [simp]: "h a = Some n \<Longrightarrow> heap_upd h a f = Some (h(a \<mapsto> f n))"
  by (simp add: heap_upd_def)

lemma heap_upd_None [simp]: "h a = None \<Longrightarrow> heap_upd h a f = None"
  by (simp add: heap_upd_def)

lemma heap_upd_eq_Some:
  "heap_upd h a f = Some h' \<longleftrightarrow> (\<exists>n. h a = Some n \<and> h' = h(a \<mapsto> f n))"
  by (auto simp: heap_upd_def split: option.splits)

section \<open>Words\<close>

text \<open>Signed values that are not negative.\<close>

lemma sint_small32:
  assumes "unat (x :: u32) < 2147483648"
  shows "sint x = int (unat x)"
proof -
  have "int (unat x) < int 2147483648" using assms by (simp only: of_nat_less_iff)
  then have "uint x < 2147483648" by (simp only: of_nat_unat of_nat_numeral)
  then have "uint x < 2 ^ 31" by simp
  moreover have "- (2 ^ 31) \<le> uint x" by (rule order_trans [OF _ uint_ge_0]) simp
  ultimately have "signed_take_bit 31 (uint x) = uint x" by (simp only: signed_take_bit_int_eq_self)
  then show ?thesis by (simp add: sint_uint)
qed

lemma sint_small16:
  assumes "unat (x :: u16) < 32767"
  shows "sint x = uint x"
proof -
  have "int (unat x) < int 32767" using assms by (simp only: of_nat_less_iff)
  then have "uint x < 32767" by (simp only: of_nat_unat of_nat_numeral)
  then have "uint x < 2 ^ 15" by simp
  moreover have "- (2 ^ 15) \<le> uint x" by (rule order_trans [OF _ uint_ge_0]) simp
  ultimately have "signed_take_bit 15 (uint x) = uint x" by (simp only: signed_take_bit_int_eq_self)
  then show ?thesis by (simp add: sint_uint)
qed

lemma inc_small16:
  assumes "unat (x :: u16) < 32767"
  shows "x + 1 \<noteq> 0"
proof
  assume "x + 1 = 0"
  then have "x = - 1" by (simp add: add_eq_0_iff2)
  moreover have "- 1 = (65535 :: u16)" by simp
  ultimately have "unat x = unat (65535 :: u16)" by (simp only:)
  then have "unat x = 65535" by simp
  with assms show False by simp
qed

text \<open>Counters that do not wrap around.\<close>

lemma unat_inc16: "unat (i :: u16) < 65535 \<Longrightarrow> unat (i + 1) = unat i + 1"
  by (simp add: unat_word_ariths)

lemma unat_dec16: "0 < unat (i :: u16) \<Longrightarrow> unat (i - 1) = unat i - 1"
  by (simp add: unat_sub word_le_nat_alt)

lemma unat_less16: "unat (i :: u16) < 65536"
  using unsigned_less [of i, where 'a = nat] by simp

text \<open>Clearing the low bits.\<close>

lemma unat_and_not_mask:
  fixes w :: "'a::len word"
  shows "unat (w AND NOT (mask k)) = unat w div 2 ^ k * 2 ^ k"
proof -
  have "w AND NOT (mask k) = push_bit k (drop_bit k w)"
    by (rule bit_eqI) (auto simp: bit_simps)
  then have "unat (w AND NOT (mask k)) = take_bit LENGTH('a) (push_bit k (drop_bit k (unat w)))"
    by (simp add: unsigned_push_bit_eq unsigned_drop_bit_eq take_bit_nat_eq_self [OF unsigned_less])
  also have "\<dots> = unat w div 2 ^ k * 2 ^ k"
  proof -
    have "unat w div 2 ^ k * 2 ^ k \<le> unat w" by simp
    also have "\<dots> < 2 ^ LENGTH('a)" by (rule unsigned_less)
    finally show ?thesis by (simp add: push_bit_eq_mult drop_bit_eq_div take_bit_nat_eq_self)
  qed
  finally show ?thesis .
qed

section \<open>Lists\<close>

lemma remove1_append_Cons:
  "x \<notin> set xs \<Longrightarrow> remove1 x (xs @ x # ys) = xs @ ys"
  by (simp add: remove1_append)

lemma in_set_splitE:
  assumes "x \<in> set xs" "distinct xs"
  obtains ys zs where "xs = ys @ x # zs" "x \<notin> set ys" "x \<notin> set zs"
  using assms by (metis in_set_conv_decomp_first distinct.simps(2) distinct_append
      split_list_first)

end
