(* ===== verification/Coslib_List.thy ===== *)
theory Coslib_List
  imports Cos_Prelude
begin

text \<open>
  The intrusive doubly linked list of \<^verbatim>\<open>components/stdlib/coslib/list.hpp\<close>, at the level
  of its pointers: a node carries a value and the links \<open>_pNext\<close> and \<open>_pPrev\<close>, a list is
  its head and tail pointer, and all nodes live in one heap, because the kernel moves the
  single node of a thread between several lists. \<open>list_rep h l xs\<close> says that the list \<open>l\<close>
  holds the node addresses \<open>xs\<close> in this order; the operations are shown to refine
  appending to and removing from that sequence.
\<close>

section \<open>Nodes and lists\<close>

record 'v lnode =
  ln_value :: 'v
  ln_next :: "nat option"
  ln_prev :: "nat option"

type_synonym 'v lheap = "nat \<Rightarrow> 'v lnode option"

record clist =
  pHead :: "nat option"
  pTail :: "nat option"

text \<open>The constructors \<open>Node(T val)\<close> and \<open>List()\<close>.\<close>

definition Node_new :: "'v \<Rightarrow> 'v lnode" where
  "Node_new val = \<lparr>ln_value = val, ln_next = None, ln_prev = None\<rparr>"

definition List_new :: clist where
  "List_new = \<lparr>pHead = None, pTail = None\<rparr>"

section \<open>Operations\<close>

text \<open>The loop of \<open>size()\<close> from a node on, with the counter \<open>i\<close>.\<close>

partial_function (option) size_loop :: "'v lheap \<Rightarrow> nat option \<Rightarrow> nat \<Rightarrow> nat option" where
  "size_loop h p i =
     (case p of None \<Rightarrow> Some i
      | Some a \<Rightarrow> do { n \<leftarrow> h a; size_loop h (ln_next n) (i + 1) })"

definition List_size :: "'v lheap \<Rightarrow> clist \<Rightarrow> nat option" where
  "List_size h l = size_loop h (pHead l) 0"

definition List_empty :: "clist \<Rightarrow> bool" where
  "List_empty l = (pHead l = None)"

text \<open>\<open>front()\<close> returns \<open>NULL\<close> (here \<open>None\<close>) on an empty list.\<close>

definition List_front :: "'v lheap \<Rightarrow> clist \<Rightarrow> 'v option option" where
  "List_front h l =
     (case pHead l of None \<Rightarrow> Some None
      | Some a \<Rightarrow> do { n \<leftarrow> h a; Some (Some (ln_value n)) })"

definition List_begin :: "clist \<Rightarrow> nat option" where
  "List_begin l = pHead l"

text \<open>\<open>getNode(int pos)\<close>: the counter is compared with 0, so a negative one runs off the end.\<close>

partial_function (option) getNode_loop :: "'v lheap \<Rightarrow> nat option \<Rightarrow> int \<Rightarrow> nat option option" where
  "getNode_loop h p i =
     (if i = 0 then Some p
      else (case p of None \<Rightarrow> Some None
            | Some a \<Rightarrow> do { n \<leftarrow> h a; getNode_loop h (ln_next n) (i - 1) }))"

declare size_loop.simps [code] getNode_loop.simps [code]

definition getNode :: "'v lheap \<Rightarrow> clist \<Rightarrow> int \<Rightarrow> nat option option" where
  "getNode h l i = getNode_loop h (pHead l) i"

text \<open>
  \<open>push_back\<close>: into an empty list the node is stored as head and tail and its own links
  are left as they are; otherwise it is linked behind the tail.
\<close>

definition push_back :: "'v lheap \<Rightarrow> clist \<Rightarrow> nat \<Rightarrow> ('v lheap \<times> clist) option" where
  "push_back h l p =
     (if pHead l = None then Some (h, l\<lparr>pTail := Some p, pHead := Some p\<rparr>)
      else if pTail l = Some p then Some (h, l)
      else do {
        t \<leftarrow> pTail l;
        h \<leftarrow> heap_upd h t (ln_next_update (\<lambda>_. Some p));
        h \<leftarrow> heap_upd h p (ln_prev_update (\<lambda>_. Some t));
        h \<leftarrow> heap_upd h p (ln_next_update (\<lambda>_. None));
        Some (h, l\<lparr>pTail := Some p\<rparr>)
      })"

text \<open>
  \<open>erase\<close>: the erased node keeps its links (the last two statements of the source,
  \<open>p->_pPrev == NULL; p->_pNext == NULL;\<close>, are comparisons), and erasing the head leaves
  \<open>_pTail\<close> alone.
\<close>

definition erase :: "'v lheap \<Rightarrow> clist \<Rightarrow> nat \<Rightarrow> ('v lheap \<times> clist) option" where
  "erase h l p =
     (if pHead l = Some p then do {
        n \<leftarrow> h p;
        (case ln_next n of
           None \<Rightarrow> Some (h, l\<lparr>pHead := None\<rparr>)
         | Some q \<Rightarrow> do {
             h \<leftarrow> heap_upd h q (ln_prev_update (\<lambda>_. None));
             Some (h, l\<lparr>pHead := Some q\<rparr>) })
      }
      else if pTail l = Some p then do {
        n \<leftarrow> h p;
        t \<leftarrow> ln_prev n;
        h \<leftarrow> heap_upd h t (ln_next_update (\<lambda>_. None));
        Some (h, l\<lparr>pTail := Some t\<rparr>)
      }
      else do {
        n \<leftarrow> h p;
        q \<leftarrow> ln_next n;
        h \<leftarrow> heap_upd h q (ln_prev_update (\<lambda>_. ln_prev n));
        n \<leftarrow> h p;
        r \<leftarrow> ln_prev n;
        h \<leftarrow> heap_upd h r (ln_next_update (\<lambda>_. ln_next n));
        Some (h, l)
      })"

section \<open>The sequence a list represents\<close>

text \<open>
  \<open>lseg h prv p xs q\<close>: from pointer \<open>p\<close> the \<open>_pNext\<close> links run through \<open>xs\<close> and end in
  pointer \<open>q\<close>, and the \<open>_pPrev\<close> link of each node names the one before it (\<open>prv\<close> for the
  first; \<open>None\<close> there puts no condition on it, since the head's \<open>_pPrev\<close> is never read).
\<close>

fun lseg :: "'v lheap \<Rightarrow> nat option \<Rightarrow> nat option \<Rightarrow> nat list \<Rightarrow> nat option \<Rightarrow> bool" where
  "lseg h prv p [] q = (p = q)"
| "lseg h prv p (a # as) q =
     (p = Some a \<and>
      (case h a of None \<Rightarrow> False
       | Some n \<Rightarrow> (prv = None \<or> ln_prev n = prv) \<and> lseg h (Some a) (ln_next n) as q))"

definition list_rep :: "'v lheap \<Rightarrow> clist \<Rightarrow> nat list \<Rightarrow> bool" where
  "list_rep h l xs \<longleftrightarrow>
     lseg h None (pHead l) xs None \<and> distinct xs \<and> (xs \<noteq> [] \<longrightarrow> pTail l = Some (last xs))"

lemma lseg_cong:
  "(\<And>a. a \<in> set xs \<Longrightarrow> h' a = h a) \<Longrightarrow> lseg h' prv p xs q = lseg h prv p xs q"
  by (induction xs arbitrary: prv p) (auto split: option.splits)

lemma lseg_upd_other [simp]: "a \<notin> set xs \<Longrightarrow> lseg (h(a := v)) prv p xs q = lseg h prv p xs q"
  by (rule lseg_cong) auto

lemma lseg_weaken: "lseg h prv p xs q \<Longrightarrow> lseg h None p xs q"
  by (cases xs) (auto split: option.splits)

lemma lseg_in_heap: "lseg h prv p xs q \<Longrightarrow> a \<in> set xs \<Longrightarrow> \<exists>n. h a = Some n"
  by (induction xs arbitrary: prv p) (auto split: option.splits)

lemma lseg_append:
  "lseg h prv p (xs @ ys) q \<longleftrightarrow>
     (\<exists>m. lseg h prv p xs m \<and> lseg h (if xs = [] then prv else Some (last xs)) m ys q)"
  by (induction xs arbitrary: prv p) (auto split: option.splits)

lemma lseg_snoc:
  "lseg h prv p (xs @ [a]) q \<longleftrightarrow>
     (\<exists>n. h a = Some n \<and> ln_next n = q \<and> lseg h prv p xs (Some a) \<and>
        (xs = [] \<longrightarrow> prv = None \<or> ln_prev n = prv) \<and>
        (xs \<noteq> [] \<longrightarrow> ln_prev n = Some (last xs)))"
  by (auto simp: lseg_append split: option.splits)

lemma lseg_split:
  "lseg h prv p (xs @ a # ys) q \<longleftrightarrow>
     (\<exists>n. h a = Some n \<and> lseg h prv p xs (Some a) \<and> lseg h (Some a) (ln_next n) ys q \<and>
        (xs = [] \<longrightarrow> prv = None \<or> ln_prev n = prv) \<and>
        (xs \<noteq> [] \<longrightarrow> ln_prev n = Some (last xs)))"
  by (auto simp: lseg_append split: option.splits)

text \<open>A list represents one sequence only.\<close>

lemma lseg_unique: "lseg h prv p xs None \<Longrightarrow> lseg h prv' p ys None \<Longrightarrow> xs = ys"
proof (induction xs arbitrary: prv prv' p ys)
  case Nil
  then show ?case by (cases ys) auto
next
  case (Cons x xs)
  then show ?case by (cases ys) (auto split: option.splits)
qed

lemma list_rep_unique: "list_rep h l xs \<Longrightarrow> list_rep h l ys \<Longrightarrow> xs = ys"
  unfolding list_rep_def by (blast intro: lseg_unique)

lemma list_rep_cong:
  "(\<And>a. a \<in> set xs \<Longrightarrow> h' a = h a) \<Longrightarrow> list_rep h' l xs = list_rep h l xs"
  unfolding list_rep_def using lseg_cong by metis

lemma list_rep_upd_other [simp]: "a \<notin> set xs \<Longrightarrow> list_rep (h(a := v)) l xs = list_rep h l xs"
  by (rule list_rep_cong) auto

lemma list_rep_distinct: "list_rep h l xs \<Longrightarrow> distinct xs"
  by (simp add: list_rep_def)

lemma list_rep_in_heap: "list_rep h l xs \<Longrightarrow> a \<in> set xs \<Longrightarrow> \<exists>n. h a = Some n"
  by (auto simp: list_rep_def dest: lseg_in_heap)

lemma list_rep_Nil [simp]: "list_rep h l [] \<longleftrightarrow> pHead l = None"
  by (simp add: list_rep_def)

lemma list_rep_head: "list_rep h l xs \<Longrightarrow> pHead l = (case xs of [] \<Rightarrow> None | a # _ \<Rightarrow> Some a)"
  by (auto simp: list_rep_def split: list.splits)

section \<open>Refinement of the operations\<close>

lemma List_empty_rep: "list_rep h l xs \<Longrightarrow> List_empty l = (xs = [])"
  by (auto simp: List_empty_def dest: list_rep_head split: list.splits)

lemma List_front_rep:
  assumes "list_rep h l xs"
  shows "List_front h l = Some (case xs of [] \<Rightarrow> None | a # _ \<Rightarrow> Some (ln_value (the (h a))))"
  using assms by (auto simp: List_front_def list_rep_def split: list.splits option.splits)

lemma size_loop_lseg: "lseg h prv p xs None \<Longrightarrow> size_loop h p i = Some (i + length xs)"
proof (induction xs arbitrary: prv p i)
  case Nil
  then show ?case by (simp add: size_loop.simps)
next
  case (Cons a xs)
  then obtain n where "p = Some a" "h a = Some n" "lseg h (Some a) (ln_next n) xs None"
    by (auto split: option.splits)
  then show ?case using Cons.IH by (subst size_loop.simps) simp
qed

lemma List_size_rep: "list_rep h l xs \<Longrightarrow> List_size h l = Some (length xs)"
  using size_loop_lseg [of h None "pHead l" xs 0] by (simp add: List_size_def list_rep_def)

lemma getNode_loop_lseg:
  "lseg h prv p xs None \<Longrightarrow>
     getNode_loop h p i =
       Some (if 0 \<le> i \<and> nat i < length xs then Some (xs ! nat i) else None)"
proof (induction xs arbitrary: prv p i)
  case Nil
  then show ?case by (subst getNode_loop.simps) auto
next
  case (Cons a xs)
  then obtain n where n: "p = Some a" "h a = Some n" "lseg h (Some a) (ln_next n) xs None"
    by (auto split: option.splits)
  show ?case
  proof (cases "i = 0")
    case True
    with n show ?thesis by (subst getNode_loop.simps) simp
  next
    case False
    with n Cons.IH [OF n(3), of "i - 1"] show ?thesis
      by (subst getNode_loop.simps) (auto simp: nth_Cons' nat_diff_distrib)
  qed
qed

lemma getNode_rep:
  "list_rep h l xs \<Longrightarrow>
     getNode h l i = Some (if 0 \<le> i \<and> nat i < length xs then Some (xs ! nat i) else None)"
  using getNode_loop_lseg [of h None "pHead l" xs i] by (simp add: getNode_def list_rep_def)

text \<open>What an operation may change in the heap: links only, and only of the given nodes.\<close>

definition same_values :: "'v lheap \<Rightarrow> 'v lheap \<Rightarrow> bool" where
  "same_values h h' \<longleftrightarrow> (\<forall>a. map_option ln_value (h' a) = map_option ln_value (h a))"

lemma same_values_refl [simp]: "same_values h h"
  by (simp add: same_values_def)

lemma same_values_trans: "same_values h h' \<Longrightarrow> same_values h' h'' \<Longrightarrow> same_values h h''"
  by (simp add: same_values_def)

lemma same_values_lookup: "same_values h h' \<Longrightarrow> (h' a = None) = (h a = None)"
  unfolding same_values_def by (metis option.map_disc_iff)

text \<open>
  Appending: the node must not be in the list, and where the list is empty its
  \<open>_pNext\<close> must already be \<open>NULL\<close>.
\<close>

lemma push_back_rep:
  assumes rep: "list_rep h l xs" and p: "h p = Some n" "p \<notin> set xs"
    and clean: "xs = [] \<longrightarrow> ln_next n = None"
  obtains h' l' where "push_back h l p = Some (h', l')" "list_rep h' l' (xs @ [p])"
    "same_values h h'"
    "\<And>a. a \<noteq> p \<Longrightarrow> (xs \<noteq> [] \<longrightarrow> a \<noteq> last xs) \<Longrightarrow> h' a = h a"
    "\<exists>m. h' p = Some m \<and> ln_next m = None"
proof (cases xs rule: rev_cases)
  case Nil
  with rep p clean have "push_back h l p = Some (h, l\<lparr>pTail := Some p, pHead := Some p\<rparr>)"
    "list_rep h (l\<lparr>pTail := Some p, pHead := Some p\<rparr>) (xs @ [p])"
    by (auto simp: push_back_def list_rep_def)
  with that p clean Nil show ?thesis by fastforce
next
  case (snoc ys t)
  from rep snoc obtain m where t: "h t = Some m" "ln_next m = None" "pTail l = Some t"
    "lseg h None (pHead l) ys (Some t)" "ys \<noteq> [] \<longrightarrow> ln_prev m = Some (last ys)"
    "distinct (ys @ [t])"
    by (auto simp: list_rep_def lseg_snoc)
  from t(4) obtain y where hd: "pHead l = Some y" by (cases ys) auto
  from p snoc have ne: "t \<noteq> p" "p \<notin> set ys" by auto
  let ?h = "h(t \<mapsto> m\<lparr>ln_next := Some p\<rparr>, p \<mapsto> n\<lparr>ln_prev := Some t, ln_next := None\<rparr>)"
  let ?l = "l\<lparr>pTail := Some p\<rparr>"
  have eq: "push_back h l p = Some (?h, ?l)"
    using hd t p ne by (simp add: push_back_def)
  have "lseg ?h None (pHead l) (ys @ [t, p]) None"
    using t p ne by (auto simp: lseg_append)
  then have rep': "list_rep ?h ?l (xs @ [p])"
    using t p snoc by (auto simp: list_rep_def)
  have "same_values h ?h" using t p by (auto simp: same_values_def)
  with eq rep' ne snoc that show ?thesis by fastforce
qed

lemma erase_rep:
  assumes rep: "list_rep h l xs" and p: "p \<in> set xs"
  obtains h' l' where "erase h l p = Some (h', l')" "list_rep h' l' (remove1 p xs)"
    "same_values h h'" "h' p = h p" "\<And>a. a \<notin> set xs \<Longrightarrow> h' a = h a"
proof -
  from rep p obtain ys zs where xs: "xs = ys @ p # zs" and pn: "p \<notin> set ys" "p \<notin> set zs"
    by (metis in_set_splitE list_rep_distinct)
  have rem: "remove1 p xs = ys @ zs" using xs pn by (simp add: remove1_append)
  from rep xs obtain n where n: "h p = Some n" "lseg h None (pHead l) ys (Some p)"
    "lseg h (Some p) (ln_next n) zs None" "ys \<noteq> [] \<longrightarrow> ln_prev n = Some (last ys)"
    and dis: "distinct (ys @ p # zs)" and tl: "pTail l = Some (last (p # zs))"
    by (auto simp: list_rep_def lseg_split)
  show thesis
  proof (cases ys rule: rev_cases)
    case Nil
    show thesis
    proof (cases zs)
      case Nil': Nil
      with Nil n have "erase h l p = Some (h, l\<lparr>pHead := None\<rparr>)"
        by (simp add: erase_def)
      with that rem Nil Nil' show thesis by simp
    next
      case (Cons q zs')
      with n obtain m where m: "ln_next n = Some q" "h q = Some m" "ln_prev m = Some p"
        "lseg h (Some q) (ln_next m) zs' None"
        by (auto split: option.splits)
      let ?h = "h(q \<mapsto> m\<lparr>ln_prev := None\<rparr>)"
      have "erase h l p = Some (?h, l\<lparr>pHead := Some q\<rparr>)"
        using Nil n m by (simp add: erase_def)
      moreover have "list_rep ?h (l\<lparr>pHead := Some q\<rparr>) (remove1 p xs)"
        using rem Nil Cons m dis tl by (auto simp: list_rep_def)
      moreover have "same_values h ?h" using m by (auto simp: same_values_def)
      ultimately show thesis using that xs Nil Cons dis by fastforce
    qed
  next
    case (snoc ys' r)
    with n dis obtain k where r: "ln_prev n = Some r" "h r = Some k" "ln_next k = Some p"
      "lseg h None (pHead l) ys' (Some r)" "ys' \<noteq> [] \<longrightarrow> ln_prev k = Some (last ys')" "r \<noteq> p"
      "r \<notin> set ys'"
      by (auto simp: lseg_snoc)
    have hd: "pHead l \<noteq> Some p" using r(4) dis snoc by (cases ys') auto
    show thesis
    proof (cases zs)
      case Nil
      let ?h = "h(r \<mapsto> k\<lparr>ln_next := None\<rparr>)"
      have "erase h l p = Some (?h, l\<lparr>pTail := Some r\<rparr>)"
        using hd n r tl Nil by (simp add: erase_def)
      moreover have "list_rep ?h (l\<lparr>pTail := Some r\<rparr>) (remove1 p xs)"
        using rem Nil snoc r dis by (auto simp: list_rep_def lseg_snoc)
      moreover have "same_values h ?h" using r by (auto simp: same_values_def)
      ultimately show thesis using that xs snoc r by fastforce
    next
      case (Cons q zs')
      with n obtain m where m: "ln_next n = Some q" "h q = Some m" "ln_prev m = Some p"
        "lseg h (Some q) (ln_next m) zs' None"
        by (auto split: option.splits)
      have ne: "q \<noteq> p" "q \<noteq> r" "q \<notin> set ys'" using dis snoc Cons by auto
      let ?h = "h(q \<mapsto> m\<lparr>ln_prev := Some r\<rparr>, r \<mapsto> k\<lparr>ln_next := Some q\<rparr>)"
      have tl': "pTail l \<noteq> Some p" using tl Cons dis by auto
      have "erase h l p = Some (?h, l)"
        using hd tl' n r m ne by (simp add: erase_def)
      moreover have "lseg ?h None (pHead l) ((ys' @ [r]) @ q # zs') None"
        using r m ne dis snoc Cons by (auto simp: lseg_append)
      then have "list_rep ?h l (remove1 p xs)"
        using rem snoc Cons dis tl by (auto simp: list_rep_def)
      moreover have "same_values h ?h" using r m ne by (auto simp: same_values_def)
      moreover have "?h p = h p" using r(6) ne(1) by simp
      ultimately show thesis using that xs snoc Cons by fastforce
    qed
  qed
qed

section \<open>Properties\<close>

text \<open>Two fresh nodes in a heap, the second appended to the first.\<close>

definition sample_heap :: "nat lheap" where
  "sample_heap = [1 \<mapsto> \<lparr>ln_value = 10, ln_next = Some 2, ln_prev = None\<rparr>,
                  2 \<mapsto> \<lparr>ln_value = 20, ln_next = None, ln_prev = Some 1\<rparr>,
                  3 \<mapsto> Node_new 30]"

definition sample_list :: clist where
  "sample_list = \<lparr>pHead = Some 1, pTail = Some 2\<rparr>"

lemma sample_rep: "list_rep sample_heap sample_list [1, 2]"
  by (simp add: list_rep_def sample_heap_def sample_list_def)

text \<open>C1: appending a node that is not in the list, and whose \<open>_pNext\<close> is \<open>NULL\<close> in case
  the list is empty, never dereferences \<open>NULL\<close>; afterwards the list holds the old nodes in
  their order followed by the new one, no stored value changed, and no node outside the
  list was written.\<close>

theorem push_back_refines:
  assumes "list_rep h l xs" and "h p = Some n" and "p \<notin> set xs"
    and "xs = [] \<longrightarrow> ln_next n = None"
  shows "\<exists>h' l'. push_back h l p = Some (h', l') \<and> list_rep h' l' (xs @ [p]) \<and>
    same_values h h' \<and> (\<forall>a. a \<noteq> p \<and> a \<notin> set xs \<longrightarrow> h' a = h a)"
  using push_back_rep [OF assms] by (metis last_in_set)

theorem push_back_refines_witness:
  "\<exists>h' l'. push_back sample_heap sample_list 3 = Some (h', l') \<and>
    list_rep h' l' [1, 2, 3] \<and> same_values sample_heap h' \<and>
    (\<forall>a. a \<noteq> 3 \<and> a \<notin> set [1, 2] \<longrightarrow> h' a = sample_heap a)"
  using push_back_refines [OF sample_rep, of 3 "Node_new 30"]
  by (simp add: sample_heap_def)

text \<open>C2: erasing a node of the list never dereferences \<open>NULL\<close> and takes exactly this node
  out of the sequence, wherever it stands (head, tail or middle); values and nodes outside
  the list are untouched, and the erased node keeps its own links.\<close>

theorem erase_refines:
  assumes "list_rep h l xs" and "p \<in> set xs"
  shows "\<exists>h' l'. erase h l p = Some (h', l') \<and> list_rep h' l' (remove1 p xs) \<and>
    same_values h h' \<and> h' p = h p \<and> (\<forall>a. a \<notin> set xs \<longrightarrow> h' a = h a)"
  using erase_rep [OF assms] by metis

theorem erase_refines_witness:
  "\<exists>h' l'. erase sample_heap sample_list 1 = Some (h', l') \<and> list_rep h' l' [2] \<and>
    same_values sample_heap h' \<and> h' 1 = sample_heap 1 \<and>
    (\<forall>a. a \<notin> set [1, 2] \<longrightarrow> h' a = sample_heap a)"
  using erase_refines [OF sample_rep, of 1] by simp

text \<open>The precondition of the first property is not met by the kernel's own use of the list. A node erased
  from the front of a list with further nodes keeps its \<open>_pNext\<close>, and \<open>push_back\<close> into an empty list does not
  reset it: the list that should hold just this node then has all the remaining nodes of the first list
  behind it.\<close>

lemma push_back_stale:
  assumes "list_rep h l (q # xs)" and "h p = Some n" "ln_next n = Some q" and "List_empty l2"
  shows "\<exists>l2'. push_back h l2 p = Some (h, l2') \<and> List_size h l2' = Some (length (p # q # xs)) \<and>
    getNode h l2' 1 = Some (Some q)"
proof -
  let ?l2 = "l2\<lparr>pTail := Some p, pHead := Some p\<rparr>"
  have pb: "push_back h l2 p = Some (h, ?l2)"
    using assms(4) by (simp add: push_back_def List_empty_def)
  have seg: "lseg h None (Some q) (q # xs) None"
    using assms(1) by (auto simp: list_rep_def)
  have "List_size h ?l2 = Some (length (p # q # xs))"
    using assms(2,3) size_loop_lseg [OF seg, of 1] by (simp add: List_size_def size_loop.simps [of h "Some p"])
  moreover have "getNode h ?l2 1 = Some (Some q)"
    using assms(2,3) getNode_loop_lseg [OF seg, of 0]
    by (simp add: getNode_def getNode_loop.simps [of h "Some p"])
  ultimately show ?thesis using pb by blast
qed

lemma list_rep_next: "list_rep h l (p # q # xs) \<Longrightarrow> \<exists>n. h p = Some n \<and> ln_next n = Some q"
  by (auto simp: list_rep_def split: option.splits)

end
