(* ===== verification/Coslib_RBTree.thy ===== *)
theory Coslib_RBTree
  imports Cos_Prelude
begin

text \<open>
  The red-black tree of \<^verbatim>\<open>components/stdlib/coslib/rbtree.hpp\<close>, statement by statement:
  nodes with parent and child pointers in a heap, the shared leaf \<open>nil\<close> as a node of its
  own, rotations and rebalancing as pointer updates. The theory holds the definitions;
  \<open>Coslib_RBTree_Correct\<close> and the theories below it relate them to sequences of nodes in key order.

  A tree object and its nodes form one state: \<open>rb_nodes\<close> is the heap of the nodes, \<open>rb_root\<close>
  the field \<open>root\<close>. The node field \<open>tree\<close> is only ever compared with \<open>NULL\<close> and
  dereferenced to reach \<open>root\<close>, so it is a truth value here. Keys are \<open>long\<close>; they are
  compared and never computed with, so they are integers here.
\<close>

section \<open>Nodes\<close>

datatype color = RED | BLACK

datatype side = LEFT | RIGHT

record 'o rbnode =
  rb_obj :: 'o
  rb_key :: int
  rb_color :: color
  rb_parent :: "nat option"
  rb_link :: "side \<Rightarrow> nat option"
  rb_tree :: bool

record 'o rbtree =
  rb_nodes :: "nat \<Rightarrow> 'o rbnode option"
  rb_root :: "nat option"

text \<open>The address of the static node \<open>RBTree<T>::nil\<close>.\<close>

definition nil_addr :: nat where "nil_addr = 0"

text \<open>The constructors \<open>Node(k, o, t)\<close> and \<open>Node()\<close>; the latter leaves \<open>obj\<close> uninitialised.\<close>

definition rbnode_new :: "int \<Rightarrow> 'o \<Rightarrow> bool \<Rightarrow> 'o rbnode" where
  "rbnode_new k ob t = \<lparr>rb_obj = ob, rb_key = k, rb_color = RED, rb_parent = None,
     rb_link = (\<lambda>_. Some nil_addr), rb_tree = t\<rparr>"

definition rbnode_nil :: "'o \<Rightarrow> 'o rbnode" where
  "rbnode_nil ob = \<lparr>rb_obj = ob, rb_key = -1, rb_color = BLACK, rb_parent = None,
     rb_link = (\<lambda>_. None), rb_tree = False\<rparr>"

text \<open>Assignment to fields of the node at an address.\<close>

definition modify :: "nat \<Rightarrow> ('o rbnode \<Rightarrow> 'o rbnode) \<Rightarrow> 'o rbtree \<Rightarrow> 'o rbtree option" where
  "modify a f S = do { h \<leftarrow> heap_upd (rb_nodes S) a f; Some (S\<lparr>rb_nodes := h\<rparr>) }"

abbreviation set_color :: "color \<Rightarrow> 'o rbnode \<Rightarrow> 'o rbnode" where
  "set_color c \<equiv> rb_color_update (\<lambda>_. c)"

abbreviation set_parent :: "nat option \<Rightarrow> 'o rbnode \<Rightarrow> 'o rbnode" where
  "set_parent p \<equiv> rb_parent_update (\<lambda>_. p)"

abbreviation set_link :: "side \<Rightarrow> nat \<Rightarrow> 'o rbnode \<Rightarrow> 'o rbnode" where
  "set_link s a \<equiv> rb_link_update (\<lambda>l. l(s := Some a))"

abbreviation set_tree :: "bool \<Rightarrow> 'o rbnode \<Rightarrow> 'o rbnode" where
  "set_tree b \<equiv> rb_tree_update (\<lambda>_. b)"

definition rb_set_key :: "nat \<Rightarrow> int \<Rightarrow> 'o rbtree \<Rightarrow> 'o rbtree option" where
  "rb_set_key a k S = modify a (rb_key_update (\<lambda>_. k)) S"

definition isRed :: "'o rbtree \<Rightarrow> nat \<Rightarrow> bool option" where
  "isRed S a = do { n \<leftarrow> rb_nodes S a; Some (rb_color n = RED) }"

definition isBlack :: "'o rbtree \<Rightarrow> nat \<Rightarrow> bool option" where
  "isBlack S a = do { n \<leftarrow> rb_nodes S a; Some (rb_color n = BLACK) }"

definition swapColor :: "'o rbtree \<Rightarrow> nat \<Rightarrow> nat \<Rightarrow> 'o rbtree option" where
  "swapColor S this node = do {
     n \<leftarrow> rb_nodes S this;
     m \<leftarrow> rb_nodes S node;
     S \<leftarrow> modify this (set_color (rb_color m)) S;
     modify node (set_color (rb_color n)) S }"

definition whichSide :: "'o rbtree \<Rightarrow> nat \<Rightarrow> nat \<Rightarrow> side option" where
  "whichSide S this node = do {
     n \<leftarrow> rb_nodes S this;
     Some (if rb_link n LEFT = Some node then LEFT
           else if rb_link n RIGHT = Some node then RIGHT
           else LEFT) }"

definition otherSide :: "side \<Rightarrow> side" where
  "otherSide s = (if s = LEFT then RIGHT else LEFT)"

definition getBrother :: "'o rbtree \<Rightarrow> nat \<Rightarrow> nat option option" where
  "getBrother S this = do {
     n \<leftarrow> rb_nodes S this;
     (case rb_parent n of
        None \<Rightarrow> Some None
      | Some p \<Rightarrow> do {
          m \<leftarrow> rb_nodes S p;
          Some (if rb_link m LEFT = Some this then rb_link m RIGHT else rb_link m LEFT) }) }"

text \<open>\<open>attach(Side, Node *)\<close> and \<open>attach(Node *)\<close>, which picks the side by the keys.\<close>

definition attach_side :: "'o rbtree \<Rightarrow> nat \<Rightarrow> side \<Rightarrow> nat \<Rightarrow> 'o rbtree option" where
  "attach_side S this s node = do {
     S \<leftarrow> modify this (set_link s node) S;
     if node = nil_addr then Some S else modify node (set_parent (Some this)) S }"

definition attach :: "'o rbtree \<Rightarrow> nat \<Rightarrow> nat \<Rightarrow> 'o rbtree option" where
  "attach S this node = do {
     n \<leftarrow> rb_nodes S node;
     m \<leftarrow> rb_nodes S this;
     attach_side S this (if rb_key n < rb_key m then LEFT else RIGHT) node }"

text \<open>\<open>detach(Side)\<close> and \<open>detach(Node *)\<close>; the latter returns \<open>NULL\<close> for a node that is no child.\<close>

definition detach_side :: "'o rbtree \<Rightarrow> nat \<Rightarrow> side \<Rightarrow> (nat \<times> 'o rbtree) option" where
  "detach_side S this s =
     (if this = nil_addr then Some (nil_addr, S)
      else do {
        n \<leftarrow> rb_nodes S this;
        c \<leftarrow> rb_link n s;
        if c = nil_addr then Some (nil_addr, S)
        else do {
          S \<leftarrow> modify c (set_parent None) S;
          S \<leftarrow> modify this (set_link s nil_addr) S;
          Some (c, S) } })"

definition rb_detach :: "'o rbtree \<Rightarrow> nat \<Rightarrow> nat \<Rightarrow> (nat option \<times> 'o rbtree) option" where
  "rb_detach S this node = do {
     n \<leftarrow> rb_nodes S this;
     if rb_link n RIGHT = Some node then do { (c, S) \<leftarrow> detach_side S this RIGHT; Some (Some c, S) }
     else if rb_link n LEFT = Some node then do { (c, S) \<leftarrow> detach_side S this LEFT; Some (Some c, S) }
     else Some (None, S) }"

partial_function (option) searchMax :: "'o rbtree \<Rightarrow> nat \<Rightarrow> nat option" where
  "searchMax S this = do {
     n \<leftarrow> rb_nodes S this;
     c \<leftarrow> rb_link n RIGHT;
     if c \<noteq> nil_addr then searchMax S c else Some this }"

partial_function (option) searchMin :: "'o rbtree \<Rightarrow> nat \<Rightarrow> nat option" where
  "searchMin S this = do {
     n \<leftarrow> rb_nodes S this;
     c \<leftarrow> rb_link n LEFT;
     if c \<noteq> nil_addr then searchMin S c else Some this }"

text \<open>\<open>this->tree->root = r\<close>.\<close>

definition set_root :: "'o rbtree \<Rightarrow> nat \<Rightarrow> nat option \<Rightarrow> 'o rbtree option" where
  "set_root S this r = do {
     n \<leftarrow> rb_nodes S this;
     if rb_tree n then Some (S\<lparr>rb_root := r\<rparr>) else None }"

definition rotate :: "'o rbtree \<Rightarrow> nat \<Rightarrow> side \<Rightarrow> 'o rbtree option" where
  "rotate S this s = do {
     n \<leftarrow> rb_nodes S this;
     (nParent, S) \<leftarrow> detach_side S this (otherSide s);
     (nLeaf, S) \<leftarrow> detach_side S nParent s;
     S \<leftarrow> (case rb_parent n of
            Some nGrand \<Rightarrow> do {
              ps \<leftarrow> whichSide S nGrand this;
              (_, S) \<leftarrow> detach_side S nGrand ps;
              attach_side S nGrand ps nParent }
          | None \<Rightarrow> set_root S this (Some nParent));
     S \<leftarrow> attach_side S nParent s this;
     if nLeaf \<noteq> nil_addr then attach_side S this (otherSide s) nLeaf else Some S }"

section \<open>Insertion\<close>

partial_function (option) adjustInsert :: "'o rbtree \<Rightarrow> nat \<Rightarrow> 'o rbtree option" where
  "adjustInsert S this = do {
     n \<leftarrow> rb_nodes S this;
     (case rb_parent n of
        None \<Rightarrow> modify this (set_color BLACK) S
      | Some cParent \<Rightarrow> do {
          pn \<leftarrow> rb_nodes S cParent;
          if rb_color pn = RED then do {
            uncle \<leftarrow> getBrother S cParent;
            u \<leftarrow> uncle;
            ur \<leftarrow> isRed S u;
            grand \<leftarrow> rb_parent pn;
            if ur then do {
              S \<leftarrow> modify u (set_color BLACK) S;
              S \<leftarrow> modify cParent (set_color BLACK) S;
              S \<leftarrow> modify grand (set_color RED) S;
              adjustInsert S grand }
            else do {
              s1 \<leftarrow> whichSide S cParent this;
              s2 \<leftarrow> whichSide S grand cParent;
              (S, cParent) \<leftarrow>
                (if s1 \<noteq> s2 then do {
                   S \<leftarrow> rotate S cParent (otherSide s1);
                   Some (S, this) }
                 else Some (S, cParent));
              s \<leftarrow> whichSide S grand cParent;
              S \<leftarrow> rotate S grand (otherSide s);
              swapColor S grand cParent } }
          else Some S }) }"

text \<open>\<open>Node::insert\<close> walks down to a free place, links the node and rebalances.\<close>

partial_function (option) insert_at :: "'o rbtree \<Rightarrow> nat \<Rightarrow> nat \<Rightarrow> 'o rbtree option" where
  "insert_at S this node = do {
     nn \<leftarrow> rb_nodes S node;
     n \<leftarrow> rb_nodes S this;
     c \<leftarrow> rb_link n (if rb_key nn < rb_key n then LEFT else RIGHT);
     if c \<noteq> nil_addr then insert_at S c node
     else do {
       S \<leftarrow> attach_side S this (if rb_key nn < rb_key n then LEFT else RIGHT) node;
       adjustInsert S node } }"

definition rb_insert :: "'o rbtree \<Rightarrow> nat \<Rightarrow> (bool \<times> 'o rbtree) option" where
  "rb_insert S node = do {
     S \<leftarrow> modify node (set_tree True) S;
     (case rb_root S of
        Some r \<Rightarrow> do { S \<leftarrow> insert_at S r node; Some (True, S) }
      | None \<Rightarrow> do {
          S \<leftarrow> modify node (set_color BLACK) (S\<lparr>rb_root := Some node\<rparr>);
          Some (True, S) }) }"

section \<open>Removal\<close>

text \<open>\<open>n->link[LEFT]->isBlack() && n->link[RIGHT]->isBlack()\<close>, evaluated from the left.\<close>

definition childrenBlack :: "'o rbtree \<Rightarrow> nat \<Rightarrow> bool option" where
  "childrenBlack S a = do {
     n \<leftarrow> rb_nodes S a;
     l \<leftarrow> rb_link n LEFT;
     lb \<leftarrow> isBlack S l;
     if lb then do { r \<leftarrow> rb_link n RIGHT; isBlack S r } else Some False }"

text \<open>The second half of \<open>adjustLeave\<close>, from line 326 on: \<open>p\<close> is \<open>cParent\<close>, \<open>nb\<close> is \<open>cNeighbor\<close>.\<close>

definition adjustLeave_tail :: "'o rbtree \<Rightarrow> nat \<Rightarrow> nat \<Rightarrow> 'o rbtree option" where
  "adjustLeave_tail S p nb = do {
     pr \<leftarrow> isRed S p;
     c \<leftarrow> (if pr then childrenBlack S nb else Some False);
     if c then swapColor S p nb
     else do {
       ns \<leftarrow> whichSide S p nb;
       nbn \<leftarrow> rb_nodes S nb;
       l \<leftarrow> rb_link nbn (otherSide ns);
       lr \<leftarrow> isRed S l;
       inner \<leftarrow> (if lr then do { f \<leftarrow> rb_link nbn ns; isBlack S f } else Some False);
       (S, nb) \<leftarrow>
         (if inner then do {
            S \<leftarrow> swapColor S nb l;
            S \<leftarrow> rotate S nb ns;
            pn \<leftarrow> rb_nodes S p;
            nb \<leftarrow> rb_link pn ns;
            Some (S, nb) }
          else Some (S, nb));
       nbn \<leftarrow> rb_nodes S nb;
       f \<leftarrow> rb_link nbn ns;
       fr \<leftarrow> isRed S f;
       if fr then do {
         S \<leftarrow> modify f (set_color BLACK) S;
         S \<leftarrow> swapColor S p nb;
         rotate S p (otherSide ns) }
       else Some S } }"

partial_function (option) adjustLeave :: "'o rbtree \<Rightarrow> nat \<Rightarrow> nat option \<Rightarrow> 'o rbtree option" where
  "adjustLeave S this cParent =
     (case cParent of
        None \<Rightarrow> modify this (set_color BLACK) S
      | Some p \<Rightarrow> do {
          r \<leftarrow> isRed S this;
          if r then modify this (set_color BLACK) S
          else do {
            s \<leftarrow> whichSide S p this;
            pn \<leftarrow> rb_nodes S p;
            nb \<leftarrow> rb_link pn (otherSide s);
            nr \<leftarrow> isRed S nb;
            if nr then do {
              S \<leftarrow> swapColor S p nb;
              S \<leftarrow> rotate S p s;
              pn \<leftarrow> rb_nodes S p;
              nb \<leftarrow> rb_link pn (otherSide s);
              adjustLeave_tail S p nb }
            else do {
              ab \<leftarrow> (if rb_color pn = BLACK then childrenBlack S nb else Some False);
              if ab then do {
                S \<leftarrow> modify nb (set_color RED) S;
                pn \<leftarrow> rb_nodes S p;
                adjustLeave S p (rb_parent pn) }
              else adjustLeave_tail S p nb } } })"

partial_function (option) leave :: "'o rbtree \<Rightarrow> nat \<Rightarrow> 'o rbtree option" where
  "leave S this = do {
     n \<leftarrow> rb_nodes S this;
     l \<leftarrow> rb_link n LEFT;
     r \<leftarrow> rb_link n RIGHT;
     if l = nil_addr \<and> r = nil_addr then
       (case rb_parent n of
          Some p \<Rightarrow> do {
            s \<leftarrow> whichSide S p this;
            (_, S) \<leftarrow> rb_detach S p this;
            b \<leftarrow> isBlack S this;
            if b then do {
              pn \<leftarrow> rb_nodes S p;
              c \<leftarrow> rb_link pn s;
              adjustLeave S c (Some p) }
            else Some S }
        | None \<Rightarrow> set_root S this None)
     else if (l = nil_addr) \<noteq> (r = nil_addr) then do {
       (cTarget, S) \<leftarrow> detach_side S this (if l = nil_addr then RIGHT else LEFT);
       S \<leftarrow> (case rb_parent n of
              Some p \<Rightarrow> do { (_, S) \<leftarrow> rb_detach S p this; attach S p cTarget }
            | None \<Rightarrow> set_root S this (Some cTarget));
       b \<leftarrow> isBlack S this;
       if b then adjustLeave S cTarget (rb_parent n) else Some S }
     else do {
       cMax \<leftarrow> searchMax S l;
       mn \<leftarrow> rb_nodes S cMax;
       (cLeft, S) \<leftarrow> detach_side S this LEFT;
       (cRight, S) \<leftarrow> detach_side S this RIGHT;
       (mLeft, S) \<leftarrow> detach_side S cMax LEFT;
       S \<leftarrow> attach S this mLeft;
       S \<leftarrow> (case rb_parent n of
              Some p \<Rightarrow> do { (_, S) \<leftarrow> rb_detach S p this; Some S }
            | None \<Rightarrow> set_root S this None);
       S \<leftarrow> (if cMax \<noteq> cLeft then do {
              mParent \<leftarrow> rb_parent mn;
              (_, S) \<leftarrow> rb_detach S mParent cMax;
              S \<leftarrow> attach S mParent this;
              S \<leftarrow> attach_side S cMax LEFT cLeft;
              attach_side S cMax RIGHT cRight }
            else do {
              S \<leftarrow> attach_side S cMax RIGHT cRight;
              attach_side S cMax LEFT this });
       S \<leftarrow> (case rb_parent n of
              Some p \<Rightarrow> attach S p cMax
            | None \<Rightarrow> set_root S this (Some cMax));
       S \<leftarrow> swapColor S this cMax;
       leave S this } }"

definition rb_remove :: "'o rbtree \<Rightarrow> nat option \<Rightarrow> (bool \<times> 'o rbtree) option" where
  "rb_remove S node =
     (if rb_root S = None then Some (False, S)
      else (case node of
          None \<Rightarrow> Some (False, S)
        | Some a \<Rightarrow> do {
            n \<leftarrow> rb_nodes S a;
            if \<not> rb_tree n then Some (False, S)
            else do {
              S \<leftarrow> leave S a;
              S \<leftarrow> modify a (set_link LEFT nil_addr) S;
              S \<leftarrow> modify a (set_link RIGHT nil_addr) S;
              S \<leftarrow> modify a (set_tree False) S;
              Some (True, S) } }))"

section \<open>Queries\<close>

partial_function (option) lookup_at :: "'o rbtree \<Rightarrow> nat \<Rightarrow> int \<Rightarrow> nat option option" where
  "lookup_at S this k = do {
     n \<leftarrow> rb_nodes S this;
     if rb_key n = k then Some (Some this)
     else do {
       c \<leftarrow> rb_link n (if k < rb_key n then LEFT else RIGHT);
       if c = nil_addr then Some None else lookup_at S c k } }"

definition rb_lookup :: "'o rbtree \<Rightarrow> int \<Rightarrow> 'o option option" where
  "rb_lookup S k =
     (case rb_root S of
        None \<Rightarrow> Some None
      | Some r \<Rightarrow> do {
          node \<leftarrow> lookup_at S r k;
          (case node of None \<Rightarrow> Some None
           | Some a \<Rightarrow> do { n \<leftarrow> rb_nodes S a; Some (Some (rb_obj n)) }) })"

definition rb_max :: "'o rbtree \<Rightarrow> 'o option option" where
  "rb_max S =
     (case rb_root S of
        None \<Rightarrow> Some None
      | Some r \<Rightarrow> do { a \<leftarrow> searchMax S r; n \<leftarrow> rb_nodes S a; Some (Some (rb_obj n)) })"

definition rb_min :: "'o rbtree \<Rightarrow> 'o option option" where
  "rb_min S =
     (case rb_root S of
        None \<Rightarrow> Some None
      | Some r \<Rightarrow> do { a \<leftarrow> searchMin S r; n \<leftarrow> rb_nodes S a; Some (Some (rb_obj n)) })"

definition rb_empty :: "'o rbtree \<Rightarrow> bool" where
  "rb_empty S = (rb_root S = None)"

partial_function (option) count_size :: "'o rbtree \<Rightarrow> nat \<Rightarrow> nat option" where
  "count_size S this = do {
     n \<leftarrow> rb_nodes S this;
     r \<leftarrow> rb_link n RIGHT;
     sr \<leftarrow> (if r \<noteq> nil_addr then count_size S r else Some 0);
     l \<leftarrow> rb_link n LEFT;
     sl \<leftarrow> (if l \<noteq> nil_addr then count_size S l else Some 0);
     Some (1 + sr + sl) }"

definition rb_size :: "'o rbtree \<Rightarrow> nat option" where
  "rb_size S = (case rb_root S of None \<Rightarrow> Some 0 | Some r \<Rightarrow> count_size S r)"

declare searchMax.simps [code] searchMin.simps [code] adjustInsert.simps [code]
  insert_at.simps [code] adjustLeave.simps [code] leave.simps [code] lookup_at.simps [code]
  count_size.simps [code]

end
