(* ===== verification/Coslib_RBTree_Rep.thy ===== *)
theory Coslib_RBTree_Rep
  imports Coslib_RBTree
begin

text \<open>
  Representation of the pointer structure of \<open>Coslib_RBTree\<close> by trees of node addresses.
  \<open>rep h par t\<close> says that the heap \<open>h\<close> holds the tree \<open>t\<close> whose root has parent \<open>par\<close>;
  \<open>repk h k p\<close> says that it holds the surroundings \<open>k\<close> of a subtree with root pointer \<open>p\<close>,
  from the parent of the subtree up to the root. The lemmas give the effect of linking,
  unlinking, recolouring and rotating on these predicates, together with what is left alone.
\<close>

section \<open>Address trees and their surroundings\<close>

datatype ptree = Lf | Br color ptree nat ptree

fun rptr :: "ptree \<Rightarrow> nat" where
  "rptr Lf = nil_addr"
| "rptr (Br c l a r) = a"

fun addrs :: "ptree \<Rightarrow> nat list" where
  "addrs Lf = []"
| "addrs (Br c l a r) = addrs l @ a # addrs r"

text \<open>A node seen from one side: \<open>br s c u a v\<close> has \<open>u\<close> on side \<open>s\<close> and \<open>v\<close> on the other.\<close>

fun br :: "side \<Rightarrow> color \<Rightarrow> ptree \<Rightarrow> nat \<Rightarrow> ptree \<Rightarrow> ptree" where
  "br LEFT c u a v = Br c u a v"
| "br RIGHT c u a v = Br c v a u"

lemma otherSide_simps [simp]:
  "otherSide LEFT = RIGHT" "otherSide RIGHT = LEFT" "otherSide (otherSide s) = s"
  "otherSide s \<noteq> s" "s \<noteq> otherSide s"
  by (cases s; simp add: otherSide_def)+

lemma side_neq_iff: "s \<noteq> t \<longleftrightarrow> t = otherSide s"
  by (cases s; cases t) auto

lemma br_otherSide [simp]: "br (otherSide s) c u a v = br s c v a u"
  by (cases s) auto

lemma rptr_br [simp]: "rptr (br s c u a v) = a"
  by (cases s) auto

lemma br_neq_Lf [simp]: "br s c u a v \<noteq> Lf" "Lf \<noteq> br s c u a v"
  by (cases s; simp)+

lemma set_addrs_br [simp]: "set (addrs (br s c u a v)) = insert a (set (addrs u) \<union> set (addrs v))"
  by (cases s) auto

lemma distinct_addrs_br [simp]:
  "distinct (addrs (br s c u a v)) \<longleftrightarrow>
     distinct (addrs u) \<and> distinct (addrs v) \<and> a \<notin> set (addrs u) \<and> a \<notin> set (addrs v) \<and>
     set (addrs u) \<inter> set (addrs v) = {}"
  by (cases s) auto

lemma ptree_br_cases: "t = Lf \<or> (\<exists>c u a v. t = br s c u a v)"
  by (cases t; cases s) (auto intro: br.simps [symmetric])

lemma ptree_brE:
  obtains "t = Lf" | c u a v where "t = br s c u a v"
  using ptree_br_cases by blast

type_synonym ctx = "(side \<times> color \<times> nat \<times> ptree) list"

fun plug :: "ctx \<Rightarrow> ptree \<Rightarrow> ptree" where
  "plug [] t = t"
| "plug ((d, c, a, u) # k) t = plug k (br d c t a u)"

fun cpar :: "ctx \<Rightarrow> nat option" where
  "cpar [] = None"
| "cpar ((d, c, a, u) # k) = Some a"

fun kaddrs :: "ctx \<Rightarrow> nat list" where
  "kaddrs [] = []"
| "kaddrs ((d, c, a, u) # k) = a # addrs u @ kaddrs k"

lemma set_addrs_plug [simp]: "set (addrs (plug k t)) = set (addrs t) \<union> set (kaddrs k)"
  by (induction k t rule: plug.induct) auto

lemma distinct_addrs_plug [simp]:
  "distinct (addrs (plug k t)) \<longleftrightarrow>
     distinct (addrs t) \<and> distinct (kaddrs k) \<and> set (addrs t) \<inter> set (kaddrs k) = {}"
  by (induction k t rule: plug.induct) auto

lemma plug_append: "plug (k @ k') t = plug k' (plug k t)"
  by (induction k t rule: plug.induct) auto

section \<open>The heap of a tree\<close>

fun rep :: "(nat \<Rightarrow> 'o rbnode option) \<Rightarrow> nat option \<Rightarrow> ptree \<Rightarrow> bool" where
  "rep h par Lf = True"
| "rep h par (Br c l a r) =
     (case h a of None \<Rightarrow> False
      | Some n \<Rightarrow> a \<noteq> nil_addr \<and> rb_color n = c \<and> rb_parent n = par \<and>
          rb_link n LEFT = Some (rptr l) \<and> rb_link n RIGHT = Some (rptr r) \<and>
          rep h (Some a) l \<and> rep h (Some a) r)"

lemma rep_br:
  "rep h par (br s c u a v) \<longleftrightarrow>
     (\<exists>n. h a = Some n \<and> a \<noteq> nil_addr \<and> rb_color n = c \<and> rb_parent n = par \<and>
        rb_link n s = Some (rptr u) \<and> rb_link n (otherSide s) = Some (rptr v) \<and>
        rep h (Some a) u \<and> rep h (Some a) v)"
  by (cases s) (auto split: option.splits)

fun repk :: "(nat \<Rightarrow> 'o rbnode option) \<Rightarrow> ctx \<Rightarrow> nat \<Rightarrow> bool" where
  "repk h [] p = True"
| "repk h ((d, c, a, u) # k) p =
     (case h a of None \<Rightarrow> False
      | Some n \<Rightarrow> a \<noteq> nil_addr \<and> rb_color n = c \<and> rb_parent n = cpar k \<and>
          rb_link n d = Some p \<and> rb_link n (otherSide d) = Some (rptr u) \<and>
          rep h (Some a) u \<and> repk h k a)"

lemma rep_plug: "rep h None (plug k t) \<longleftrightarrow> rep h (cpar k) t \<and> repk h k (rptr t)"
  by (induction k t rule: plug.induct) (auto simp: rep_br split: option.splits)

lemma rep_cong:
  "(\<And>a. a \<in> set (addrs t) \<Longrightarrow> h' a = h a) \<Longrightarrow> rep h' par t = rep h par t"
  by (induction t arbitrary: par) (auto split: option.splits)

lemma repk_cong:
  "(\<And>a. a \<in> set (kaddrs k) \<Longrightarrow> h' a = h a) \<Longrightarrow> repk h' k p = repk h k p"
proof (induction k arbitrary: p)
  case Nil
  then show ?case by simp
next
  case (Cons f k)
  obtain d c a u where f: "f = (d, c, a, u)" by (cases f) auto
  have "rep h' (Some a) u = rep h (Some a) u" by (rule rep_cong) (simp add: Cons.prems f)
  moreover have "repk h' k a = repk h k a" by (rule Cons.IH) (simp add: Cons.prems f)
  moreover have "h' a = h a" by (simp add: Cons.prems f)
  ultimately show ?case by (simp add: f split: option.split)
qed

lemma rep_upd_other [simp]: "a \<notin> set (addrs t) \<Longrightarrow> rep (h(a := v)) par t = rep h par t"
  by (rule rep_cong) auto

lemma repk_upd_other [simp]: "a \<notin> set (kaddrs k) \<Longrightarrow> repk (h(a := v)) k p = repk h k p"
  by (rule repk_cong) auto

lemma rep_not_nil: "rep h par t \<Longrightarrow> nil_addr \<notin> set (addrs t)"
  by (induction t arbitrary: par) (auto split: option.splits)

lemma repk_not_nil: "repk h k p \<Longrightarrow> nil_addr \<notin> set (kaddrs k)"
  by (induction h k p rule: repk.induct) (auto dest: rep_not_nil split: option.splits)

lemma rep_rptr_nil: "rep h par t \<Longrightarrow> rptr t = nil_addr \<longleftrightarrow> t = Lf"
  by (cases t) (auto split: option.splits)

lemma rptr_in_addrs: "t \<noteq> Lf \<Longrightarrow> rptr t \<in> set (addrs t)"
  by (cases t) auto

text \<open>Giving the root of a tree a new parent.\<close>

lemma rep_reparent:
  assumes "rep h q t" "t \<noteq> Lf" "distinct (addrs t)"
  shows "\<exists>n. h (rptr t) = Some n \<and> rb_parent n = q \<and>
     rep (h(rptr t \<mapsto> set_parent q' n)) q' t"
  using assms by (cases t) (auto split: option.splits)

section \<open>What an operation leaves alone\<close>

definition info :: "'o rbnode \<Rightarrow> 'o \<times> int \<times> bool" where
  "info n = (rb_obj n, rb_key n, rb_tree n)"

text \<open>\<open>chg S S' X\<close>: only nodes in \<open>X\<close> other than \<open>nil\<close> were written, and only their colour
  and links.\<close>

definition chg :: "'o rbtree \<Rightarrow> 'o rbtree \<Rightarrow> nat set \<Rightarrow> bool" where
  "chg S S' X \<longleftrightarrow>
     (\<forall>a. a \<notin> X \<or> a = nil_addr \<longrightarrow> rb_nodes S' a = rb_nodes S a) \<and>
     (\<forall>a. map_option info (rb_nodes S' a) = map_option info (rb_nodes S a))"

lemma chg_refl [simp]: "chg S S X"
  by (simp add: chg_def)

lemma chg_trans: "chg S S' X \<Longrightarrow> chg S' S'' Y \<Longrightarrow> chg S S'' (X \<union> Y)"
  by (simp add: chg_def)

lemma chg_mono: "chg S S' X \<Longrightarrow> X \<subseteq> Y \<Longrightarrow> chg S S' Y"
  by (auto simp: chg_def)

lemma chg_trans': "chg S S' X \<Longrightarrow> chg S' S'' Y \<Longrightarrow> X \<subseteq> Z \<Longrightarrow> Y \<subseteq> Z \<Longrightarrow> chg S S'' Z"
  by (rule chg_mono [OF chg_trans [of S S' X S'' Y]]) auto

lemma chg_root [simp]: "chg S (S'\<lparr>rb_root := r\<rparr>) X = chg S S' X"
  by (simp add: chg_def)

lemma chg_rep:
  "chg S S' X \<Longrightarrow> rep (rb_nodes S) par t \<Longrightarrow> X \<inter> set (addrs t) = {} \<Longrightarrow> rep (rb_nodes S') par t"
  using rep_cong [of t "rb_nodes S'" "rb_nodes S" par] by (auto simp: chg_def)

lemma chg_repk:
  "chg S S' X \<Longrightarrow> repk (rb_nodes S) k p \<Longrightarrow> X \<inter> set (kaddrs k) = {} \<Longrightarrow> repk (rb_nodes S') k p"
  using repk_cong [of k "rb_nodes S'" "rb_nodes S" p] by (auto simp: chg_def)

lemma chg_lookup:
  "chg S S' X \<Longrightarrow> rb_nodes S a = Some n \<Longrightarrow>
     \<exists>n'. rb_nodes S' a = Some n' \<and> rb_key n' = rb_key n \<and> rb_obj n' = rb_obj n \<and>
       rb_tree n' = rb_tree n \<and> (a \<notin> X \<longrightarrow> n' = n)"
proof -
  assume c: "chg S S' X" and n: "rb_nodes S a = Some n"
  then have "map_option info (rb_nodes S' a) = Some (info n)" by (simp add: chg_def)
  then obtain n' where "rb_nodes S' a = Some n'" "info n' = info n" by auto
  with c n show ?thesis by (auto simp: info_def chg_def)
qed

lemma modify_Some: "rb_nodes S a = Some n \<Longrightarrow>
    modify a f S = Some (S\<lparr>rb_nodes := (rb_nodes S)(a \<mapsto> f n)\<rparr>)"
  by (simp add: modify_def)

lemma chg_modify:
  "rb_nodes S a = Some n \<Longrightarrow> info (f n) = info n \<Longrightarrow> a \<in> X \<Longrightarrow> a \<noteq> nil_addr \<Longrightarrow>
     chg S (S\<lparr>rb_nodes := (rb_nodes S)(a \<mapsto> f n)\<rparr>) X"
  by (auto simp: chg_def)

section \<open>Linking and unlinking\<close>

lemma detach_side_rep:
  assumes "rep (rb_nodes S) par (br s c u a v)" "distinct (addrs (br s c u a v))"
  shows "\<exists>S'. detach_side S a s = Some (rptr u, S') \<and> rep (rb_nodes S') par (br s c Lf a v) \<and>
    rep (rb_nodes S') None u \<and> chg S S' {a, rptr u} \<and> rb_root S' = rb_root S"
proof (cases "u = Lf")
  case True
  with assms show ?thesis by (auto simp: detach_side_def rep_br)
next
  case False
  from assms(1) obtain n where n: "rb_nodes S a = Some n" "a \<noteq> nil_addr" "rb_color n = c"
    "rb_parent n = par" "rb_link n s = Some (rptr u)" "rb_link n (otherSide s) = Some (rptr v)"
    "rep (rb_nodes S) (Some a) u" "rep (rb_nodes S) (Some a) v"
    by (auto simp: rep_br)
  from rep_reparent [OF n(7) False, of None] assms(2) obtain m where m: "rb_nodes S (rptr u) = Some m"
    "rep ((rb_nodes S)(rptr u \<mapsto> set_parent None m)) None u" by auto
  have ne: "rptr u \<noteq> a" "rptr u \<notin> set (addrs v)" "rptr u \<noteq> nil_addr"
    using rptr_in_addrs [OF False] assms(2) rep_rptr_nil [OF n(7)] False by auto
  let ?h = "(rb_nodes S)(rptr u \<mapsto> set_parent None m, a \<mapsto> set_link s nil_addr n)"
  have "detach_side S a s = Some (rptr u, S\<lparr>rb_nodes := ?h\<rparr>)"
    using n m ne by (simp add: detach_side_def modify_Some fun_upd_twist)
  moreover have "rep ?h par (br s c Lf a v)" using n ne assms(2) by (simp add: rep_br)
  moreover have "rep ?h None u" using m assms(2) by simp
  moreover have "chg S (S\<lparr>rb_nodes := ?h\<rparr>) {a, rptr u}"
    using n m ne by (auto simp: chg_def info_def)
  ultimately show ?thesis by (intro exI [of _ "S\<lparr>rb_nodes := ?h\<rparr>"]) simp
qed

lemma attach_side_rep:
  assumes "rep (rb_nodes S) par (br s c w a v)" "rep (rb_nodes S) q u"
    "distinct (addrs (br s c u a v))"
  shows "\<exists>S'. attach_side S a s (rptr u) = Some S' \<and> rep (rb_nodes S') par (br s c u a v) \<and>
    chg S S' {a, rptr u} \<and> rb_root S' = rb_root S"
proof (cases "u = Lf")
  case True
  with assms obtain n where "rb_nodes S a = Some n" "a \<noteq> nil_addr" "rb_color n = c"
    "rb_parent n = par" "rb_link n (otherSide s) = Some (rptr v)" "rep (rb_nodes S) (Some a) v"
    by (auto simp: rep_br)
  with True assms(3) show ?thesis
    by (auto simp: attach_side_def rep_br modify_Some chg_def info_def)
next
  case False
  from assms(1) obtain n where n: "rb_nodes S a = Some n" "a \<noteq> nil_addr" "rb_color n = c"
    "rb_parent n = par" "rb_link n (otherSide s) = Some (rptr v)" "rep (rb_nodes S) (Some a) v"
    by (auto simp: rep_br)
  from rep_reparent [OF assms(2) False, of "Some a"] assms(3) obtain m where
    m: "rb_nodes S (rptr u) = Some m"
       "rep ((rb_nodes S)(rptr u \<mapsto> set_parent (Some a) m)) (Some a) u" by auto
  have ne: "rptr u \<noteq> a" "rptr u \<notin> set (addrs v)" "rptr u \<noteq> nil_addr"
    using rptr_in_addrs [OF False] assms(3) rep_rptr_nil [OF assms(2)] False by auto
  let ?h = "(rb_nodes S)(rptr u \<mapsto> set_parent (Some a) m, a \<mapsto> set_link s (rptr u) n)"
  have eq: "attach_side S a s (rptr u) = Some (S\<lparr>rb_nodes := ?h\<rparr>)"
    using n m ne by (simp add: attach_side_def modify_Some fun_upd_twist)
  have "rep ?h (Some a) u" using m(2) assms(3) by simp
  moreover have "rep ?h (Some a) v" using n ne assms(3) by simp
  ultimately have "rep ?h par (br s c u a v)" using n ne by (simp add: rep_br)
  moreover have "chg S (S\<lparr>rb_nodes := ?h\<rparr>) {a, rptr u}"
    using n m ne by (auto simp: chg_def info_def)
  ultimately show ?thesis using eq by simp
qed

lemma kdetach_rep:
  assumes "repk (rb_nodes S) ((d, c, a, u) # k) (rptr t)" "rep (rb_nodes S) q t"
    "distinct (addrs t)" "set (addrs t) \<inter> set (kaddrs ((d, c, a, u) # k)) = {}"
    "distinct (kaddrs ((d, c, a, u) # k))"
  shows "\<exists>S'. detach_side S a d = Some (rptr t, S') \<and>
    repk (rb_nodes S') ((d, c, a, u) # k) nil_addr \<and> rep (rb_nodes S') (if t = Lf then q else None) t \<and>
    chg S S' {a, rptr t} \<and> rb_root S' = rb_root S"
proof (cases "t = Lf")
  case True
  with assms show ?thesis by (auto simp: detach_side_def split: option.splits)
next
  case False
  from assms(1) obtain n where n: "rb_nodes S a = Some n" "a \<noteq> nil_addr" "rb_color n = c"
    "rb_parent n = cpar k" "rb_link n d = Some (rptr t)" "rb_link n (otherSide d) = Some (rptr u)"
    "rep (rb_nodes S) (Some a) u" "repk (rb_nodes S) k a"
    by (auto split: option.splits)
  from rep_reparent [OF assms(2) False assms(3)] obtain m where m: "rb_nodes S (rptr t) = Some m"
    "rep ((rb_nodes S)(rptr t \<mapsto> set_parent None m)) None t" by auto
  have ne: "rptr t \<noteq> a" "rptr t \<notin> set (addrs u)" "rptr t \<notin> set (kaddrs k)" "rptr t \<noteq> nil_addr"
    "a \<notin> set (addrs t)"
    using rptr_in_addrs [OF False] assms(4) rep_rptr_nil [OF assms(2)] False by auto
  let ?h = "(rb_nodes S)(rptr t \<mapsto> set_parent None m, a \<mapsto> set_link d nil_addr n)"
  have "detach_side S a d = Some (rptr t, S\<lparr>rb_nodes := ?h\<rparr>)"
    using n m ne by (simp add: detach_side_def modify_Some fun_upd_twist)
  moreover have "repk ?h ((d, c, a, u) # k) nil_addr" using n ne assms(5) by simp
  moreover have "rep ?h None t" using m ne by simp
  moreover have "chg S (S\<lparr>rb_nodes := ?h\<rparr>) {a, rptr t}"
    using n m ne by (auto simp: chg_def info_def)
  ultimately show ?thesis using False by (intro exI [of _ "S\<lparr>rb_nodes := ?h\<rparr>"]) simp
qed

lemma kattach_rep:
  assumes "repk (rb_nodes S) ((d, c, a, u) # k) p" "rep (rb_nodes S) q t"
    "distinct (addrs t)" "set (addrs t) \<inter> set (kaddrs ((d, c, a, u) # k)) = {}"
    "distinct (kaddrs ((d, c, a, u) # k))"
  shows "\<exists>S'. attach_side S a d (rptr t) = Some S' \<and>
    repk (rb_nodes S') ((d, c, a, u) # k) (rptr t) \<and> rep (rb_nodes S') (Some a) t \<and>
    chg S S' {a, rptr t} \<and> rb_root S' = rb_root S"
proof (cases "t = Lf")
  case True
  with assms obtain n where "rb_nodes S a = Some n" "a \<noteq> nil_addr" "rb_color n = c"
    "rb_parent n = cpar k" "rb_link n (otherSide d) = Some (rptr u)"
    "rep (rb_nodes S) (Some a) u" "repk (rb_nodes S) k a"
    by (auto split: option.splits)
  with True assms(5) show ?thesis
    by (auto simp: attach_side_def modify_Some chg_def info_def)
next
  case False
  from assms(1) obtain n where n: "rb_nodes S a = Some n" "a \<noteq> nil_addr" "rb_color n = c"
    "rb_parent n = cpar k" "rb_link n (otherSide d) = Some (rptr u)"
    "rep (rb_nodes S) (Some a) u" "repk (rb_nodes S) k a"
    by (auto split: option.splits)
  from rep_reparent [OF assms(2) False assms(3)] obtain m where m: "rb_nodes S (rptr t) = Some m"
    "rep ((rb_nodes S)(rptr t \<mapsto> set_parent (Some a) m)) (Some a) t" by auto
  have ne: "rptr t \<noteq> a" "rptr t \<notin> set (addrs u)" "rptr t \<notin> set (kaddrs k)" "rptr t \<noteq> nil_addr"
    "a \<notin> set (addrs t)"
    using rptr_in_addrs [OF False] assms(4) rep_rptr_nil [OF assms(2)] False by auto
  let ?h = "(rb_nodes S)(rptr t \<mapsto> set_parent (Some a) m, a \<mapsto> set_link d (rptr t) n)"
  have "attach_side S a d (rptr t) = Some (S\<lparr>rb_nodes := ?h\<rparr>)"
    using n m ne by (simp add: attach_side_def modify_Some fun_upd_twist)
  moreover have "repk ?h ((d, c, a, u) # k) (rptr t)" using n ne assms(5) by simp
  moreover have "rep ?h (Some a) t" using m ne by simp
  moreover have "chg S (S\<lparr>rb_nodes := ?h\<rparr>) {a, rptr t}"
    using n m ne by (auto simp: chg_def info_def)
  ultimately show ?thesis by (intro exI [of _ "S\<lparr>rb_nodes := ?h\<rparr>"]) simp
qed

lemma whichSide_repk:
  assumes "repk (rb_nodes S) ((d, c, a, u) # k) p" "p = rptr u \<Longrightarrow> False"
  shows "whichSide S a p = Some d"
  using assms by (cases d) (auto simp: whichSide_def split: option.splits)

section \<open>Rotation\<close>

definition root_ptr :: "ptree \<Rightarrow> nat option" where
  "root_ptr t = (if t = Lf then None else Some (rptr t))"

text \<open>The whole tree, seen from the subtree \<open>t\<close> with surroundings \<open>k\<close>.\<close>

definition tree_at :: "'o rbtree \<Rightarrow> ctx \<Rightarrow> ptree \<Rightarrow> bool" where
  "tree_at S k t \<longleftrightarrow>
     rep (rb_nodes S) (cpar k) t \<and> repk (rb_nodes S) k (rptr t) \<and> distinct (addrs (plug k t)) \<and>
     rb_root S = root_ptr (plug k t)"

definition flagged :: "'o rbtree \<Rightarrow> nat set \<Rightarrow> bool" where
  "flagged S A \<longleftrightarrow> (\<forall>a\<in>A. \<exists>n. rb_nodes S a = Some n \<and> rb_tree n)"

lemma plug_neq_Lf [simp]: "t \<noteq> Lf \<Longrightarrow> plug k t \<noteq> Lf" "plug (f # k) t \<noteq> Lf"
proof -
  show 1: "t \<noteq> Lf \<Longrightarrow> plug k t \<noteq> Lf" for k t by (induction k t rule: plug.induct) auto
  show "plug (f # k) t \<noteq> Lf" by (cases f) (simp add: 1)
qed

lemma rptr_plug: "rptr t = rptr t' \<Longrightarrow> rptr (plug k t) = rptr (plug k t')"
proof (induction k arbitrary: t t')
  case (Cons f k)
  show ?case by (cases f) (simp, rule Cons.IH, simp)
qed simp

lemma root_ptr_Cons: "root_ptr (plug (f # k) t) = root_ptr (plug (f # k) t')"
proof -
  have "rptr (plug (f # k) t) = rptr (plug (f # k) t')"
    by (cases f) (simp, rule rptr_plug, simp)
  then show ?thesis by (simp add: root_ptr_def)
qed

lemma tree_at_iff: "tree_at S k t \<longleftrightarrow> tree_at S [] (plug k t)"
  by (simp add: tree_at_def rep_plug)

lemma tree_at_up: "tree_at S ((d, c, a, u) # k) t \<longleftrightarrow> tree_at S k (br d c t a u)"
  by (simp add: tree_at_iff [of S "(d, c, a, u) # k"] tree_at_iff [of S k])

lemma chg_flagged: "chg S S' X \<Longrightarrow> flagged S A \<Longrightarrow> flagged S' A"
  unfolding flagged_def by (meson chg_lookup)

lemma rotate_rep:
  assumes t: "tree_at S k (br s c A x (br s d B y C))" and fl: "flagged S {x}"
  shows "\<exists>S'. rotate S x s = Some S' \<and> tree_at S' k (br s d (br s c A x B) y C) \<and>
    chg S S' ({x, y, rptr B} \<union> set_option (cpar k))"
proof -
  let ?Y = "br s d B y C"
  from t have r0: "rep (rb_nodes S) (cpar k) (br (otherSide s) c ?Y x A)" "repk (rb_nodes S) k x"
    and dis: "distinct (addrs (plug k (br s c A x (br s d B y C))))"
    by (auto simp: tree_at_def)
  obtain n where n: "rb_nodes S x = Some n" "rb_parent n = cpar k" "x \<noteq> nil_addr"
    using r0(1) by (auto simp: rep_br)
  obtain S1 where S1: "detach_side S x (otherSide s) = Some (y, S1)"
    "rep (rb_nodes S1) (cpar k) (br s c A x Lf)" "rep (rb_nodes S1) None ?Y"
    "chg S S1 {x, y}" "rb_root S1 = rb_root S"
    using detach_side_rep [OF r0(1)] dis by auto
  obtain S2 where S2: "detach_side S1 y s = Some (rptr B, S2)"
    "rep (rb_nodes S2) None (br s d Lf y C)" "rep (rb_nodes S2) None B"
    "chg S1 S2 {y, rptr B}" "rb_root S2 = rb_root S"
    using detach_side_rep [OF S1(3)] dis S1(5) by auto
  have B: "rptr B \<in> insert nil_addr (set (addrs B))" by (cases B) auto
  have nn: "nil_addr \<notin> set (addrs (plug k (br s c A x (br s d B y C))))"
    using rep_not_nil [OF r0(1)] repk_not_nil [OF r0(2)] by simp
  have x2: "rep (rb_nodes S2) (cpar k) (br s c A x Lf)"
    by (rule chg_rep [OF S2(4) S1(2)]) (use B dis nn in auto)
  have k2: "repk (rb_nodes S2) k x"
    by (rule chg_repk [OF S2(4) chg_repk [OF S1(4) r0(2)]]) (use B dis nn in auto)
  define S3P where "S3P = (case cpar k of
            Some nGrand \<Rightarrow> do {
              ps \<leftarrow> whichSide S2 nGrand x;
              (_, S) \<leftarrow> detach_side S2 nGrand ps;
              attach_side S nGrand ps y }
          | None \<Rightarrow> set_root S2 x (Some y))"
  have "\<exists>S3 q. S3P = Some S3 \<and> rep (rb_nodes S3) q (br s c A x Lf) \<and>
      rep (rb_nodes S3) (cpar k) (br s d Lf y C) \<and> rep (rb_nodes S3) None B \<and>
      repk (rb_nodes S3) k y \<and> chg S2 S3 ({x, y} \<union> set_option (cpar k)) \<and>
      rb_root S3 = root_ptr (plug k (br s d (br s c A x B) y C))"
  proof (cases k)
    case Nil
    have "chg S S2 ({x, y} \<union> {y, rptr B})" by (rule chg_trans [OF S1(4) S2(4)])
    from chg_flagged [OF this fl] have "flagged S2 {x}" .
    then have "S3P = Some (S2\<lparr>rb_root := Some y\<rparr>)"
      by (auto simp: S3P_def Nil set_root_def flagged_def)
    with S2 x2 show ?thesis by (auto simp: Nil root_ptr_def)
  next
    case (Cons f k')
    obtain g cg u ds where f: "f = (ds, cg, g, u)" by (cases f) auto
    have un: "rptr u \<in> insert nil_addr (set (addrs u))" by (cases u) auto
    have ws: "whichSide S2 g x = Some ds"
      by (rule whichSide_repk) (use k2 Cons f un dis n in auto)
    obtain S3 where S3: "detach_side S2 g ds = Some (x, S3)" "repk (rb_nodes S3) k nil_addr"
      "rep (rb_nodes S3) None (br s c A x Lf)" "chg S2 S3 {g, x}" "rb_root S3 = rb_root S2"
      using kdetach_rep [of S2 ds cg g u k' "br s c A x Lf" "cpar k"] k2 x2 dis
      unfolding Cons f by (simp del: repk.simps) blast
    have Y3: "rep (rb_nodes S3) None (br s d Lf y C)"
      by (rule chg_rep [OF S3(4) S2(2)]) (use dis Cons f in auto)
    obtain S4 where S4: "attach_side S3 g ds y = Some S4" "repk (rb_nodes S4) k y"
      "rep (rb_nodes S4) (Some g) (br s d Lf y C)" "chg S3 S4 {g, y}" "rb_root S4 = rb_root S3"
      using kattach_rep [OF S3(2) [unfolded Cons f] Y3] dis
      unfolding Cons f by (simp del: repk.simps) blast
    have "rep (rb_nodes S4) None (br s c A x Lf)"
      by (rule chg_rep [OF S4(4) S3(3)]) (use dis Cons f in auto)
    moreover have "rep (rb_nodes S4) None B"
      by (rule chg_rep [OF S4(4) chg_rep [OF S3(4) S2(3)]]) (use dis Cons f in auto)
    moreover have "chg S2 S4 ({x, y} \<union> set_option (cpar k))"
      by (rule chg_trans' [OF S3(4) S4(4)]) (auto simp: Cons f)
    moreover have "rb_root S4 = root_ptr (plug k (br s d (br s c A x B) y C))"
      using S3(5) S4(5) S2(5) t unfolding tree_at_def Cons by (metis root_ptr_Cons)
    moreover have "S3P = Some S4" using ws S3(1) S4(1) by (simp add: S3P_def Cons f)
    ultimately show ?thesis using S4(2,3) by (auto simp: Cons f)
  qed
  then obtain S3 q where S3: "S3P = Some S3" "rep (rb_nodes S3) q (br s c A x Lf)"
      "rep (rb_nodes S3) (cpar k) (br s d Lf y C)" "rep (rb_nodes S3) None B"
      "repk (rb_nodes S3) k y" "chg S2 S3 ({x, y} \<union> set_option (cpar k))"
      "rb_root S3 = root_ptr (plug k (br s d (br s c A x B) y C))" by blast
  obtain S4 where S4: "attach_side S3 y s x = Some S4"
      "rep (rb_nodes S4) (cpar k) (br s d (br s c A x Lf) y C)" "chg S3 S4 {y, x}"
      "rb_root S4 = rb_root S3"
    using attach_side_rep [OF S3(3,2)] dis by auto
  have B4: "rep (rb_nodes S4) None B"
    by (rule chg_rep [OF S4(3) S3(4)]) (use dis in auto)
  have k4: "repk (rb_nodes S4) k y"
    by (rule chg_repk [OF S4(3) S3(5)]) (use dis in auto)
  obtain n4 where n4: "rb_nodes S4 y = Some n4" "y \<noteq> nil_addr" "rb_color n4 = d" "rb_parent n4 = cpar k"
    "rb_link n4 s = Some x" "rb_link n4 (otherSide s) = Some (rptr C)" "rep (rb_nodes S4) (Some y) C"
    "rep (rb_nodes S4) (Some y) (br (otherSide s) c Lf x A)"
    using S4(2) by (auto simp: rep_br)
  obtain S5 where S5: "(if rptr B \<noteq> nil_addr then attach_side S4 x (otherSide s) (rptr B) else Some S4) = Some S5"
      "rep (rb_nodes S5) (Some y) (br s c A x B)" "chg S4 S5 {x, rptr B}" "rb_root S5 = rb_root S4"
  proof (cases "B = Lf")
    case True
    with n4 that [of S4] show ?thesis by simp
  next
    case False
    then have "rptr B \<noteq> nil_addr" using B4 rep_rptr_nil by blast
    with attach_side_rep [OF n4(8) B4] dis that show ?thesis by auto
  qed
  have "rb_nodes S5 y = Some n4" using S5(3) n4(1) B dis nn by (auto simp: chg_def)
  moreover have "rep (rb_nodes S5) (Some y) C"
    by (rule chg_rep [OF S5(3) n4(7)]) (use B dis nn in auto)
  ultimately have Y5: "rep (rb_nodes S5) (cpar k) (br s d (br s c A x B) y C)"
    using n4 S5(2) by (simp add: rep_br)
  have k5: "repk (rb_nodes S5) k y"
    by (rule chg_repk [OF S5(3) k4]) (use B dis nn in auto)
  have "tree_at S5 k (br s d (br s c A x B) y C)"
    using Y5 k5 dis S5(4) S4(4) S3(7) by (auto simp: tree_at_def)
  moreover have "chg S S5 ({x, y, rptr B} \<union> set_option (cpar k))"
    by (rule chg_trans' [OF chg_trans [OF chg_trans [OF S1(4) S2(4)] S3(6)]
          chg_trans [OF S4(3) S5(3)]]) auto
  moreover have "rotate S x s = Some S5"
    unfolding rotate_def using n S1(1) S2(1) S3(1) [unfolded S3P_def] S4(1) S5(1) by simp
  ultimately show ?thesis by blast
qed

section \<open>A tree in good order\<close>

definition nil_ok :: "'o rbtree \<Rightarrow> bool" where
  "nil_ok S \<longleftrightarrow> (\<exists>n. rb_nodes S nil_addr = Some n \<and> rb_color n = BLACK)"

text \<open>\<open>good S k t\<close>: the state holds the tree \<open>plug k t\<close>, all of whose nodes name it in \<open>tree\<close>,
  and the shared leaf is there and black.\<close>

definition good :: "'o rbtree \<Rightarrow> ctx \<Rightarrow> ptree \<Rightarrow> bool" where
  "good S k t \<longleftrightarrow> tree_at S k t \<and> flagged S (set (addrs (plug k t))) \<and> nil_ok S"

fun col :: "ptree \<Rightarrow> color" where
  "col Lf = BLACK"
| "col (Br c l a r) = c"

fun paint :: "color \<Rightarrow> ptree \<Rightarrow> ptree" where
  "paint c Lf = Lf"
| "paint c (Br d l a r) = Br c l a r"

fun sub :: "side \<Rightarrow> ptree \<Rightarrow> ptree" where
  "sub s Lf = Lf"
| "sub LEFT (Br c l a r) = l"
| "sub RIGHT (Br c l a r) = r"

lemma col_br [simp]: "col (br s c u a v) = c"
  by (cases s) auto

lemma paint_br [simp]: "paint c (br s d u a v) = br s c u a v"
  by (cases s) auto

lemma sub_br [simp]: "sub s (br s c u a v) = u" "sub (otherSide s) (br s c u a v) = v"
  by (cases s; simp)+

lemma addrs_paint [simp]: "addrs (paint c t) = addrs t"
  by (cases t) auto

lemma rptr_paint [simp]: "rptr (paint c t) = rptr t"
  by (cases t) auto

lemma paint_Lf_iff [simp]: "paint c t = Lf \<longleftrightarrow> t = Lf"
  by (cases t) auto

lemma br_sub: "t \<noteq> Lf \<Longrightarrow> br s (col t) (sub s t) (rptr t) (sub (otherSide s) t) = t"
  by (cases t; cases s) auto

lemma good_up: "good S ((d, c, a, u) # k) t \<longleftrightarrow> good S k (br d c t a u)"
  by (simp add: good_def tree_at_up)

lemma good_other: "good S ((d, c, a, u) # k) t \<longleftrightarrow> good S ((otherSide d, c, a, t) # k) u"
  by (simp add: good_up)

lemma good_iff: "good S k t \<longleftrightarrow> good S [] (plug k t)"
  by (simp add: good_def tree_at_iff [of S k])

lemma good_distinct: "good S k t \<Longrightarrow> distinct (addrs (plug k t))"
  by (simp add: good_def tree_at_def)

lemma good_not_nil: "good S k t \<Longrightarrow> nil_addr \<notin> set (addrs (plug k t))"
  by (auto simp: good_def tree_at_def dest: rep_not_nil repk_not_nil)

lemma good_node:
  assumes "good S k (br s c u a v)"
  shows "\<exists>n. rb_nodes S a = Some n \<and> a \<noteq> nil_addr \<and> rb_color n = c \<and> rb_parent n = cpar k \<and>
    rb_link n s = Some (rptr u) \<and> rb_link n (otherSide s) = Some (rptr v) \<and> rb_tree n"
  using assms by (auto simp: good_def tree_at_def rep_br flagged_def)

lemma good_frame_node:
  assumes "good S ((d, c, a, u) # k) t"
  shows "\<exists>n. rb_nodes S a = Some n \<and> a \<noteq> nil_addr \<and> rb_color n = c \<and> rb_parent n = cpar k \<and>
    rb_link n d = Some (rptr t) \<and> rb_link n (otherSide d) = Some (rptr u) \<and> rb_tree n"
  using good_node assms by (simp add: good_up)

lemma good_color:
  assumes "good S k t"
  shows "\<exists>n. rb_nodes S (rptr t) = Some n \<and> rb_color n = col t"
proof (cases t)
  case Lf
  with assms show ?thesis by (auto simp: good_def nil_ok_def)
next
  case (Br c l a r)
  with assms good_node [of S k LEFT c l a r] show ?thesis by auto
qed

lemma isRed_good: "good S k t \<Longrightarrow> isRed S (rptr t) = Some (col t = RED)"
  using good_color by (fastforce simp: isRed_def)

lemma isBlack_good: "good S k t \<Longrightarrow> isBlack S (rptr t) = Some (col t = BLACK)"
  using good_color by (fastforce simp: isBlack_def)

lemma good_rptr_neq:
  assumes "good S ((d, c, a, u) # k) t" "t \<noteq> Lf \<or> u \<noteq> Lf"
  shows "rptr t \<noteq> rptr u"
proof -
  have "rptr t \<in> insert nil_addr (set (addrs t))" "rptr u \<in> insert nil_addr (set (addrs u))"
    by (cases t; simp) (cases u; simp)
  moreover have "t \<noteq> Lf \<Longrightarrow> rptr t \<in> set (addrs t)" "u \<noteq> Lf \<Longrightarrow> rptr u \<in> set (addrs u)"
    by (rule rptr_in_addrs; simp)+
  ultimately show ?thesis
    using good_distinct [OF assms(1)] good_not_nil [OF assms(1)] assms(2) by auto
qed

lemma whichSide_good:
  "good S ((d, c, a, u) # k) t \<Longrightarrow> t \<noteq> Lf \<or> u \<noteq> Lf \<Longrightarrow> whichSide S a (rptr t) = Some d"
  using whichSide_repk [of S d c a u k "rptr t"] good_rptr_neq [of S d c a u k t]
  by (auto simp: good_def tree_at_def simp del: repk.simps)

lemma getBrother_good:
  assumes "good S ((d, c, a, u) # k) t" "t \<noteq> Lf"
  shows "getBrother S (rptr t) = Some (Some (rptr u))"
proof -
  obtain n where n: "rb_nodes S (rptr t) = Some n" "rb_parent n = Some a"
  proof (cases t)
    case (Br c' l b r)
    with assms(1) good_node [of S "(d, c, a, u) # k" LEFT c' l b r] that show ?thesis by auto
  qed (use assms(2) in simp)
  obtain m where "rb_nodes S a = Some m" "rb_link m d = Some (rptr t)"
    "rb_link m (otherSide d) = Some (rptr u)"
    using good_frame_node [OF assms(1)] by auto
  then show ?thesis
    using n good_rptr_neq [OF assms(1)] assms(2) by (cases d) (auto simp: getBrother_def)
qed

lemma good_chg:
  assumes "good S k t" "tree_at S' k t'" "set (addrs t') = set (addrs t)"
    "chg S S' X"
  shows "good S' k t'"
proof -
  have "flagged S' (set (addrs (plug k t')))"
    using chg_flagged [OF assms(4)] assms(1,3) by (simp add: good_def)
  moreover have "nil_ok S'" using assms(1,4) by (auto simp: good_def nil_ok_def chg_def)
  ultimately show ?thesis using assms(2) by (simp add: good_def)
qed

lemma recolor_good:
  assumes "good S k t" "t \<noteq> Lf"
  shows "\<exists>S'. modify (rptr t) (set_color c) S = Some S' \<and> good S' k (paint c t) \<and>
    chg S S' {rptr t} \<and> rb_root S' = rb_root S"
proof -
  obtain c0 u a v where t: "t = br LEFT c0 u a v" using assms(2) by (cases t) auto
  obtain n where n: "rb_nodes S a = Some n" "a \<noteq> nil_addr" using good_node assms(1) t by blast
  let ?S = "S\<lparr>rb_nodes := (rb_nodes S)(a \<mapsto> set_color c n)\<rparr>"
  have "modify (rptr t) (set_color c) S = Some ?S" using n t by (simp add: modify_Some)
  moreover have c: "chg S ?S {rptr t}" using n t by (auto simp: chg_def info_def)
  moreover have "good ?S k (paint c t)"
  proof (rule good_chg [OF assms(1) _ _ c])
    have "root_ptr (plug k (paint c t)) = root_ptr (plug k t)"
      using rptr_plug [of "paint c t" t k] assms(2) by (simp add: root_ptr_def)
    moreover have "rep (rb_nodes ?S) (cpar k) (paint c t)"
      using assms(1) n good_distinct [OF assms(1)] by (auto simp: good_def tree_at_def t)
    moreover have "repk (rb_nodes ?S) k a"
      using assms(1) good_distinct [OF assms(1)] by (auto simp: good_def tree_at_def t)
    ultimately show "tree_at ?S k (paint c t)"
      using assms(1) good_distinct [OF assms(1)] by (simp add: tree_at_def good_def t)
  qed simp
  ultimately show ?thesis by simp
qed

lemma rotate_good:
  assumes "good S k (br s c A x (br s d B y C))"
  shows "\<exists>S'. rotate S x s = Some S' \<and> good S' k (br s d (br s c A x B) y C) \<and>
    chg S S' (set (addrs (plug k (br s c A x (br s d B y C)))))"
proof -
  have "tree_at S k (br s c A x (br s d B y C))" "flagged S {x}"
    using assms by (auto simp: good_def flagged_def)
  from rotate_rep [OF this] obtain S' where S': "rotate S x s = Some S'"
    "tree_at S' k (br s d (br s c A x B) y C)" "chg S S' ({x, y, rptr B} \<union> set_option (cpar k))"
    by blast
  have "chg S S' (set (addrs (plug k (br s c A x (br s d B y C)))))"
  proof -
    have "set_option (cpar k) \<subseteq> set (kaddrs k)" by (cases k rule: cpar.cases) auto
    moreover have "rptr B \<in> insert nil_addr (set (addrs B))" by (cases B) auto
    ultimately show ?thesis using S'(3) by (auto simp: chg_def)
  qed
  moreover have "good S' k (br s d (br s c A x B) y C)"
    by (rule good_chg [OF assms S'(2) _ S'(3)]) auto
  ultimately show ?thesis using S'(1) by blast
qed

lemma swapColor_modify:
  "rb_nodes S a = Some n \<Longrightarrow> rb_nodes S b = Some m \<Longrightarrow>
     swapColor S a b = do { S \<leftarrow> modify a (set_color (rb_color m)) S; modify b (set_color (rb_color n)) S }"
  by (simp add: swapColor_def)

lemma swapColor_good:
  assumes "good S k (br s c (br s' d B y C) x v)"
  shows "\<exists>S'. swapColor S x y = Some S' \<and> swapColor S y x = Some S' \<and>
    good S' k (br s d (br s' c B y C) x v) \<and> chg S S' {x, y} \<and> rb_root S' = rb_root S"
proof -
  let ?f = "(s, d, x, v) # k"
  obtain n where n: "rb_nodes S x = Some n" "rb_color n = c" using good_node assms by blast
  obtain m where m: "rb_nodes S y = Some m" "rb_color m = d" "y \<noteq> nil_addr"
    using good_node [of S "(s, c, x, v) # k" s' d B y C] assms by (auto simp: good_up)
  obtain S1 where S1: "modify x (set_color d) S = Some S1" "good S1 k (br s d (br s' d B y C) x v)"
    "chg S S1 {x}" "rb_root S1 = rb_root S"
    using recolor_good [OF assms, of d] by auto
  then have g1: "good S1 ?f (br s' d B y C)" by (simp add: good_up)
  obtain S2 where S2: "modify y (set_color c) S1 = Some S2" "good S2 ?f (br s' c B y C)"
    "chg S1 S2 {y}" "rb_root S2 = rb_root S1"
    using recolor_good [OF g1, of c] by auto
  have xy: "x \<noteq> y" using good_distinct [OF assms] by auto
  have "swapColor S x y = Some S2" using n m S1 S2 by (simp add: swapColor_modify)
  moreover have "swapColor S y x = swapColor S x y"
    using n m xy by (simp add: swapColor_def modify_Some fun_upd_twist)
  moreover have "chg S S2 {x, y}" by (rule chg_trans' [OF S1(3) S2(3)]) auto
  ultimately show ?thesis using S1(4) S2 by (auto simp: good_up)
qed

end
