(* ===== verification/Coslib_RBTree_Insert.thy ===== *)
theory Coslib_RBTree_Insert
  imports Coslib_RBTree_Rep
begin

text \<open>
  Insertion into the red-black tree. \<open>fixI\<close> is the rebalancing of \<open>adjustInsert\<close> as a function
  on address trees, \<open>insk\<close> the walk of \<open>Node::insert\<close> down to the free place. The pointer code is
  shown to compute them, and they are shown to keep the order of the keys, the colour rules
  and the black height.
\<close>

section \<open>Rebalancing on address trees\<close>

fun fixI :: "ctx \<Rightarrow> ptree \<Rightarrow> ptree" where
  "fixI [] t = paint BLACK t"
| "fixI ((d, BLACK, p, w) # k) t = plug ((d, BLACK, p, w) # k) t"
| "fixI [(d, RED, p, w)] t = plug [(d, RED, p, w)] t"
| "fixI ((d, RED, p, w) # (e, cg, g, u) # k) t =
     (if col u = RED then fixI k (br e RED (br d BLACK t p w) g (paint BLACK u))
      else if d = e then plug k (br e cg t p (br e RED w g u))
      else plug k (br e cg (br e RED w p (sub e t)) (rptr t)
                     (br e (col t) (sub (otherSide e) t) g u)))"

fun insk :: "(nat \<Rightarrow> int) \<Rightarrow> int \<Rightarrow> ctx \<Rightarrow> ptree \<Rightarrow> ctx" where
  "insk key x k Lf = k"
| "insk key x k (Br c l a r) =
     (if x < key a then insk key x ((LEFT, c, a, r) # k) l
      else insk key x ((RIGHT, c, a, l) # k) r)"

section \<open>Order\<close>

fun kl :: "ctx \<Rightarrow> nat list" where
  "kl [] = []"
| "kl ((d, c, a, u) # k) = (if d = LEFT then kl k else kl k @ addrs u @ [a])"

fun kr :: "ctx \<Rightarrow> nat list" where
  "kr [] = []"
| "kr ((d, c, a, u) # k) = (if d = LEFT then a # addrs u @ kr k else kr k)"

lemma addrs_plug: "addrs (plug k t) = kl k @ addrs t @ kr k"
proof (induction k t rule: plug.induct)
  case (2 d c a u k t)
  then show ?case by (cases d) auto
qed simp

lemma addrs_br_left: "addrs (br LEFT c u a v) = addrs u @ a # addrs v"
  and addrs_br_right: "addrs (br RIGHT c u a v) = addrs v @ a # addrs u"
  by auto

lemma addrs_fixI: "t \<noteq> Lf \<Longrightarrow> addrs (fixI k t) = addrs (plug k t)"
proof (induction k t rule: fixI.induct)
  case (4 d p w e cg g u k t)
  obtain c l a r where t: "t = Br c l a r" using \<open>t \<noteq> Lf\<close> by (cases t) auto
  show ?case
    using 4 by (cases d; cases e) (auto simp: addrs_plug t)
qed auto

definition insort_after :: "('a \<Rightarrow> int) \<Rightarrow> 'a \<Rightarrow> 'a list \<Rightarrow> 'a list" where
  "insort_after key x xs =
     takeWhile (\<lambda>a. key a \<le> key x) xs @ x # dropWhile (\<lambda>a. key a \<le> key x) xs"

lemma takeWhile_sorted_append:
  assumes "sorted (map key (xs @ a # ys))"
  shows "takeWhile (\<lambda>b. key b \<le> x) (xs @ a # ys) =
      (if x < key a then takeWhile (\<lambda>b. key b \<le> x) xs
       else xs @ a # takeWhile (\<lambda>b. key b \<le> x) ys)"
    and "dropWhile (\<lambda>b. key b \<le> x) (xs @ a # ys) =
      (if x < key a then dropWhile (\<lambda>b. key b \<le> x) xs @ a # ys
       else dropWhile (\<lambda>b. key b \<le> x) ys)"
proof -
  have le: "\<forall>b\<in>set xs. key b \<le> key a" using assms by (auto simp: sorted_append)
  let ?P = "\<lambda>b. key b \<le> x"
  have "takeWhile ?P (xs @ a # ys) = (if x < key a then takeWhile ?P xs else xs @ a # takeWhile ?P ys) \<and>
      dropWhile ?P (xs @ a # ys) = (if x < key a then dropWhile ?P xs @ a # ys else dropWhile ?P ys)"
  proof (cases "\<forall>b\<in>set xs. ?P b")
    case True
    then have tw: "takeWhile ?P xs = xs" by simp
    show ?thesis
      using True by (cases "x < key a") (simp_all add: tw takeWhile_append2 dropWhile_append2)
  next
    case False
    then obtain b where b: "b \<in> set xs" "\<not> ?P b" by blast
    then have "x < key a" using le by fastforce
    with b show ?thesis
      using takeWhile_append1 [of b xs ?P "a # ys"] dropWhile_append1 [of b xs ?P "a # ys"] by simp
  qed
  then show "takeWhile ?P (xs @ a # ys) = (if x < key a then takeWhile ?P xs else xs @ a # takeWhile ?P ys)"
    and "dropWhile ?P (xs @ a # ys) = (if x < key a then dropWhile ?P xs @ a # ys else dropWhile ?P ys)"
    by simp_all
qed

lemma insk_sides:
  "sorted (map key (addrs t)) \<Longrightarrow>
     kl (insk key x k t) = kl k @ takeWhile (\<lambda>b. key b \<le> x) (addrs t) \<and>
     kr (insk key x k t) = dropWhile (\<lambda>b. key b \<le> x) (addrs t) @ kr k"
proof (induction t arbitrary: k)
  case (Br c l a r)
  have "sorted (map key (addrs l))" "sorted (map key (addrs r))"
    using Br.prems by (auto simp: sorted_append)
  then show ?case
    using Br.IH(1) [of "(LEFT, c, a, r) # k"] Br.IH(2) [of "(RIGHT, c, a, l) # k"]
      takeWhile_sorted_append [of key "addrs l" a "addrs r"] Br.prems
    by simp
qed simp

lemma addrs_insk:
  assumes "sorted (map key (addrs t))"
  shows "addrs (plug (insk key (key x) [] t) (Br c Lf x Lf)) = insort_after key x (addrs t)"
  using insk_sides [OF assms, of "key x" "[]"] by (simp add: addrs_plug insort_after_def)

lemma sorted_insert_between:
  "sorted (map key (xs @ ys)) \<Longrightarrow> \<forall>a\<in>set xs. key a \<le> key x \<Longrightarrow> \<forall>a\<in>set ys. key x \<le> key a \<Longrightarrow>
     sorted (map key (xs @ x # ys))"
  by (auto simp: sorted_append)

lemma dropWhile_sorted_ge:
  fixes key :: "'a \<Rightarrow> int"
  shows "sorted (map key xs) \<Longrightarrow> \<forall>a\<in>set (dropWhile (\<lambda>a. key a \<le> x) xs). x \<le> key a"
  by (induction xs) auto

lemma sorted_insort_after:
  assumes "sorted (map key xs)"
  shows "sorted (map key (insort_after key x xs))"
  unfolding insort_after_def
proof (rule sorted_insert_between)
  show "sorted (map key (takeWhile (\<lambda>a. key a \<le> key x) xs @ dropWhile (\<lambda>a. key a \<le> key x) xs))"
    using assms by simp
  show "\<forall>a\<in>set (takeWhile (\<lambda>a. key a \<le> key x) xs). key a \<le> key x"
    by (meson set_takeWhileD)
qed (rule dropWhile_sorted_ge [OF assms])

section \<open>Colours and black height\<close>

fun bh :: "ptree \<Rightarrow> nat" where
  "bh Lf = 0"
| "bh (Br c l a r) = bh l + (if c = BLACK then 1 else 0)"

fun rbt :: "ptree \<Rightarrow> bool" where
  "rbt Lf = True"
| "rbt (Br c l a r) =
     (bh l = bh r \<and> (c = RED \<longrightarrow> col l = BLACK \<and> col r = BLACK) \<and> rbt l \<and> rbt r)"

fun kcol :: "ctx \<Rightarrow> color" where
  "kcol [] = RED"
| "kcol ((d, c, a, u) # k) = c"

text \<open>\<open>kok k n\<close>: the surroundings are in order for a subtree of black height \<open>n\<close>; the root is black.\<close>

fun kok :: "ctx \<Rightarrow> nat \<Rightarrow> bool" where
  "kok [] n = True"
| "kok ((d, c, a, u) # k) n =
     (rbt u \<and> bh u = n \<and> (c = RED \<longrightarrow> col u = BLACK \<and> kcol k = BLACK) \<and>
      kok k (n + (if c = BLACK then 1 else 0)))"

lemma rbt_br: "rbt (br s c u a v) \<longleftrightarrow>
    bh u = bh v \<and> (c = RED \<longrightarrow> col u = BLACK \<and> col v = BLACK) \<and> rbt u \<and> rbt v"
  by (cases s) auto

lemma bh_br: "bh u = bh v \<Longrightarrow> bh (br s c u a v) = bh u + (if c = BLACK then 1 else 0)"
  by (cases s) auto

lemma color_neq [simp]: "c \<noteq> BLACK \<longleftrightarrow> c = RED" "c \<noteq> RED \<longleftrightarrow> c = BLACK"
  by (cases c; simp)+

lemma rbt_plug:
  "rbt (plug k t) \<and> col (plug k t) = BLACK \<longleftrightarrow>
     rbt t \<and> kok k (bh t) \<and> (col t = RED \<longrightarrow> kcol k = BLACK)"
proof (induction k t rule: plug.induct)
  case (1 t)
  then show ?case by (cases "col t") auto
next
  case (2 d c a u k t)
  show ?case
  proof (cases "bh u = bh t")
    case True
    then show ?thesis using 2 by (auto simp: rbt_br bh_br)
  next
    case False
    then show ?thesis using 2 by (auto simp: rbt_br)
  qed
qed

lemma paint_BLACK_rbt: "rbt t \<Longrightarrow> rbt (paint BLACK t)"
  by (cases t) auto

lemma col_paint [simp]: "t \<noteq> Lf \<Longrightarrow> col (paint c t) = c" "col (paint BLACK t) = BLACK"
  by (cases t; simp)+

lemma bh_paint_BLACK: "rbt t \<Longrightarrow> col t = RED \<Longrightarrow> bh (paint BLACK t) = bh t + 1"
  by (cases t) auto

lemma rbt_sub:
  assumes "rbt t" "t \<noteq> Lf"
  shows "rbt (sub s t)" "bh (sub s t) + (if col t = BLACK then 1 else 0) = bh t"
    "col t = RED \<Longrightarrow> col (sub s t) = BLACK"
  using assms by (cases t; cases s; simp)+

text \<open>A red subtree whose parent may be red as well is repaired.\<close>

lemma rbt_fixI:
  "rbt t \<Longrightarrow> t \<noteq> Lf \<Longrightarrow> col t = RED \<Longrightarrow> kok k (bh t) \<Longrightarrow>
     rbt (fixI k t) \<and> col (fixI k t) = BLACK"
proof (induction k t rule: fixI.induct)
  case (1 t)
  then show ?case by (simp add: paint_BLACK_rbt)
next
  case (2 d p w k t)
  then show ?case using rbt_plug [of "(d, BLACK, p, w) # k" t] by simp
next
  case (3 d p w t)
  then show ?case by simp
next
  case (4 d p w e cg g u k t)
  then have cg: "cg = BLACK" and w: "rbt w" "bh w = bh t" "col w = BLACK"
    and u: "rbt u" "bh u = bh t" and k: "kok k (bh t + 1)"
    by auto
  show ?case
  proof (cases "col u = RED")
    case True
    have "rbt (br e RED (br d BLACK t p w) g (paint BLACK u))"
      using 4 w u True by (simp add: rbt_br bh_br bh_paint_BLACK paint_BLACK_rbt)
    moreover have "bh (br e RED (br d BLACK t p w) g (paint BLACK u)) = bh t + 1"
      using w u True by (simp add: bh_br bh_paint_BLACK)
    ultimately show ?thesis using "4.IH" True k by simp
  next
    case False
    note s = rbt_sub [OF \<open>rbt t\<close> \<open>t \<noteq> Lf\<close>]
    show ?thesis
    proof (cases "d = e")
      case True
      have "rbt (br e BLACK t p (br e RED w g u))" "bh (br e BLACK t p (br e RED w g u)) = bh t + 1"
        using 4 w u False by (auto simp: rbt_br bh_br)
      then show ?thesis using rbt_plug [of k "br e BLACK t p (br e RED w g u)"] k False True cg by simp
    next
      case False': False
      let ?t = "br e BLACK (br e RED w p (sub e t)) (rptr t) (br e RED (sub (otherSide e) t) g u)"
      have "rbt ?t" "bh ?t = bh t + 1"
        using 4 w u False s [of e] s [of "otherSide e"] by (auto simp: rbt_br bh_br)
      then show ?thesis using rbt_plug [of k ?t] k False False' cg 4 by simp
    qed
  qed
qed

lemma rbt_insk:
  "rbt t \<Longrightarrow> kok k (bh t) \<Longrightarrow> (col t = RED \<longrightarrow> kcol k = BLACK) \<Longrightarrow> kok (insk key x k t) 0"
  by (induction t arbitrary: k) auto

text \<open>The root stays black whatever the colours below it.\<close>

lemma col_plug_Cons: "col (plug (f # k) t) = col (plug (f # k) t')"
proof (induction k arbitrary: f t t')
  case Nil
  show ?case by (cases f) simp
next
  case (Cons g k)
  obtain d c a u where "f = (d, c, a, u)" by (cases f) auto
  then show ?case using Cons.IH [of g "br d c t a u" "br d c t' a u"] by simp
qed

lemma col_fixI: "t \<noteq> Lf \<Longrightarrow> (k \<noteq> [] \<longrightarrow> col (plug k t) = BLACK) \<Longrightarrow> col (fixI k t) = BLACK"
proof (induction k t rule: fixI.induct)
  case (4 d p w e cg g u k t)
  show ?case
  proof (cases k)
    case Nil
    with 4 show ?thesis by simp
  next
    case (Cons f k')
    have "col (plug k t') = BLACK" for t'
      using 4(3) col_plug_Cons [of f k' "br e cg (br d RED t p w) g u" t'] Cons by simp
    with 4(1) show ?thesis by simp
  qed
qed auto

section \<open>The pointer code\<close>

lemma good_br_sub:
  "good S k t \<Longrightarrow> t \<noteq> Lf \<Longrightarrow> good S k (br s (col t) (sub s t) (rptr t) (sub (otherSide s) t))"
  by (simp add: br_sub)

lemma good_node_of:
  assumes "good S k t" "t \<noteq> Lf"
  shows "\<exists>n. rb_nodes S (rptr t) = Some n \<and> rptr t \<noteq> nil_addr \<and> rb_color n = col t \<and>
    rb_parent n = cpar k \<and> rb_tree n"
  using good_node [OF good_br_sub [OF assms, of LEFT]] by auto

text \<open>The last two steps of \<open>adjustInsert\<close>: rotate at the grandparent and swap the colours.\<close>

lemma rotate_swap_good:
  assumes "good S k (br e cg (br e cp A p B) g u)"
  shows "\<exists>S1 S2. rotate S g (otherSide e) = Some S1 \<and> swapColor S1 g p = Some S2 \<and>
    good S2 k (br e cg A p (br e cp B g u)) \<and>
    chg S S2 (set (addrs (plug k (br e cg (br e cp A p B) g u))))"
proof -
  have g0: "good S k (br (otherSide e) cg u g (br (otherSide e) cp B p A))" using assms by simp
  obtain S1 where S1: "rotate S g (otherSide e) = Some S1" "good S1 k (br e cp A p (br e cg B g u))"
    "chg S S1 (set (addrs (plug k (br e cg (br e cp A p B) g u))))"
    using rotate_good [OF g0] by (auto simp: Un_commute insert_commute Un_left_commute)
  have g1: "good S1 k (br (otherSide e) cp (br e cg B g u) p A)" using S1(2) by simp
  obtain S2 where S2: "swapColor S1 g p = Some S2" "good S2 k (br (otherSide e) cg (br e cp B g u) p A)"
    "chg S1 S2 {p, g}"
    using swapColor_good [OF g1] by auto
  have "chg S S2 (set (addrs (plug k (br e cg (br e cp A p B) g u))))"
    by (rule chg_trans' [OF S1(3) S2(3)]) auto
  with S1 S2 show ?thesis by auto
qed

lemma adjustInsert_unfold:
  assumes "good S ((d, RED, p, w) # (e, cg, g, u) # k) t" "t \<noteq> Lf"
  shows "adjustInsert S (rptr t) =
     (if col u = RED then do {
        S \<leftarrow> modify (rptr u) (set_color BLACK) S;
        S \<leftarrow> modify p (set_color BLACK) S;
        S \<leftarrow> modify g (set_color RED) S;
        adjustInsert S g }
      else do {
        (S, cParent) \<leftarrow>
          (if d \<noteq> e then do { S \<leftarrow> rotate S p (otherSide d); Some (S, rptr t) } else Some (S, p));
        s \<leftarrow> whichSide S g cParent;
        S \<leftarrow> rotate S g (otherSide s);
        swapColor S g cParent })"
proof -
  have g1: "good S ((e, cg, g, u) # k) (br d RED t p w)" using assms(1) by (simp add: good_up)
  have gu: "good S ((otherSide e, cg, g, br d RED t p w) # k) u" using g1 by (simp add: good_up)
  obtain n where n: "rb_nodes S (rptr t) = Some n" "rb_parent n = Some p"
    using good_node_of [OF assms] by auto
  obtain pn where pn: "rb_nodes S p = Some pn" "rb_color pn = RED" "rb_parent pn = Some g"
    using good_node [OF g1] by auto
  have "getBrother S p = Some (Some (rptr u))" using getBrother_good [OF g1] by simp
  moreover have "isRed S (rptr u) = Some (col u = RED)" by (rule isRed_good [OF gu])
  moreover have "whichSide S p (rptr t) = Some d" by (rule whichSide_good [OF assms(1)]) (simp add: assms(2))
  moreover have "whichSide S g p = Some e" using whichSide_good [OF g1] by simp
  ultimately show ?thesis using n pn by (subst adjustInsert.simps) simp
qed

lemma adjustInsert_good:
  "good S k t \<Longrightarrow> t \<noteq> Lf \<Longrightarrow> (k \<noteq> [] \<longrightarrow> col (plug k t) = BLACK) \<Longrightarrow>
     \<exists>S'. adjustInsert S (rptr t) = Some S' \<and> good S' [] (fixI k t) \<and>
       chg S S' (set (addrs (plug k t)))"
proof (induction k t arbitrary: S rule: fixI.induct)
  case (1 t)
  obtain n where n: "rb_nodes S (rptr t) = Some n" "rb_parent n = None"
    using good_node_of [OF 1(1,2)] by auto
  obtain S' where "modify (rptr t) (set_color BLACK) S = Some S'" "good S' [] (paint BLACK t)"
    "chg S S' {rptr t}" using recolor_good [OF 1(1,2)] by blast
  moreover from this(3) have "chg S S' (set (addrs t))"
    by (rule chg_mono) (simp add: rptr_in_addrs 1)
  ultimately show ?case using n by (subst adjustInsert.simps) simp
next
  case (2 d p w k t)
  obtain n where n: "rb_nodes S (rptr t) = Some n" "rb_parent n = Some p"
    using good_node_of [OF 2(1,2)] by auto
  obtain pn where "rb_nodes S p = Some pn" "rb_color pn = BLACK"
    using good_frame_node [OF 2(1)] by auto
  then have "adjustInsert S (rptr t) = Some S" using n by (subst adjustInsert.simps) simp
  moreover have "good S [] (fixI ((d, BLACK, p, w) # k) t)"
    using 2(1) by (subst (asm) good_iff) simp
  ultimately show ?case by simp
next
  case (3 d p w t)
  then show ?case by simp
next
  case (4 d p w e cg g u k t)
  let ?all = "set (addrs (plug ((d, RED, p, w) # (e, cg, g, u) # k) t))"
  note unf = adjustInsert_unfold [OF "4.prems"(1,2)]
  have g1: "good S ((e, cg, g, u) # k) (br d RED t p w)" using 4(2) by (simp add: good_up)
  show ?case
  proof (cases "col u = RED")
    case True
    then have u: "u \<noteq> Lf" by auto
    have gu: "good S ((otherSide e, cg, g, br d RED t p w) # k) u" using g1 by (simp add: good_up)
    obtain S1 where S1: "modify (rptr u) (set_color BLACK) S = Some S1"
      "good S1 ((otherSide e, cg, g, br d RED t p w) # k) (paint BLACK u)" "chg S S1 {rptr u}"
      using recolor_good [OF gu u] by blast
    have gp: "good S1 ((e, cg, g, paint BLACK u) # k) (br d RED t p w)"
      using S1(2) by (simp add: good_up)
    obtain S2 where S2: "modify p (set_color BLACK) S1 = Some S2"
      "good S2 ((e, cg, g, paint BLACK u) # k) (br d BLACK t p w)" "chg S1 S2 {p}"
      using recolor_good [OF gp] by auto
    have gg: "good S2 k (br e cg (br d BLACK t p w) g (paint BLACK u))"
      using S2(2) by (simp add: good_up)
    let ?t = "br e RED (br d BLACK t p w) g (paint BLACK u)"
    obtain S3 where S3: "modify g (set_color RED) S2 = Some S3" "good S3 k ?t" "chg S2 S3 {g}"
      using recolor_good [OF gg] by auto
    have "k \<noteq> [] \<longrightarrow> col (plug k ?t) = BLACK"
    proof
      assume "k \<noteq> []"
      then obtain f k' where k: "k = f # k'" by (cases k) auto
      show "col (plug k ?t) = BLACK"
        using "4.prems"(3) col_plug_Cons [of f k' ?t "br e cg (br d RED t p w) g u"] by (simp add: k)
    qed
    then obtain S4 where S4: "adjustInsert S3 g = Some S4" "good S4 [] (fixI k ?t)"
      "chg S3 S4 (set (addrs (plug k ?t)))"
      using "4.IH" [OF True S3(2)] by auto
    have "chg S S4 ?all"
      by (rule chg_trans' [OF chg_trans [OF chg_trans [OF S1(3) S2(3)] S3(3)] S4(3)])
        (use rptr_in_addrs [OF u] in auto)
    moreover have "adjustInsert S (rptr t) = Some S4"
      using unf S1(1) S2(1) S3(1) S4(1) True by simp
    ultimately show ?thesis using S4(2) True by auto
  next
    case u: False
    show ?thesis
    proof (cases "d = e")
      case True
      have g0: "good S k (br e cg (br e RED t p w) g u)" using g1 True by (simp add: good_up)
      obtain S1 S2 where S2: "rotate S g (otherSide e) = Some S1" "swapColor S1 g p = Some S2"
        "good S2 k (br e cg t p (br e RED w g u))"
        "chg S S2 (set (addrs (plug k (br e cg (br e RED t p w) g u))))"
        using rotate_swap_good [OF g0] by blast
      have "whichSide S g p = Some e" using whichSide_good [OF g1] by simp
      then have "adjustInsert S (rptr t) = Some S2" using unf u True S2 by simp
      moreover have "good S2 [] (plug k (br e cg t p (br e RED w g u)))"
        using S2(3) by (subst (asm) good_iff)
      ultimately show ?thesis using S2(4) u True by simp
    next
      case False
      then have d: "d = otherSide e" by (simp add: side_neq_iff)
      let ?B = "sub e t" and ?C = "sub (otherSide e) t"
      have "good S ((e, cg, g, u) # k) (br e RED w p (br e (col t) ?B (rptr t) ?C))"
        using g1 d "4.prems"(2) by (simp add: br_sub)
      from rotate_good [OF this] obtain S1 where S1: "rotate S p e = Some S1"
        "good S1 ((e, cg, g, u) # k) (br e (col t) (br e RED w p ?B) (rptr t) ?C)"
        "chg S S1 (set (addrs (plug ((e, cg, g, u) # k) (br e RED w p (br e (col t) ?B (rptr t) ?C)))))"
        by blast
      let ?t1 = "br e (col t) (br e RED w p ?B) (rptr t) ?C"
      have ws: "whichSide S1 g (rptr t) = Some e" using whichSide_good [OF S1(2)] by simp
      have "good S1 k (br e cg ?t1 g u)" using S1(2) by (simp add: good_up)
      from rotate_swap_good [OF this] obtain S2 S3 where
        S3: "rotate S1 g (otherSide e) = Some S2" "swapColor S2 g (rptr t) = Some S3"
        "good S3 k (br e cg (br e RED w p ?B) (rptr t) (br e (col t) ?C g u))"
        "chg S1 S3 (set (addrs (plug k (br e cg ?t1 g u))))" by blast
      have st: "set (addrs t) = insert (rptr t) (set (addrs ?B) \<union> set (addrs ?C))"
        using arg_cong [OF br_sub [OF "4.prems"(2), of e], of addrs] by (metis set_addrs_br)
      have "chg S S3 ?all" by (rule chg_trans' [OF S1(3) S3(4)]) (auto simp: st)
      moreover have "adjustInsert S (rptr t) = Some S3" using unf u d S1 ws S3 by simp
      moreover have "good S3 [] (fixI ((d, RED, p, w) # (e, cg, g, u) # k) t)"
        using S3(3) u d by (subst (asm) good_iff) simp
      ultimately show ?thesis by blast
    qed
  qed
qed

section \<open>Insertion as a whole\<close>

text \<open>A node in no tree: no parent and leaves below, as the constructor and \<open>remove\<close> leave it.\<close>

definition loose :: "'o rbtree \<Rightarrow> nat \<Rightarrow> bool" where
  "loose S a \<longleftrightarrow> a \<noteq> nil_addr \<and>
     (case rb_nodes S a of None \<Rightarrow> False
      | Some n \<Rightarrow> rb_parent n = None \<and> rb_link n LEFT = Some nil_addr \<and> rb_link n RIGHT = Some nil_addr)"

definition keyof :: "'o rbtree \<Rightarrow> nat \<Rightarrow> int" where
  "keyof S a = rb_key (the (rb_nodes S a))"

text \<open>Keys and objects are never written.\<close>

definition same_data :: "'o rbtree \<Rightarrow> 'o rbtree \<Rightarrow> bool" where
  "same_data S S' \<longleftrightarrow>
     (\<forall>a. map_option (\<lambda>n. (rb_obj n, rb_key n)) (rb_nodes S' a) =
          map_option (\<lambda>n. (rb_obj n, rb_key n)) (rb_nodes S a))"

lemma same_data_refl [simp]: "same_data S S"
  by (simp add: same_data_def)

lemma same_data_trans: "same_data S S' \<Longrightarrow> same_data S' S'' \<Longrightarrow> same_data S S''"
  by (simp add: same_data_def)

lemma same_data_keyof: "same_data S S' \<Longrightarrow> keyof S' = keyof S"
proof
  fix a
  assume "same_data S S'"
  then have "map_option (\<lambda>n. (rb_obj n, rb_key n)) (rb_nodes S' a) =
      map_option (\<lambda>n. (rb_obj n, rb_key n)) (rb_nodes S a)" by (simp add: same_data_def)
  then show "keyof S' a = keyof S a"
    by (cases "rb_nodes S a"; cases "rb_nodes S' a") (auto simp: keyof_def)
qed

lemma same_data_lookup:
  "same_data S S' \<Longrightarrow> rb_nodes S a = Some n \<Longrightarrow>
     \<exists>n'. rb_nodes S' a = Some n' \<and> rb_obj n' = rb_obj n \<and> rb_key n' = rb_key n"
  by (auto simp: same_data_def dest!: spec [of _ a])

lemma chg_same_data: "chg S S' X \<Longrightarrow> same_data S S'"
  unfolding same_data_def
proof
  fix a
  assume "chg S S' X"
  then have "map_option info (rb_nodes S' a) = map_option info (rb_nodes S a)" by (simp add: chg_def)
  then show "map_option (\<lambda>n. (rb_obj n, rb_key n)) (rb_nodes S' a) =
      map_option (\<lambda>n. (rb_obj n, rb_key n)) (rb_nodes S a)"
    by (cases "rb_nodes S a"; cases "rb_nodes S' a") (auto simp: info_def)
qed

lemma good_upd_other:
  assumes "x \<notin> set (addrs (plug k t))" "x \<noteq> nil_addr"
  shows "good (S\<lparr>rb_nodes := (rb_nodes S)(x := v)\<rparr>) k t = good S k t"
  using assms by (auto simp: good_def tree_at_def flagged_def nil_ok_def)

lemma attach_leaf_good:
  assumes g: "good S ((d, c, a, u) # k) Lf" and x: "loose S x" "rb_nodes S x = Some n" "rb_tree n"
    and new: "x \<notin> set (addrs (plug ((d, c, a, u) # k) Lf))"
  shows "\<exists>S'. attach_side S a d x = Some S' \<and> chg S S' {a, x} \<and>
    good S' ((d, c, a, u) # k) (Br (rb_color n) Lf x Lf)"
proof -
  let ?t = "Br (rb_color n) Lf x Lf" and ?k = "(d, c, a, u) # k"
  have r: "rep (rb_nodes S) None ?t" using x by (simp add: loose_def)
  have k: "repk (rb_nodes S) ?k nil_addr" "distinct (kaddrs ?k)" "rb_root S = root_ptr (plug ?k Lf)"
    using g good_distinct [OF g] by (simp_all add: good_def tree_at_def)
  have dis: "set (addrs ?t) \<inter> set (kaddrs ?k) = {}" using new by auto
  obtain S' where S': "attach_side S a d x = Some S'" "repk (rb_nodes S') ?k x"
    "rep (rb_nodes S') (Some a) ?t" "chg S S' {a, x}" "rb_root S' = rb_root S"
    using kattach_rep [OF k(1) r _ dis k(2)] by auto
  have "flagged S (set (addrs (plug ?k ?t)))"
    using g x by (auto simp: good_def flagged_def)
  then have fl: "flagged S' (set (addrs (plug ?k ?t)))" by (rule chg_flagged [OF S'(4)])
  have "nil_ok S'" using g S'(4) by (auto simp: good_def nil_ok_def chg_def)
  moreover have "tree_at S' ?k ?t"
    using S' k dis root_ptr_Cons [of "(d, c, a, u)" k Lf ?t] unfolding tree_at_def by simp
  ultimately show ?thesis using fl S' unfolding good_def by blast
qed

lemma insert_at_good:
  "good S k t \<Longrightarrow> t \<noteq> Lf \<Longrightarrow> loose S x \<Longrightarrow> rb_nodes S x = Some n \<Longrightarrow> rb_tree n \<Longrightarrow>
     x \<notin> set (addrs (plug k t)) \<Longrightarrow>
     \<exists>S'. insert_at S (rptr t) x = adjustInsert S' x \<and>
       good S' (insk (keyof S) (keyof S x) k t) (Br (rb_color n) Lf x Lf) \<and>
       chg S S' (insert x (set (addrs (plug k t))))"
proof (induction t arbitrary: k)
  case Lf
  then show ?case by simp
next
  case (Br c l a r)
  let ?d = "if keyof S x < keyof S a then LEFT else RIGHT"
  define v where "v = (if keyof S x < keyof S a then l else r)"
  define w where "w = (if keyof S x < keyof S a then r else l)"
  let ?k = "(?d, c, a, w) # k"
  have t: "Br c l a r = br ?d c v a w" by (simp add: v_def w_def)
  have g: "good S ?k v" using Br.prems(1) by (simp add: t good_up)
  have new: "x \<notin> set (addrs (plug ?k v))" using Br.prems(6) by (auto simp: v_def w_def)
  have ins: "insk (keyof S) (keyof S x) k (Br c l a r) = insk (keyof S) (keyof S x) ?k v"
    by (simp add: v_def w_def)
  obtain m where m: "rb_nodes S a = Some m" "rb_link m ?d = Some (rptr v)"
    using good_frame_node [OF g] by blast
  have keys: "rb_key n < rb_key m \<longleftrightarrow> keyof S x < keyof S a"
    using m(1) Br.prems(4) by (simp add: keyof_def)
  show ?case
  proof (cases "v = Lf")
    case True
    obtain S' where S': "attach_side S a ?d x = Some S'" "chg S S' {a, x}"
      "good S' ?k (Br (rb_color n) Lf x Lf)"
      using attach_leaf_good [OF g [unfolded True] Br.prems(3-5)] new True by auto
    have "insert_at S a x = adjustInsert S' x"
      using Br.prems(4) m True S'(1) keys by (subst insert_at.simps) auto
    moreover have "chg S S' (insert x (set (addrs (plug k (Br c l a r)))))"
      by (rule chg_mono [OF S'(2)]) auto
    ultimately show ?thesis using S'(3) True ins by auto
  next
    case False
    have nz: "rptr v \<noteq> nil_addr" using good_node_of [OF g False] by blast
    have "insert_at S a x = insert_at S (rptr v) x"
      using Br.prems(4) m nz keys by (subst insert_at.simps) auto
    moreover have "set (addrs (plug ?k v)) = set (addrs (plug k (Br c l a r)))" by (simp add: t)
    moreover have "\<exists>S'. insert_at S (rptr v) x = adjustInsert S' x \<and>
       good S' (insk (keyof S) (keyof S x) ?k v) (Br (rb_color n) Lf x Lf) \<and>
       chg S S' (insert x (set (addrs (plug ?k v))))"
      using Br.IH(1) [of ?k] Br.IH(2) [of ?k] g False Br.prems(3-5) new unfolding v_def by presburger
    ultimately show ?thesis by (auto simp: ins simp del: insk.simps)
  qed
qed

lemma plug_insk: "plug (insk key x k t) Lf = plug k t"
  by (induction t arbitrary: k) auto

lemma col_insk: "col t = BLACK \<Longrightarrow> insk key x [] t \<noteq> [] \<Longrightarrow> col (plug (insk key x [] t) u) = BLACK"
  using plug_insk [of key x "[]" t] col_plug_Cons by (metis list.exhaust plug.simps(1))

text \<open>
  Inserting a loose node: the tree keeps its other nodes, the new one comes behind those with
  the same key, and the colour rules hold again if the node is red.
\<close>

definition ins_tree :: "'o rbtree \<Rightarrow> nat \<Rightarrow> ptree \<Rightarrow> ptree" where
  "ins_tree S x t =
     (if t = Lf then Br BLACK Lf x Lf
      else fixI (insk (keyof S) (keyof S x) [] t) (Br (rb_color (the (rb_nodes S x))) Lf x Lf))"

lemma rb_insert_good:
  assumes g: "good S [] t" and black: "col t = BLACK" and x: "loose S x" "x \<notin> set (addrs t)"
  shows "\<exists>S'. rb_insert S x = Some (True, S') \<and> good S' [] (ins_tree S x t) \<and>
    same_data S S' \<and> (\<forall>a. a \<notin> insert x (set (addrs t)) \<longrightarrow> rb_nodes S' a = rb_nodes S a)"
proof -
  obtain n where n: "rb_nodes S x = Some n" "x \<noteq> nil_addr"
    using x(1) by (auto simp: loose_def split: option.splits)
  let ?n = "set_tree True n"
  define S0 where "S0 = S\<lparr>rb_nodes := (rb_nodes S)(x \<mapsto> ?n)\<rparr>"
  have m: "modify x (set_tree True) S = Some S0" using n by (simp add: modify_Some S0_def)
  have g0: "good S0 [] t" using g x n by (simp add: S0_def good_upd_other)
  have x0: "loose S0 x" "rb_nodes S0 x = Some ?n" using x n by (auto simp: loose_def S0_def)
  have sd0: "same_data S S0" using n by (auto simp: same_data_def S0_def)
  have root: "rb_root S0 = root_ptr t" using g0 by (simp add: good_def tree_at_def)
  show ?thesis
  proof (cases "t = Lf")
    case True
    let ?S = "S0\<lparr>rb_root := Some x, rb_nodes := (rb_nodes S0)(x \<mapsto> set_color BLACK ?n)\<rparr>"
    have "rb_insert S x = Some (True, ?S)"
      using m root x0(2) True by (simp add: rb_insert_def root_ptr_def modify_Some)
    moreover have "good ?S [] (Br BLACK Lf x Lf)"
      using g0 x0 n by (auto simp: good_def tree_at_def flagged_def nil_ok_def root_ptr_def loose_def)
    moreover have "same_data S ?S" using n by (auto simp: same_data_def S0_def)
    ultimately show ?thesis using True by (auto simp: S0_def ins_tree_def)
  next
    case False
    let ?k = "insk (keyof S0) (keyof S0 x) [] t" and ?u = "Br (rb_color n) Lf x Lf"
    obtain S1 where S1: "insert_at S0 (rptr t) x = adjustInsert S1 x" "good S1 ?k ?u"
      "chg S0 S1 (insert x (set (addrs t)))"
      using insert_at_good [OF g0 False x0] x(2) by auto
    have "?k \<noteq> [] \<longrightarrow> col (plug ?k ?u) = BLACK" using col_insk black by blast
    from adjustInsert_good [OF S1(2) _ this] obtain S2 where
      S2: "adjustInsert S1 x = Some S2" "good S2 [] (fixI ?k ?u)" "chg S1 S2 (set (addrs (plug ?k ?u)))"
      by auto
    have "set (addrs (plug ?k ?u)) = insert x (set (addrs (plug ?k Lf)))" by auto
    then have all: "set (addrs (plug ?k ?u)) = insert x (set (addrs t))" by (simp only: plug_insk plug.simps)
    have c: "chg S0 S2 (insert x (set (addrs t)))" using chg_trans [OF S1(3) S2(3) [unfolded all]] by simp
    have "rb_insert S x = Some (True, S2)"
      using m root False S1(1) S2(1) by (simp add: rb_insert_def root_ptr_def)
    moreover have "same_data S S2" by (rule same_data_trans [OF sd0 chg_same_data [OF c]])
    moreover have "\<forall>a. a \<notin> insert x (set (addrs t)) \<longrightarrow> rb_nodes S2 a = rb_nodes S a"
      using c by (auto simp: chg_def S0_def)
    moreover have "good S2 [] (ins_tree S x t)"
      using S2(2) False n(1) same_data_keyof [OF sd0] by (simp add: ins_tree_def)
    ultimately show ?thesis by blast
  qed
qed

lemma addrs_ins_tree:
  "sorted (map (keyof S) (addrs t)) \<Longrightarrow> addrs (ins_tree S x t) = insort_after (keyof S) x (addrs t)"
  using addrs_insk [of "keyof S" t x] by (auto simp: ins_tree_def addrs_fixI insort_after_def)

lemma col_ins_tree: "col t = BLACK \<Longrightarrow> col (ins_tree S x t) = BLACK"
  using col_fixI col_insk by (auto simp: ins_tree_def)

lemma rbt_ins_tree:
  assumes "rbt t" "col t = BLACK" "rb_nodes S x = Some n" "rb_color n = RED"
  shows "rbt (ins_tree S x t)"
proof -
  have "kok (insk (keyof S) (keyof S x) [] t) 0" using rbt_insk [of t "[]"] assms by simp
  then show ?thesis
    using rbt_fixI [of "Br RED Lf x Lf" "insk (keyof S) (keyof S x) [] t"] assms
    by (simp add: ins_tree_def)
qed

end
