(* ===== verification/Coslib_RBTree_Remove.thy ===== *)
theory Coslib_RBTree_Remove
  imports Coslib_RBTree_Insert
begin

text \<open>
  Removal from the red-black tree. \<open>fixD\<close> is the rebalancing of \<open>adjustLeave\<close> as a function on
  address trees, for a subtree that is one black node short. The pointer code of \<open>adjustLeave\<close>
  and of \<open>leave\<close> is shown to compute it on trees that keep the colour rules and have pairwise
  different keys.
\<close>

section \<open>Rebalancing on address trees\<close>

text \<open>The second half of \<open>adjustLeave\<close>: \<open>t\<close> hangs on side \<open>d\<close> of \<open>p\<close>, \<open>nb\<close> is its sibling.\<close>

definition tailD :: "side \<Rightarrow> color \<Rightarrow> nat \<Rightarrow> ptree \<Rightarrow> ptree \<Rightarrow> ptree" where
  "tailD d cp p t nb =
     (let l = sub d nb; b = rptr nb; f = sub (otherSide d) nb in
      if cp = RED \<and> col l = BLACK \<and> col f = BLACK then br d (col nb) t p (paint cp nb)
      else if col l = RED \<and> col f = BLACK then
        br d cp (br d (col nb) t p (sub d l)) (rptr l) (br d BLACK (sub (otherSide d) l) b f)
      else if col f = RED then br d cp (br d (col nb) t p l) b (paint BLACK f)
      else br d cp t p nb)"

fun fixD :: "ctx \<Rightarrow> ptree \<Rightarrow> ptree" where
  "fixD [] t = paint BLACK t"
| "fixD ((d, cp, p, nb) # k) t =
     (if col t = RED then plug ((d, cp, p, nb) # k) (paint BLACK t)
      else if col nb = RED then
        plug k (br d cp (tailD d RED p t (sub d nb)) (rptr nb) (sub (otherSide d) nb))
      else if cp = BLACK \<and> col (sub d nb) = BLACK \<and> col (sub (otherSide d) nb) = BLACK then
        fixD k (br d BLACK t p (paint RED nb))
      else plug k (tailD d cp p t nb))"

lemma nonempty_brE:
  assumes "t \<noteq> Lf"
  obtains c u a v where "t = br s c u a v"
  using assms ptree_br_cases by blast

lemma bh_pos: "0 < bh t \<Longrightarrow> t \<noteq> Lf"
  by auto

lemma rbt_red_children: "rbt (br s RED u a v) \<Longrightarrow> col u = BLACK \<and> col v = BLACK"
  by (simp add: rbt_br)

lemma addrs_br_cong:
  "addrs u = addrs u' \<Longrightarrow> addrs v = addrs v' \<Longrightarrow> addrs (br s c u a v) = addrs (br s c' u' a v')"
  by (cases s) auto

lemma addrs_br_rotate: "addrs (br s c (br s d u a v) b w) = addrs (br s c' u a (br s d' v b w))"
  by (cases s) auto

lemma addrs_plug_cong: "addrs t = addrs t' \<Longrightarrow> addrs (plug k t) = addrs (plug k t')"
  by (simp add: addrs_plug)

lemma tailD_addrs:
  assumes "nb \<noteq> Lf"
  shows "addrs (tailD d cp p t nb) = addrs (br d cp t p nb)"
proof -
  obtain c l b f where nb: "nb = br d c l b f" using assms by (rule nonempty_brE)
  show ?thesis
  proof (cases "col l = RED")
    case True
    then obtain c' l1 x l2 where l: "l = br d c' l1 x l2" by (metis col.simps(1) color.distinct(1) nonempty_brE)
    show ?thesis by (cases d) (auto simp: tailD_def nb l Let_def)
  next
    case False
    then show ?thesis by (cases d) (auto simp: tailD_def nb Let_def)
  qed
qed

text \<open>The sibling of a subtree that is one black node short, when it is black.\<close>

lemma tailD_rbt:
  assumes t: "rbt t" "col t = BLACK" and nb: "rbt nb" "col nb = BLACK" "bh nb = bh t + 1"
    and red: "cp = RED \<or> col (sub d nb) = RED \<or> col (sub (otherSide d) nb) = RED"
  shows "rbt (tailD d cp p t nb)" "bh (tailD d cp p t nb) = bh t + (if cp = BLACK then 2 else 1)"
    "cp = BLACK \<Longrightarrow> col (tailD d cp p t nb) = BLACK"
proof -
  have "nb \<noteq> Lf" using nb(3) by auto
  then obtain c l b f where nb': "nb = br d c l b f" by (rule nonempty_brE)
  have c: "c = BLACK" using nb(2) nb' by simp
  have bhs: "bh l = bh t" "bh f = bh t" "rbt l" "rbt f"
    using nb unfolding nb' c rbt_br by (auto simp: bh_br)
  have "rbt (tailD d cp p t nb) \<and> bh (tailD d cp p t nb) = bh t + (if cp = BLACK then 2 else 1) \<and>
    (cp = BLACK \<longrightarrow> col (tailD d cp p t nb) = BLACK)"
  proof (cases "col l = RED")
    case True
    then obtain c' l1 x l2 where l: "l = br d c' l1 x l2" by (metis col.simps(1) color.distinct(1) nonempty_brE)
    then have l': "l = br d RED l1 x l2" using True by simp
    have "bh l1 = bh l2" "rbt l1" "rbt l2" "col l1 = BLACK" "col l2 = BLACK" "bh l1 = bh t"
      using bhs unfolding l' rbt_br by (auto simp: bh_br)
    then show ?thesis
      using bhs t by (cases "col f") (auto simp: tailD_def nb' l' c Let_def rbt_br bh_br bh_paint_BLACK paint_BLACK_rbt)
  next
    case False
    then show ?thesis
      using bhs t red
      by (cases "col f") (auto simp: tailD_def nb' c Let_def rbt_br bh_br bh_paint_BLACK paint_BLACK_rbt)
  qed
  then show "rbt (tailD d cp p t nb)" "bh (tailD d cp p t nb) = bh t + (if cp = BLACK then 2 else 1)"
    "cp = BLACK \<Longrightarrow> col (tailD d cp p t nb) = BLACK" by auto
qed

lemma fixD_addrs:
  "rbt t \<Longrightarrow> kok k (bh t + 1) \<Longrightarrow> addrs (fixD k t) = addrs (plug k t)"
proof (induction k t rule: fixD.induct)
  case (2 d cp p nb k t)
  have "nb \<noteq> Lf" using 2(3) by auto
  then obtain c l b f where nb: "nb = br d c l b f" by (rule nonempty_brE)
  show ?case
  proof (cases "col t = RED \<or> col nb = RED \<or> cp = RED \<or> col l = RED \<or> col f = RED")
    case False
    then have b: "col t = BLACK" "col nb = BLACK" "cp = BLACK" "col l = BLACK" "col f = BLACK" by auto
    have "rbt (br d BLACK t p (paint RED nb))" "bh (br d BLACK t p (paint RED nb)) = bh t + 1"
      using 2(2,3) b by (auto simp: nb rbt_br bh_br)
    moreover have "kok k (bh t + 2)" using 2(3) b by simp
    ultimately have "addrs (fixD k (br d BLACK t p (paint RED nb))) = addrs (plug k (br d BLACK t p (paint RED nb)))"
      using 2(1) b nb by simp
    also have "\<dots> = addrs (plug k (br d cp t p nb))" by (rule addrs_plug_cong, rule addrs_br_cong) auto
    finally show ?thesis using b nb by simp
  next
    case True
    show ?thesis
    proof (cases "col t = BLACK \<and> col nb = RED")
      case c: True
      have "l \<noteq> Lf" using 2(3) c by (auto simp: nb rbt_br bh_br)
      then have "addrs (tailD d RED p t l) = addrs (br d RED t p l)" by (rule tailD_addrs)
      then have "addrs (br d cp (tailD d RED p t l) b f) = addrs (br d cp t p (br d c l b f))"
        using addrs_br_rotate [of d cp RED t p l b f] addrs_br_cong [of "tailD d RED p t l" "br d RED t p l"]
        by metis
      then show ?thesis using c by (auto simp: nb intro: addrs_plug_cong)
    next
      case False
      then show ?thesis
        using True tailD_addrs [OF \<open>nb \<noteq> Lf\<close>]
        by (auto simp: nb intro!: addrs_plug_cong addrs_br_cong)
    qed
  qed
qed simp

lemma fixD_rbt:
  "rbt t \<Longrightarrow> kok k (bh t + 1) \<Longrightarrow> rbt (fixD k t) \<and> col (fixD k t) = BLACK"
proof (induction k t rule: fixD.induct)
  case (1 t)
  then show ?case by (simp add: paint_BLACK_rbt)
next
  case (2 d cp p nb k t)
  have "nb \<noteq> Lf" using 2(3) by auto
  then obtain c l b f where nb: "nb = br d c l b f" by (rule nonempty_brE)
  show ?case
  proof (cases "col t = RED")
    case True
    then show ?thesis
      using rbt_plug [of "(d, cp, p, nb) # k" "paint BLACK t"] 2(2,3)
      by (simp add: bh_paint_BLACK paint_BLACK_rbt)
  next
    case t: False
    show ?thesis
    proof (cases "col nb = RED")
      case True
      then have c: "c = RED" "cp = BLACK" using 2(3) by (auto simp: nb)
      have l: "rbt l" "rbt f" "col l = BLACK" "col f = BLACK" "bh l = bh t + 1" "bh f = bh t + 1"
        using 2(3) unfolding nb c by (auto simp: rbt_br bh_br)
      note td = tailD_rbt [OF 2(2) _ l(1,3,5), of RED d p]
      let ?t = "br d cp (tailD d RED p t l) b f"
      have "rbt ?t" "bh ?t = bh t + 2" using td t l c by (auto simp: rbt_br bh_br)
      then show ?thesis using rbt_plug [of k ?t] 2(3) t c by (simp add: nb)
    next
      case nbb: False
      show ?thesis
      proof (cases "cp = BLACK \<and> col l = BLACK \<and> col f = BLACK")
        case True
        have "rbt (br d BLACK t p (paint RED nb))" "bh (br d BLACK t p (paint RED nb)) = bh t + 1"
          using 2(2,3) True nbb t by (auto simp: nb rbt_br bh_br)
        then show ?thesis using 2(1) 2(3) True nbb t by (simp add: nb)
      next
        case False
        have "rbt nb" "col nb = BLACK" "bh nb = bh t + 1" using 2(3) nbb by auto
        note td = tailD_rbt [OF 2(2) _ this, of cp d p]
        have r: "cp = RED \<or> col (sub d nb) = RED \<or> col (sub (otherSide d) nb) = RED"
          using False by (auto simp: nb)
        have "rbt (tailD d cp p t nb)" "bh (tailD d cp p t nb) = bh t + (if cp = BLACK then 2 else 1)"
          "cp = BLACK \<Longrightarrow> col (tailD d cp p t nb) = BLACK"
          using td r t by auto
        then show ?thesis
          using rbt_plug [of k "tailD d cp p t nb"] 2(3) t nbb False by (auto simp: nb)
      qed
    qed
  qed
qed

section \<open>The pointer code of the rebalancing\<close>

lemma good_child:
  "good S k (br s c u a v) \<Longrightarrow> good S ((s, c, a, v) # k) u"
  "good S k (br s c u a v) \<Longrightarrow> good S ((otherSide s, c, a, u) # k) v"
  by (simp_all add: good_up)

lemma childrenBlack_good:
  assumes "good S k (br s c u a v)"
  shows "childrenBlack S a = Some (col u = BLACK \<and> col v = BLACK)"
proof -
  obtain n where n: "rb_nodes S a = Some n" "rb_link n s = Some (rptr u)"
    "rb_link n (otherSide s) = Some (rptr v)" using good_node [OF assms] by blast
  have "isBlack S (rptr u) = Some (col u = BLACK)" "isBlack S (rptr v) = Some (col v = BLACK)"
    using good_child [OF assms] isBlack_good by blast+
  with n show ?thesis by (cases s) (auto simp: childrenBlack_def)
qed

text \<open>Recolour the far child, swap the colours of parent and sibling, rotate at the parent.\<close>

lemma far_red_good:
  assumes g: "good S k (br d cp t p (br d c l b f))" and f: "f \<noteq> Lf"
  shows "\<exists>S1 S2 S3. modify (rptr f) (set_color BLACK) S = Some S1 \<and> swapColor S1 p b = Some S2 \<and>
    rotate S2 p d = Some S3 \<and> good S3 k (br d cp (br d c t p l) b (paint BLACK f)) \<and>
    chg S S3 (set (addrs (plug k (br d cp t p (br d c l b f)))))"
proof -
  let ?kn = "(otherSide d, cp, p, t) # k"
  have gf: "good S ((otherSide d, c, b, l) # ?kn) f" using g by (simp add: good_up)
  obtain S1 where S1: "modify (rptr f) (set_color BLACK) S = Some S1"
    "good S1 ((otherSide d, c, b, l) # ?kn) (paint BLACK f)" "chg S S1 {rptr f}"
    using recolor_good [OF gf f] by blast
  have g1: "good S1 k (br (otherSide d) cp (br d c l b (paint BLACK f)) p t)"
    using S1(2) by (simp add: good_up)
  obtain S2 where S2: "swapColor S1 p b = Some S2"
    "good S2 k (br (otherSide d) c (br d cp l b (paint BLACK f)) p t)" "chg S1 S2 {p, b}"
    using swapColor_good [OF g1] by blast
  have g2: "good S2 k (br d c t p (br d cp l b (paint BLACK f)))" using S2(2) by simp
  obtain S3 where S3: "rotate S2 p d = Some S3" "good S3 k (br d cp (br d c t p l) b (paint BLACK f))"
    "chg S2 S3 (set (addrs (plug k (br d c t p (br d cp l b (paint BLACK f))))))"
    using rotate_good [OF g2] by blast
  have "chg S S3 (set (addrs (plug k (br d cp t p (br d c l b f)))))"
    by (rule chg_trans' [OF chg_trans [OF S1(3) S2(3)] S3(3)]) (use rptr_in_addrs [OF f] in auto)
  with S1 S2 S3 show ?thesis by blast
qed

text \<open>The inner child is red and the far one black: bring the inner child up first.\<close>

lemma inner_red_good:
  assumes g: "good S k (br d cp t p (br d c (br d c' l1 x l2) b f))"
  shows "\<exists>S1 S2. swapColor S b x = Some S1 \<and> rotate S1 b (otherSide d) = Some S2 \<and>
    good S2 k (br d cp t p (br d c l1 x (br d c' l2 b f))) \<and>
    chg S S2 (set (addrs (plug k (br d cp t p (br d c (br d c' l1 x l2) b f)))))"
proof -
  let ?kn = "(otherSide d, cp, p, t) # k"
  have gn: "good S ?kn (br d c (br d c' l1 x l2) b f)" using g by (simp add: good_up)
  obtain S1 where S1: "swapColor S b x = Some S1" "good S1 ?kn (br d c' (br d c l1 x l2) b f)"
    "chg S S1 {b, x}"
    using swapColor_good [OF gn] by blast
  have g1: "good S1 ?kn (br (otherSide d) c' f b (br (otherSide d) c l2 x l1))" using S1(2) by simp
  obtain S2 where S2: "rotate S1 b (otherSide d) = Some S2"
    "good S2 ?kn (br (otherSide d) c (br (otherSide d) c' f b l2) x l1)"
    "chg S1 S2 (set (addrs (plug ?kn (br (otherSide d) c' f b (br (otherSide d) c l2 x l1)))))"
    using rotate_good [OF g1] by blast
  have "chg S S2 (set (addrs (plug k (br d cp t p (br d c (br d c' l1 x l2) b f)))))"
    by (rule chg_trans' [OF S1(3) S2(3)]) auto
  moreover have "good S2 k (br d cp t p (br d c l1 x (br d c' l2 b f)))"
    using S2(2) by (simp add: good_up)
  ultimately show ?thesis using S1(1) S2(1) by blast
qed

lemma adjustLeave_tail_good:
  assumes g: "good S k (br d cp t p nb)" and nb0: "nb \<noteq> Lf"
  shows "\<exists>S'. adjustLeave_tail S p (rptr nb) = Some S' \<and> good S' k (tailD d cp p t nb) \<and>
    chg S S' (set (addrs (plug k (br d cp t p nb))))"
proof -
  obtain c l b f where nb: "nb = br d c l b f" using nb0 by (rule nonempty_brE)
  let ?kn = "(otherSide d, cp, p, t) # k"
  have gn: "good S ?kn (br d c l b f)" using g by (simp add: nb good_up)
  note reads = isRed_good [OF g] childrenBlack_good [OF gn] whichSide_good [OF gn]
    isRed_good [OF good_child(1) [OF gn]] isRed_good [OF good_child(2) [OF gn]]
    isBlack_good [OF good_child(2) [OF gn]]
  obtain n where n: "rb_nodes S b = Some n" "rb_link n d = Some (rptr l)"
    "rb_link n (otherSide d) = Some (rptr f)" using good_node [OF gn] by blast
  show ?thesis
  proof (cases "cp = RED \<and> col l = BLACK \<and> col f = BLACK")
    case True
    have g1: "good S k (br (otherSide d) cp (br d c l b f) p t)" using g by (simp add: nb)
    obtain S1 where S1: "swapColor S p b = Some S1" "good S1 k (br (otherSide d) c (br d cp l b f) p t)"
      "chg S S1 {p, b}" using swapColor_good [OF g1] by blast
    have "adjustLeave_tail S p b = Some S1" using reads S1 True by (simp add: adjustLeave_tail_def)
    moreover have "chg S S1 (set (addrs (plug k (br d cp t p nb))))"
      by (rule chg_mono [OF S1(3)]) (auto simp: nb)
    ultimately show ?thesis using S1 True by (auto simp: tailD_def nb)
  next
    case nsw: False
    show ?thesis
    proof (cases "col l = RED \<and> col f = BLACK")
      case True
      then have "l \<noteq> Lf" by auto
      then obtain c' l1 x l2 where l: "l = br d c' l1 x l2" by (rule nonempty_brE)
      then have c': "c' = RED" using True by simp
      obtain S1 S2 where S2: "swapColor S b x = Some S1" "rotate S1 b (otherSide d) = Some S2"
        "good S2 k (br d cp t p (br d c l1 x (br d RED l2 b f)))"
        "chg S S2 (set (addrs (plug k (br d cp t p nb))))"
        using inner_red_good [OF g [unfolded nb l c']] by (auto simp: nb l c')
      have g2: "good S2 ((otherSide d, cp, p, t) # k) (br d c l1 x (br d RED l2 b f))"
        using S2(3) by (simp add: good_up)
      obtain m where m: "rb_nodes S2 p = Some m" "rb_link m (otherSide d) = Some x"
        using good_node [OF S2(3)] by auto
      obtain n2 where n2: "rb_nodes S2 x = Some n2" "rb_link n2 (otherSide d) = Some b"
        using good_node [OF g2] by auto
      have red: "isRed S2 b = Some True"
        using isRed_good [OF good_child(2) [OF g2]] by simp
      obtain S3 S4 S5 where S5: "modify b (set_color BLACK) S2 = Some S3" "swapColor S3 p x = Some S4"
        "rotate S4 p d = Some S5" "good S5 k (br d cp (br d c t p l1) x (br d BLACK l2 b f))"
        "chg S2 S5 (set (addrs (plug k (br d cp t p (br d c l1 x (br d RED l2 b f))))))"
        using far_red_good [OF S2(3)] by auto
      have "adjustLeave_tail S p b = Some S5"
        using reads n S2 m n2 red S5 nsw True by (auto simp: adjustLeave_tail_def l)
      moreover have "chg S S5 (set (addrs (plug k (br d cp t p nb))))"
        by (rule chg_trans' [OF S2(4) S5(5)]) (auto simp: nb l)
      ultimately show ?thesis using S5(4) nsw True by (auto simp: tailD_def nb l)
    next
      case nin: False
      show ?thesis
      proof (cases "col f = RED")
        case True
        then have f: "f \<noteq> Lf" by auto
        obtain S3 S4 S5 where S5: "modify (rptr f) (set_color BLACK) S = Some S3" "swapColor S3 p b = Some S4"
          "rotate S4 p d = Some S5" "good S5 k (br d cp (br d c t p l) b (paint BLACK f))"
          "chg S S5 (set (addrs (plug k (br d cp t p nb))))"
          using far_red_good [OF g [unfolded nb] f] by (auto simp: nb)
        have "adjustLeave_tail S p b = Some S5"
          using reads n S5 True by (auto simp: adjustLeave_tail_def)
        then show ?thesis using S5 True by (auto simp: tailD_def nb)
      next
        case False
        have "adjustLeave_tail S p b = Some S"
          using reads n nsw nin False by (auto simp: adjustLeave_tail_def)
        then show ?thesis using g nsw nin False by (auto simp: tailD_def nb)
      qed
    qed
  qed
qed

lemma adjustLeave_good:
  "good S k t \<Longrightarrow> rbt t \<Longrightarrow> kok k (bh t + 1) \<Longrightarrow> (k = [] \<longrightarrow> t \<noteq> Lf) \<Longrightarrow>
     \<exists>S'. adjustLeave S (rptr t) (cpar k) = Some S' \<and> good S' [] (fixD k t) \<and>
       chg S S' (set (addrs (plug k t)))"
proof (induction k t arbitrary: S rule: fixD.induct)
  case (1 t)
  then have "t \<noteq> Lf" by simp
  then obtain S' where "modify (rptr t) (set_color BLACK) S = Some S'" "good S' [] (paint BLACK t)"
    "chg S S' {rptr t}" using recolor_good 1(1) by blast
  moreover from this(3) have "chg S S' (set (addrs t))"
    by (rule chg_mono) (simp add: rptr_in_addrs \<open>t \<noteq> Lf\<close>)
  ultimately show ?case by (subst adjustLeave.simps) simp
next
  case (2 d cp p nb k t)
  let ?all = "set (addrs (plug ((d, cp, p, nb) # k) t))"
  have nb0: "nb \<noteq> Lf" using "2.prems"(3) by auto
  then obtain c l b f where nb: "nb = br d c l b f" by (rule nonempty_brE)
  let ?kn = "(otherSide d, cp, p, t) # k"
  have g: "good S k (br d cp t p nb)" using "2.prems"(1) by (simp add: good_up)
  have gn: "good S ?kn (br d c l b f)" using g by (simp add: nb good_up)
  have rt: "isRed S (rptr t) = Some (col t = RED)" by (rule isRed_good [OF "2.prems"(1)])
  obtain n where n: "rb_nodes S p = Some n" "rb_link n (otherSide d) = Some b" "rb_color n = cp"
    "rb_parent n = cpar k"
    using good_node [OF g] by (auto simp: nb)
  have ws: "whichSide S p (rptr t) = Some d" by (rule whichSide_good [OF "2.prems"(1)]) (simp add: nb0)
  have rn: "isRed S b = Some (c = RED)" using isRed_good [OF gn] by simp
  note cb = childrenBlack_good [OF gn]
  show ?case
  proof (cases "col t = RED")
    case True
    then have "t \<noteq> Lf" by auto
    then obtain S' where "modify (rptr t) (set_color BLACK) S = Some S'"
      "good S' ((d, cp, p, nb) # k) (paint BLACK t)" "chg S S' {rptr t}"
      using recolor_good "2.prems"(1) by blast
    moreover from this(3) have "chg S S' ?all"
      by (rule chg_mono) (use rptr_in_addrs \<open>t \<noteq> Lf\<close> in auto)
    ultimately show ?thesis
      using rt True by (subst adjustLeave.simps) (auto simp: good_iff [of S' "_ # _"])
  next
    case t: False
    show ?thesis
    proof (cases "c = RED")
      case True
      have "l \<noteq> Lf" using "2.prems"(3) by (auto simp: nb True rbt_br bh_br)
      have g1: "good S k (br (otherSide d) cp (br d c l b f) p t)" using g by (simp add: nb)
      obtain S1 where S1: "swapColor S p b = Some S1" "good S1 k (br (otherSide d) RED (br d cp l b f) p t)"
        "chg S S1 {p, b}" using swapColor_good [OF g1] by (auto simp: True)
      have g2: "good S1 k (br d RED t p (br d cp l b f))" using S1(2) by simp
      obtain S2 where S2: "rotate S1 p d = Some S2" "good S2 k (br d cp (br d RED t p l) b f)"
        "chg S1 S2 (set (addrs (plug k (br d RED t p (br d cp l b f)))))"
        using rotate_good [OF g2] by blast
      let ?k2 = "(d, cp, b, f) # k"
      have g3: "good S2 ?k2 (br d RED t p l)" using S2(2) by (simp add: good_up)
      obtain m where m: "rb_nodes S2 p = Some m" "rb_link m (otherSide d) = Some (rptr l)"
        using good_node [OF g3] by auto
      obtain S3 where S3: "adjustLeave_tail S2 p (rptr l) = Some S3" "good S3 ?k2 (tailD d RED p t l)"
        "chg S2 S3 (set (addrs (plug ?k2 (br d RED t p l))))"
        using adjustLeave_tail_good [OF g3 \<open>l \<noteq> Lf\<close>] by blast
      have "chg S S3 ?all"
        by (rule chg_trans' [OF chg_trans [OF S1(3) S2(3)] S3(3)]) (auto simp: nb)
      moreover have "adjustLeave S (rptr t) (Some p) = Some S3"
        using rt t n ws rn True S1(1) S2(1) m S3(1) by (subst adjustLeave.simps) simp
      moreover have "good S3 [] (fixD ((d, cp, p, nb) # k) t)"
        using S3(2) t True by (auto simp: nb good_up good_iff [of S3 k])
      ultimately show ?thesis by auto
    next
      case c: False
      show ?thesis
      proof (cases "cp = BLACK \<and> col l = BLACK \<and> col f = BLACK")
        case True
        obtain S1 where S1: "modify b (set_color RED) S = Some S1" "good S1 ?kn (br d RED l b f)"
          "chg S S1 {b}" using recolor_good [OF gn] by auto
        let ?t = "br d BLACK t p (paint RED nb)"
        have g1: "good S1 k ?t" using S1(2) True by (simp add: good_up nb)
        obtain m where m: "rb_nodes S1 p = Some m" "rb_parent m = cpar k" using good_node [OF g1] by auto
        have "rbt ?t" "bh ?t = bh t + 1" "kok k (bh t + 2)"
          using "2.prems"(2,3) True c t by (auto simp: nb rbt_br bh_br)
        then obtain S2 where S2: "adjustLeave S1 p (cpar k) = Some S2" "good S2 [] (fixD k ?t)"
          "chg S1 S2 (set (addrs (plug k ?t)))"
          using "2.IH" [OF _ _ _ g1] t c True by (auto simp: nb)
        have "chg S S2 ?all" by (rule chg_trans' [OF S1(3) S2(3)]) (auto simp: nb)
        moreover have "adjustLeave S (rptr t) (Some p) = Some S2"
          using rt t n ws rn c cb True S1(1) m S2(1) by (subst adjustLeave.simps) simp
        ultimately show ?thesis using S2(2) t c True by (auto simp: nb)
      next
        case False
        obtain S3 where S3: "adjustLeave_tail S p b = Some S3" "good S3 k (tailD d cp p t nb)"
          "chg S S3 (set (addrs (plug k (br d cp t p nb))))"
          using adjustLeave_tail_good [OF g nb0] by (auto simp: nb)
        have "adjustLeave S (rptr t) (Some p) = Some S3"
          using rt t n ws rn c cb False S3(1) by (subst adjustLeave.simps) auto
        moreover have "fixD ((d, cp, p, nb) # k) t = plug k (tailD d cp p t nb)"
          using False t c by (auto simp: nb)
        ultimately show ?thesis using S3 by (auto simp: good_iff [of S3 k] simp del: fixD.simps)
      qed
    qed
  qed
qed

end
