(* ===== verification/Coslib_RBTree_Leave.thy ===== *)
theory Coslib_RBTree_Leave
  imports Coslib_RBTree_Remove
begin

text \<open>
  \<open>Node::leave\<close> and \<open>RBTree::remove\<close>: taking a node out of the pointer structure, first
  exchanging it with its predecessor when it has two children, and the resulting contract of
  \<open>remove\<close> on trees with pairwise different keys.
\<close>

section \<open>Taking subtrees off and putting them back\<close>

lemma good_sub_flagged: "good S k t \<Longrightarrow> A \<subseteq> set (addrs (plug k t)) \<Longrightarrow> flagged S A"
  by (auto simp: good_def flagged_def)

lemma nil_ok_chg: "chg S S' X \<Longrightarrow> nil_ok S \<Longrightarrow> nil_ok S'"
  by (auto simp: nil_ok_def chg_def)

lemma good_rep: "good S k t \<Longrightarrow> rep (rb_nodes S) (cpar k) t"
  by (simp add: good_def tree_at_def)

lemma good_nil: "good S k t \<Longrightarrow> nil_ok S"
  by (simp add: good_def)

lemma goodI:
  "rep (rb_nodes S) (cpar k) t \<Longrightarrow> repk (rb_nodes S) k (rptr t) \<Longrightarrow> distinct (addrs (plug k t)) \<Longrightarrow>
     rb_root S = root_ptr (plug k t) \<Longrightarrow> flagged S (set (addrs (plug k t))) \<Longrightarrow> nil_ok S \<Longrightarrow> good S k t"
  by (simp add: good_def tree_at_def)

lemma goodD:
  assumes "good S k t"
  shows "rep (rb_nodes S) (cpar k) t" "repk (rb_nodes S) k (rptr t)" "distinct (addrs (plug k t))"
    "rb_root S = root_ptr (plug k t)" "flagged S (set (addrs (plug k t)))" "nil_ok S"
  using assms by (auto simp: good_def tree_at_def)

lemma chg_good:
  assumes "good S k t" "chg S S' X" "X \<inter> set (addrs (plug k t)) \<subseteq> {}" "rb_root S' = rb_root S"
  shows "good S' k t"
proof (rule goodI)
  show "rep (rb_nodes S') (cpar k) t" by (rule chg_rep [OF assms(2) goodD(1) [OF assms(1)]]) (use assms(3) in auto)
  show "repk (rb_nodes S') k (rptr t)" by (rule chg_repk [OF assms(2) goodD(2) [OF assms(1)]]) (use assms(3) in auto)
  show "flagged S' (set (addrs (plug k t)))" by (rule chg_flagged [OF assms(2) goodD(5) [OF assms(1)]])
  show "nil_ok S'" by (rule nil_ok_chg [OF assms(2) goodD(6) [OF assms(1)]])
qed (use goodD [OF assms(1)] assms(4) in auto)

lemma chg_insert_nil: "chg S S' (insert nil_addr X) = chg S S' X"
  by (auto simp: chg_def)

lemma chg_same: "chg S S' X \<Longrightarrow> a \<notin> X \<Longrightarrow> rb_nodes S' a = rb_nodes S a"
  by (simp add: chg_def)

lemma detach_child_good:
  assumes g: "good S k (br s c u a v)"
  shows "\<exists>S'. detach_side S a s = Some (rptr u, S') \<and> good S' k (br s c Lf a v) \<and>
    rep (rb_nodes S') None u \<and> chg S S' {a, rptr u} \<and> rb_root S' = rb_root S"
proof -
  note gd = goodD [OF g]
  obtain S' where S': "detach_side S a s = Some (rptr u, S')" "rep (rb_nodes S') (cpar k) (br s c Lf a v)"
    "rep (rb_nodes S') None u" "chg S S' {a, rptr u}" "rb_root S' = rb_root S"
    using detach_side_rep [OF gd(1)] gd(3) by auto
  have ru: "rptr u \<in> insert nil_addr (set (addrs u))" by (cases u) auto
  have "good S' k (br s c Lf a v)"
  proof (rule goodI)
    show "repk (rb_nodes S') k (rptr (br s c Lf a v))"
    proof -
      have "repk (rb_nodes S) k a" using gd(2) by simp
      from chg_repk [OF S'(4) this] show ?thesis using gd(3) ru repk_not_nil [OF gd(2)] by auto
    qed
    show "flagged S' (set (addrs (plug k (br s c Lf a v))))"
      by (rule chg_flagged [OF S'(4) good_sub_flagged [OF g]]) auto
    show "rb_root S' = root_ptr (plug k (br s c Lf a v))"
      using rptr_plug [of "br s c Lf a v" "br s c u a v" k] S'(5) gd(4) by (simp add: root_ptr_def)
  qed (use S' gd nil_ok_chg in auto)
  with S' show ?thesis by blast
qed

lemma rb_detach_good:
  assumes "good S ((d, cp, p, w) # k) t" "t \<noteq> Lf" "detach_side S p d = Some (rptr t, S')"
  shows "rb_detach S p (rptr t) = Some (Some (rptr t), S')"
proof -
  obtain n where "rb_nodes S p = Some n" "rb_link n d = Some (rptr t)"
    "rb_link n (otherSide d) = Some (rptr w)" using good_frame_node [OF assms(1)] by blast
  with good_rptr_neq [OF assms(1)] assms(2,3) show ?thesis
    by (cases d) (auto simp: rb_detach_def)
qed

text \<open>Take the subtree \<open>t\<close> off its parent; at the root the tree becomes empty.\<close>

definition take_off :: "'o rbtree \<Rightarrow> nat option \<Rightarrow> nat \<Rightarrow> 'o rbtree option" where
  "take_off S par a =
     (case par of
        Some p \<Rightarrow> do { (_, S) \<leftarrow> rb_detach S p a; Some S }
      | None \<Rightarrow> set_root S a None)"

lemma take_off_good:
  assumes g: "good S k t" and t: "t \<noteq> Lf"
  shows "\<exists>S'. take_off S (cpar k) (rptr t) = Some S' \<and> good S' k Lf \<and> rep (rb_nodes S') None t \<and>
    chg S S' ({rptr t} \<union> set_option (cpar k))"
proof (cases k)
  case Nil
  let ?S = "S\<lparr>rb_root := None\<rparr>"
  obtain n where "rb_nodes S (rptr t) = Some n" "rb_tree n" using good_node_of [OF g t] by blast
  then have "take_off S (cpar k) (rptr t) = Some ?S" by (simp add: take_off_def Nil set_root_def)
  moreover have "good ?S k Lf"
    using goodD(6) [OF g] by (simp add: Nil good_def tree_at_def root_ptr_def flagged_def nil_ok_def)
  moreover have "rep (rb_nodes ?S) None t" using goodD(1) [OF g] by (simp add: Nil)
  ultimately show ?thesis by simp
next
  case (Cons fr k')
  obtain d cp p w where fr: "fr = (d, cp, p, w)" by (cases fr) auto
  note gd = goodD [OF g]
  have dis: "set (addrs t) \<inter> set (kaddrs k) = {}" "distinct (addrs t)" "distinct (kaddrs k)"
    using gd(3) by auto
  obtain S' where S': "detach_side S p d = Some (rptr t, S')" "repk (rb_nodes S') k nil_addr"
    "rep (rb_nodes S') None t" "chg S S' {p, rptr t}" "rb_root S' = rb_root S"
    using kdetach_rep [of S d cp p w k' t "cpar k"] gd(1,2) dis t unfolding Cons fr by auto
  have "rb_detach S p (rptr t) = Some (Some (rptr t), S')"
    using rb_detach_good g t S'(1) unfolding Cons fr by blast
  then have "take_off S (cpar k) (rptr t) = Some S'" by (simp add: take_off_def Cons fr)
  moreover have "good S' k Lf"
  proof (rule goodI)
    show "flagged S' (set (addrs (plug k Lf)))"
      by (rule chg_flagged [OF S'(4) good_sub_flagged [OF g]]) auto
    show "rb_root S' = root_ptr (plug k Lf)" using S'(5) gd(4) root_ptr_Cons unfolding Cons by metis
    show "nil_ok S'" by (rule nil_ok_chg [OF S'(4) gd(6)])
  qed (use S' dis in auto)
  moreover have "{p, rptr t} = {rptr t} \<union> set_option (cpar k)" by (auto simp: Cons fr)
  ultimately show ?thesis using S' by auto
qed

text \<open>Put a subtree under a parent, on the side its key asks for; at the root it becomes the tree.\<close>

definition put_on :: "'o rbtree \<Rightarrow> nat option \<Rightarrow> nat \<Rightarrow> nat \<Rightarrow> 'o rbtree option" where
  "put_on S par this a =
     (case par of Some p \<Rightarrow> attach S p a | None \<Rightarrow> set_root S this (Some a))"

lemma attach_side_eq:
  assumes "nil_ok S" "rep (rb_nodes S) q t" "rb_nodes S p = Some m"
    "t \<noteq> Lf \<Longrightarrow> keyof S (rptr t) < keyof S p \<longleftrightarrow> d = LEFT"
  shows "\<exists>d'. attach S p (rptr t) = attach_side S p d' (rptr t) \<and> (t \<noteq> Lf \<longrightarrow> d' = d)"
proof -
  obtain n where "rb_nodes S (rptr t) = Some n"
    using assms(1,2) by (cases t) (auto simp: nil_ok_def split: option.splits)
  with assms show ?thesis by (cases d) (auto simp: attach_def keyof_def)
qed

lemma put_on_good:
  assumes g: "good S k Lf" and r: "rep (rb_nodes S) None t" "distinct (addrs t)"
    "set (addrs t) \<inter> set (kaddrs k) = {}" "flagged S (set (addrs t))" and t: "t \<noteq> Lf"
    and fl: "flagged S {this}"
    and key: "\<And>d cp p w k'. k = (d, cp, p, w) # k' \<Longrightarrow> keyof S (rptr t) < keyof S p \<longleftrightarrow> d = LEFT"
  shows "\<exists>S'. put_on S (cpar k) this (rptr t) = Some S' \<and> good S' k t \<and>
    chg S S' ({rptr t} \<union> set_option (cpar k))"
proof (cases k)
  case Nil
  let ?S = "S\<lparr>rb_root := Some (rptr t)\<rparr>"
  have "put_on S (cpar k) this (rptr t) = Some ?S"
    using fl by (auto simp: put_on_def Nil set_root_def flagged_def)
  moreover have "good ?S k t"
    using r goodD(6) [OF g] t by (auto simp: Nil good_def tree_at_def root_ptr_def flagged_def nil_ok_def)
  ultimately show ?thesis by auto
next
  case (Cons fr k')
  obtain d cp p w where fr: "fr = (d, cp, p, w)" by (cases fr) auto
  note gd = goodD [OF g]
  have k: "repk (rb_nodes S) ((d, cp, p, w) # k') nil_addr" "distinct (kaddrs ((d, cp, p, w) # k'))"
    "set (addrs t) \<inter> set (kaddrs ((d, cp, p, w) # k')) = {}"
    using gd(2,3) r(3) by (auto simp: Cons fr)
  obtain m where m: "rb_nodes S p = Some m" using good_frame_node g unfolding Cons fr by blast
  obtain S' where S': "attach_side S p d (rptr t) = Some S'" "repk (rb_nodes S') k (rptr t)"
    "rep (rb_nodes S') (Some p) t" "chg S S' {p, rptr t}" "rb_root S' = rb_root S"
    using kattach_rep [OF k(1) r(1,2) k(3,2)] unfolding Cons fr by blast
  have "attach S p (rptr t) = attach_side S p d (rptr t)"
    using attach_side_eq [OF gd(6) r(1) m] key Cons fr t by blast
  then have "put_on S (cpar k) this (rptr t) = Some S'" using S'(1) by (simp add: put_on_def Cons fr)
  moreover have "good S' k t"
  proof (rule goodI)
    have "flagged S (set (addrs (plug k t)))" using r(4) gd(5) by (auto simp: flagged_def)
    then show "flagged S' (set (addrs (plug k t)))" by (rule chg_flagged [OF S'(4)])
    show "rb_root S' = root_ptr (plug k t)" using S'(5) gd(4) root_ptr_Cons unfolding Cons by metis
    show "nil_ok S'" by (rule nil_ok_chg [OF S'(4) gd(6)])
  qed (use S' r gd(3) in \<open>auto simp: Cons fr\<close>)
  moreover have "{p, rptr t} = {rptr t} \<union> set_option (cpar k)" by (auto simp: Cons fr)
  ultimately show ?thesis using S' by auto
qed

section \<open>Leaving with at most one child\<close>

lemma rbt_plug_parts:
  assumes "rbt (plug k t)" "col (plug k t) = BLACK"
  shows "rbt t" "kok k (bh t)" "col t = RED \<Longrightarrow> kcol k = BLACK"
  using rbt_plug [of k t] assms by auto

lemma loose_node:
  "rep h q (br s c Lf a Lf) \<Longrightarrow> \<exists>n. h a = Some n \<and> rb_color n = c \<and> rb_parent n = q"
  by (auto simp: rep_br)

lemma leave_none_good:
  assumes g: "good S k (br s c Lf a Lf)" and rb: "rbt (plug k (br s c Lf a Lf))" "col (plug k (br s c Lf a Lf)) = BLACK"
  shows "\<exists>S' t'. leave S a = Some S' \<and> good S' [] t' \<and> addrs t' = addrs (plug k Lf) \<and> rbt t' \<and>
    col t' = BLACK \<and> chg S S' (set (addrs (plug k (br s c Lf a Lf)))) \<and>
    (\<exists>n. rb_nodes S' a = Some n \<and> rb_parent n = None)"
proof -
  let ?all = "set (addrs (plug k (br s c Lf a Lf)))"
  obtain n where n: "rb_nodes S a = Some n" "rb_parent n = cpar k" "rb_link n s = Some nil_addr"
    "rb_link n (otherSide s) = Some nil_addr" using good_node [OF g] by auto
  then have nl: "rb_link n LEFT = Some nil_addr" "rb_link n RIGHT = Some nil_addr" by (cases s; auto)+
  obtain S1 where S1: "take_off S (cpar k) a = Some S1" "good S1 k Lf"
    "rep (rb_nodes S1) None (br s c Lf a Lf)" "chg S S1 ({a} \<union> set_option (cpar k))"
    using take_off_good [OF g] by auto
  have kp: "set_option (cpar k) \<subseteq> set (kaddrs k)" by (cases k rule: cpar.cases) auto
  have c1: "chg S S1 ?all" by (rule chg_mono [OF S1(4)]) (use kp in auto)
  obtain n1 where n1: "rb_nodes S1 a = Some n1" "rb_color n1 = c" "rb_parent n1 = None"
    using loose_node [OF S1(3)] by blast
  note parts = rbt_plug_parts [OF rb]
  show ?thesis
  proof (cases k)
    case Nil
    have "leave S a = Some S1"
      using n nl S1(1) by (subst leave.simps) (simp add: Nil take_off_def)
    then show ?thesis using S1(2) c1 n1 Nil by (intro exI [of _ S1] exI [of _ Lf]) auto
  next
    case (Cons fr k')
    obtain d cp p w where fr: "fr = (d, cp, p, w)" by (cases fr) auto
    obtain x where det: "rb_detach S p a = Some (x, S1)"
      using S1(1) by (cases "rb_detach S p a") (auto simp: take_off_def Cons fr)
    have ws: "whichSide S p a = Some d"
      using whichSide_good [of S d cp p w k' "br s c Lf a Lf"] g by (simp add: Cons fr)
    have lv: "leave S a = (if c = BLACK then adjustLeave S1 nil_addr (cpar k) else Some S1)"
    proof -
      obtain m where "rb_nodes S1 p = Some m" "rb_link m d = Some nil_addr"
        using good_frame_node [OF S1(2) [unfolded Cons fr]] by auto
      then show ?thesis
        using n nl ws det n1 by (subst leave.simps) (simp add: Cons fr isBlack_def)
    qed
    show ?thesis
    proof (cases "c = BLACK")
      case True
      have kk: "kok k (bh Lf + 1)" using parts(2) True by (cases s) auto
      obtain S2 where S2: "adjustLeave S1 nil_addr (cpar k) = Some S2" "good S2 [] (fixD k Lf)"
        "chg S1 S2 (set (addrs (plug k Lf)))"
        using adjustLeave_good [OF S1(2) _ kk] Cons by auto
      have "rb_nodes S2 a = Some n1"
        using S2(3) n1(1) good_distinct [OF g] by (auto simp: chg_def)
      moreover have "chg S S2 ?all" by (rule chg_trans' [OF c1 S2(3)]) auto
      ultimately show ?thesis
        using lv True S2 fixD_addrs [OF _ kk] fixD_rbt [OF _ kk] n1 by auto
    next
      case False
      then have "rbt (plug k Lf)" "col (plug k Lf) = BLACK"
        using rbt_plug [of k Lf] parts by (cases s; auto)+
      then show ?thesis
        using lv False S1(2) c1 n1 by (auto simp: good_iff [of S1 k])
    qed
  qed
qed

lemma leave_one_good:
  assumes g: "good S k (br s c u a Lf)" and u: "u \<noteq> Lf"
    and rb: "rbt (plug k (br s c u a Lf))" "col (plug k (br s c u a Lf)) = BLACK"
    and key: "\<And>d cp p w k'. k = (d, cp, p, w) # k' \<Longrightarrow> keyof S (rptr u) < keyof S p \<longleftrightarrow> d = LEFT"
  shows "\<exists>S' t'. leave S a = Some S' \<and> good S' [] t' \<and> addrs t' = addrs (plug k u) \<and> rbt t' \<and>
    col t' = BLACK \<and> chg S S' (set (addrs (plug k (br s c u a Lf)))) \<and>
    (\<exists>n. rb_nodes S' a = Some n \<and> rb_parent n = None)"
proof -
  let ?all = "set (addrs (plug k (br s c u a Lf)))"
  note parts = rbt_plug_parts [OF rb]
  have rn: "rptr u \<noteq> nil_addr" using good_node_of [OF good_child(1) [OF g] u] by blast
  have ur: "rptr u \<in> set (addrs u)" by (rule rptr_in_addrs [OF u])
  note dis = good_distinct [OF g]
  have c: "c = BLACK" "bh u = 0" "rbt u"
  proof -
    have b: "rbt (br s c u a Lf)" by (rule parts(1))
    then show bu: "bh u = 0" and "rbt u" by (simp_all add: rbt_br)
    have "col u = RED" using bu u by (cases u) (auto split: if_splits)
    then show "c = BLACK" using b by (simp add: rbt_br)
  qed
  have kk: "kok k (bh u + 1)" using parts(2) c by (simp add: bh_br)
  obtain n where n: "rb_nodes S a = Some n" "rb_parent n = cpar k" "rb_link n s = Some (rptr u)"
    "rb_link n (otherSide s) = Some nil_addr" using good_node [OF g] by auto
  have kp: "set_option (cpar k) \<subseteq> set (kaddrs k)" by (cases k rule: cpar.cases) auto
  obtain S1 where S1: "detach_side S a s = Some (rptr u, S1)" "good S1 k (br s c Lf a Lf)"
    "rep (rb_nodes S1) None u" "chg S S1 {a, rptr u}"
    using detach_child_good [OF g] by auto
  obtain S2 where S2: "take_off S1 (cpar k) a = Some S2" "good S2 k Lf"
    "rep (rb_nodes S2) None (br s c Lf a Lf)" "chg S1 S2 ({a} \<union> set_option (cpar k))"
    using take_off_good [OF S1(2)] by auto
  have c2: "chg S S2 ?all" by (rule chg_trans' [OF S1(4) S2(4)]) (use kp ur in auto)
  have u2: "rep (rb_nodes S2) None u" by (rule chg_rep [OF S2(4) S1(3)]) (use dis kp in auto)
  obtain n2 where n2: "rb_nodes S2 a = Some n2" "rb_color n2 = c" "rb_parent n2 = None"
    using loose_node [OF S2(3)] by blast
  have fl: "flagged S2 (set (addrs u))" "flagged S2 {a}"
    by (rule chg_flagged [OF c2 good_sub_flagged [OF g]]; auto)+
  have keys: "keyof S2 = keyof S" by (rule same_data_keyof [OF chg_same_data [OF c2]])
  obtain S3 where S3: "put_on S2 (cpar k) a (rptr u) = Some S3" "good S3 k u"
    "chg S2 S3 ({rptr u} \<union> set_option (cpar k))"
    using put_on_good [OF S2(2) u2 _ _ fl(1) u fl(2)] key dis unfolding keys by auto
  have "a \<notin> {rptr u} \<union> set_option (cpar k)" using dis ur kp by auto
  then have n3: "rb_nodes S3 a = Some n2" using chg_same [OF S3(3)] n2(1) by metis
  obtain S4 where S4: "adjustLeave S3 (rptr u) (cpar k) = Some S4" "good S4 [] (fixD k u)"
    "chg S3 S4 (set (addrs (plug k u)))"
    using adjustLeave_good [OF S3(2) c(3) kk] u by blast
  have n4: "rb_nodes S4 a = Some n2" using S4(3) n3 dis by (auto simp: chg_def)
  have "leave S a = Some S4"
  proof (cases "cpar k")
    case None
    have "set_root S1 a (Some (rptr u)) = Some S3"
      using S2(1) S3(1) by (cases "rb_nodes S1 a") (auto simp: take_off_def put_on_def None set_root_def split: if_splits)
    then show ?thesis
      using n n3 S1(1) S4(1) rn c n2 by (cases s) (subst leave.simps; simp add: None isBlack_def)+
  next
    case (Some p)
    obtain x where "rb_detach S1 p a = Some (x, S2)" "attach S2 p (rptr u) = Some S3"
      using S2(1) S3(1) by (cases "rb_detach S1 p a") (auto simp: take_off_def put_on_def Some)
    then show ?thesis
      using n n3 S1(1) S4(1) rn c n2 by (cases s) (subst leave.simps; simp add: Some isBlack_def)+
  qed
  moreover have "chg S S4 ?all"
    by (rule chg_trans' [OF chg_trans [OF c2 S3(3)] S4(3)]) (use kp ur in auto)
  ultimately show ?thesis
    using S4(2) n4 n2 fixD_addrs [OF c(3) kk] fixD_rbt [OF c(3) kk] by auto
qed

section \<open>Exchanging with the predecessor\<close>

lemma kr_append: "kr (k @ k') = kr k @ kr k'"
  by (induction k rule: kr.induct) auto

lemma kl_append: "kl (k @ k') = kl k' @ kl k"
  by (induction k rule: kl.induct) auto

lemma searchMax_good:
  "good S k t \<Longrightarrow> t \<noteq> Lf \<Longrightarrow>
     \<exists>km cm ml m. t = plug km (Br cm ml m Lf) \<and> kr km = [] \<and> searchMax S (rptr t) = Some m"
proof (induction t arbitrary: k)
  case (Br c l a r)
  have "good S k (br LEFT c l a r)" using Br.prems(1) by simp
  from good_node [OF this] obtain n where n: "rb_nodes S a = Some n" "rb_link n RIGHT = Some (rptr r)"
    by auto
  show ?case
  proof (cases "r = Lf")
    case True
    then have "searchMax S a = Some a" using n by (subst searchMax.simps) simp
    then show ?thesis using True by (intro exI [of _ "[]"]) simp
  next
    case False
    have g: "good S ((RIGHT, c, a, l) # k) r" using Br.prems(1) by (simp add: good_up)
    have rn: "rptr r \<noteq> nil_addr" using good_node_of [OF g False] by blast
    obtain km cm ml m where IH: "r = plug km (Br cm ml m Lf)" "kr km = []" "searchMax S (rptr r) = Some m"
      using Br.IH(2) [OF g False] by blast
    have "searchMax S a = Some m" using n rn IH(3) by (subst searchMax.simps) simp
    moreover have "Br c l a r = plug (km @ [(RIGHT, c, a, l)]) (Br cm ml m Lf)"
      by (simp add: plug_append IH(1))
    moreover have "kr (km @ [(RIGHT, c, a, l)]) = []" by (simp add: kr_append IH(2))
    ultimately show ?thesis unfolding rptr.simps by blast
  qed
qed simp

lemma rptr_plug_in: "rptr (plug (f # k) t) \<in> set (kaddrs (f # k))"
proof (induction k arbitrary: f t)
  case Nil
  show ?case by (cases f) simp
next
  case (Cons g k)
  obtain d c a u where f: "f = (d, c, a, u)" by (cases f) auto
  show ?case using Cons.IH [of g "br d c t a u"] by (auto simp: f)
qed

text \<open>The part of \<open>leave\<close> that hangs the node at the place of its predecessor \<open>m\<close> and links \<open>m\<close>
  to the two subtrees.\<close>

definition relink :: "'o rbtree \<Rightarrow> nat option \<Rightarrow> nat \<Rightarrow> nat \<Rightarrow> nat \<Rightarrow> nat \<Rightarrow> 'o rbtree option" where
  "relink S mpar m cLeft cRight this =
     (if m \<noteq> cLeft then do {
        mParent \<leftarrow> mpar;
        (_, S) \<leftarrow> rb_detach S mParent m;
        S \<leftarrow> attach S mParent this;
        S \<leftarrow> attach_side S m LEFT cLeft;
        attach_side S m RIGHT cRight }
      else do {
        S \<leftarrow> attach_side S m RIGHT cRight;
        attach_side S m LEFT this })"

lemma relink_direct:
  assumes "nil_ok S" and m: "rep (rb_nodes S) q (Br cm Lf m Lf)" and a: "rep (rb_nodes S) None t"
    and r: "rep (rb_nodes S) None r" and dis: "distinct (addrs (Br cm t m r))"
  shows "\<exists>S'. relink S mpar m m (rptr r) (rptr t) = Some S' \<and> rep (rb_nodes S') q (Br cm t m r) \<and>
    chg S S' {m, rptr r, rptr t} \<and> rb_root S' = rb_root S"
proof -
  obtain S1 where S1: "attach_side S m RIGHT (rptr r) = Some S1" "rep (rb_nodes S1) q (br RIGHT cm r m Lf)"
    "chg S S1 {m, rptr r}" "rb_root S1 = rb_root S"
    using attach_side_rep [of S q RIGHT cm Lf m Lf None r] m r dis by auto
  have rr: "rptr r \<in> insert nil_addr (set (addrs r))" by (cases r) auto
  have "rep (rb_nodes S1) None t"
    by (rule chg_rep [OF S1(3) a]) (use dis rr rep_not_nil [OF a] in auto)
  from attach_side_rep [of S1 q LEFT cm Lf m r None t] this S1(2) dis obtain S2 where
    S2: "attach_side S1 m LEFT (rptr t) = Some S2" "rep (rb_nodes S2) q (Br cm t m r)"
    "chg S1 S2 {m, rptr t}" "rb_root S2 = rb_root S1" by auto
  have "chg S S2 {m, rptr r, rptr t}" by (rule chg_trans' [OF S1(3) S2(3)]) auto
  then show ?thesis using S1 S2 by (auto simp: relink_def)
qed

lemma relink_far:
  assumes nil: "nil_ok S" and l: "rep (rb_nodes S) None (plug ((RIGHT, cp, p, w) # km) (Br cm Lf m Lf))"
    and a: "rep (rb_nodes S) None t" "t \<noteq> Lf" and r: "rep (rb_nodes S) None r"
    and dis: "distinct (addrs (Br cm (plug ((RIGHT, cp, p, w) # km) t) m r))"
    and key: "keyof S p < keyof S (rptr t)"
    and cl: "cLeft = rptr (plug ((RIGHT, cp, p, w) # km) (Br cm Lf m Lf))"
  shows "\<exists>S'. relink S (Some p) m cLeft (rptr r) (rptr t) = Some S' \<and>
    rep (rb_nodes S') None (Br cm (plug ((RIGHT, cp, p, w) # km) t) m r) \<and>
    chg S S' (set (addrs (Br cm (plug ((RIGHT, cp, p, w) # km) t) m r))) \<and> rb_root S' = rb_root S"
proof -
  let ?k = "(RIGHT, cp, p, w) # km"
  have lm: "rep (rb_nodes S) (cpar ?k) (Br cm Lf m Lf)" "repk (rb_nodes S) ?k m"
    using l rep_plug [of "rb_nodes S" ?k "Br cm Lf m Lf"] by (auto simp del: plug.simps repk.simps)
  have d: "set (addrs (Br cm Lf m Lf)) \<inter> set (kaddrs ?k) = {}" "distinct (kaddrs ?k)"
    "set (addrs t) \<inter> set (kaddrs ?k) = {}" "distinct (addrs t)" "m \<notin> set (addrs t)"
    "m \<notin> set (kaddrs ?k)" "set (addrs r) \<inter> set (kaddrs ?k) = {}"
    "set (addrs r) \<inter> set (addrs t) = {}" "m \<notin> set (addrs r)" "distinct (addrs r)"
    using dis by auto
  have rm: "repk (rb_nodes S) ?k (rptr (Br cm Lf m Lf))" using lm(2) by simp
  obtain S1 where S1: "detach_side S p RIGHT = Some (m, S1)" "repk (rb_nodes S1) ?k nil_addr"
    "rep (rb_nodes S1) None (Br cm Lf m Lf)" "chg S S1 {p, m}" "rb_root S1 = rb_root S"
    using kdetach_rep [OF rm lm(1) _ d(1,2)] by auto
  have det: "rb_detach S p m = Some (Some m, S1)"
  proof -
    obtain n where "rb_nodes S p = Some n" "rb_link n RIGHT = Some m"
      using lm(2) by (auto split: option.splits)
    then show ?thesis using S1(1) by (simp add: rb_detach_def)
  qed
  have a1: "rep (rb_nodes S1) None t" by (rule chg_rep [OF S1(4) a(1)]) (use d in auto)
  obtain S2 where S2: "attach_side S1 p RIGHT (rptr t) = Some S2" "repk (rb_nodes S2) ?k (rptr t)"
    "rep (rb_nodes S2) (Some p) t" "chg S1 S2 {p, rptr t}" "rb_root S2 = rb_root S1"
    using kattach_rep [OF S1(2) a1 d(4,3,2)] by blast
  have at: "attach S1 p (rptr t) = Some S2"
  proof -
    obtain m' where "rb_nodes S1 p = Some m'" using S1(2) by (auto split: option.splits)
    moreover have "keyof S1 = keyof S" by (rule same_data_keyof [OF chg_same_data [OF S1(4)]])
    ultimately show ?thesis
      using attach_side_eq [OF nil_ok_chg [OF S1(4) nil] a1, of p m' RIGHT] key S2(1) a(2) by auto
  qed
  have l2: "rep (rb_nodes S2) None (plug ?k t)"
    using S2(2,3) rep_plug [of "rb_nodes S2" ?k t] by (simp del: plug.simps repk.simps)
  have ta: "rptr t \<in> set (addrs t)" by (rule rptr_in_addrs [OF a(2)])
  have m2: "rep (rb_nodes S2) None (Br cm Lf m Lf)"
    by (rule chg_rep [OF S2(4) S1(3)]) (use d ta in auto)
  have cl': "cLeft = rptr (plug ?k t)"
    using root_ptr_Cons [of "(RIGHT, cp, p, w)" km t "Br cm Lf m Lf"] cl
    by (simp add: root_ptr_def del: plug.simps)
  have nl: "m \<noteq> cLeft" using rptr_plug_in [of "(RIGHT, cp, p, w)" km t] d(6) cl' by auto
  have d2: "distinct (addrs (br LEFT cm (plug ?k t) m Lf))" using dis by simp
  obtain S3 where S3: "attach_side S2 m LEFT cLeft = Some S3" "rep (rb_nodes S3) None (Br cm (plug ?k t) m Lf)"
    "chg S2 S3 {m, cLeft}" "rb_root S3 = rb_root S2"
    using attach_side_rep [of S2 None LEFT cm Lf m Lf None "plug ?k t"] m2 l2 d2 cl' by (auto simp del: plug.simps)
  have clin: "cLeft \<in> set (kaddrs ?k)" using rptr_plug_in cl' by metis
  have r3: "rep (rb_nodes S3) None r"
    by (rule chg_rep [OF S3(3) chg_rep [OF S2(4) chg_rep [OF S1(4) r]]]) (use d ta clin in auto)
  obtain S4 where S4: "attach_side S3 m RIGHT (rptr r) = Some S4"
    "rep (rb_nodes S4) None (br RIGHT cm r m (plug ?k t))" "chg S3 S4 {m, rptr r}" "rb_root S4 = rb_root S3"
    using attach_side_rep [of S3 None RIGHT cm Lf m "plug ?k t" None r] S3(2) r3 dis
    by (auto simp del: plug.simps)
  have rr: "rptr r \<in> insert nil_addr (set (addrs r))" by (cases r) auto
  have "chg S S4 (insert nil_addr (set (addrs (Br cm (plug ?k t) m r))))"
    by (rule chg_trans' [OF chg_trans [OF chg_trans [OF S1(4) S2(4)] S3(3)] S4(3)])
      (use ta clin rr in auto)
  then have "chg S S4 (set (addrs (Br cm (plug ?k t) m r)))" by (auto simp: chg_def)
  moreover have "relink S (Some p) m cLeft (rptr r) (rptr t) = Some S4"
    using nl det at S3(1) S4(1) by (simp add: relink_def)
  ultimately show ?thesis using S1(5) S2(5) S3(4) S4 by auto
qed

lemma attach_sub_good:
  assumes g: "good S k (br d c Lf a v)" and u: "rep (rb_nodes S) None u" "flagged S (set (addrs u))"
    and dis: "distinct (addrs (plug k (br d c u a v)))"
  shows "\<exists>S'. attach_side S a d (rptr u) = Some S' \<and> good S' k (br d c u a v) \<and>
    chg S S' {a, rptr u} \<and> rb_root S' = rb_root S"
proof -
  note gd = goodD [OF g]
  obtain S' where S': "attach_side S a d (rptr u) = Some S'" "rep (rb_nodes S') (cpar k) (br d c u a v)"
    "chg S S' {a, rptr u}" "rb_root S' = rb_root S"
    using attach_side_rep [OF gd(1) u(1)] dis by auto
  have ru: "rptr u \<in> insert nil_addr (set (addrs u))" by (cases u) auto
  have "good S' k (br d c u a v)"
  proof (rule goodI)
    have "repk (rb_nodes S) k a" using gd(2) by simp
    then show "repk (rb_nodes S') k (rptr (br d c u a v))"
      using chg_repk [OF S'(3)] dis ru repk_not_nil [OF gd(2)] by auto
    have "flagged S (set (addrs (plug k (br d c u a v))))" using gd(5) u(2) by (auto simp: flagged_def)
    then show "flagged S' (set (addrs (plug k (br d c u a v))))" by (rule chg_flagged [OF S'(3)])
    show "rb_root S' = root_ptr (plug k (br d c u a v))"
      using rptr_plug [of "br d c u a v" "br d c Lf a v" k] S'(4) gd(4) by (simp add: root_ptr_def)
    show "nil_ok S'" by (rule nil_ok_chg [OF S'(3) gd(6)])
  qed (use S' dis in auto)
  with S' show ?thesis by blast
qed

text \<open>Up to the point where the node hangs in the air with the left subtree of its predecessor.\<close>

lemma exchange_unlink:
  assumes g: "good S k (Br c (plug km (Br cm ml m Lf)) a r)"
    and key: "\<And>x. x \<in> set (addrs ml) \<Longrightarrow> keyof S x < keyof S a"
  shows "\<exists>S1 S2 S3 S4 S5. detach_side S a LEFT = Some (rptr (plug km (Br cm ml m Lf)), S1) \<and>
    detach_side S1 a RIGHT = Some (rptr r, S2) \<and> detach_side S2 m LEFT = Some (rptr ml, S3) \<and>
    attach S3 a (rptr ml) = Some S4 \<and> take_off S4 (cpar k) a = Some S5 \<and>
    good S5 k Lf \<and> rep (rb_nodes S5) None (Br c ml a Lf) \<and>
    rep (rb_nodes S5) None (plug km (Br cm Lf m Lf)) \<and> rep (rb_nodes S5) None r \<and>
    chg S S5 (set (addrs (plug k (Br c (plug km (Br cm ml m Lf)) a r))))"
proof -
  let ?l = "plug km (Br cm ml m Lf)" and ?all = "set (addrs (plug k (Br c (plug km (Br cm ml m Lf)) a r)))"
  note dis = good_distinct [OF g]
  have nn: "nil_addr \<notin> ?all" by (rule good_not_nil [OF g])
  have rin: "\<And>t. rptr t \<in> insert nil_addr (set (addrs t))" by (metis insertCI rptr.simps(1) rptr_in_addrs)
  have g0: "good S k (br LEFT c ?l a r)" using g by simp
  obtain S1 where S1: "detach_side S a LEFT = Some (rptr ?l, S1)" "good S1 k (Br c Lf a r)"
    "rep (rb_nodes S1) None ?l" "chg S S1 {a, rptr ?l}"
    using detach_child_good [OF g0] by auto
  have g1: "good S1 k (br RIGHT c r a Lf)" using S1(2) by simp
  obtain S2 where S2: "detach_side S1 a RIGHT = Some (rptr r, S2)" "good S2 k (Br c Lf a Lf)"
    "rep (rb_nodes S2) None r" "chg S1 S2 {a, rptr r}"
    using detach_child_good [OF g1] by auto
  have l2: "rep (rb_nodes S2) None ?l"
    by (rule chg_rep [OF S2(4) S1(3)]) (use dis nn rin [of r] in auto)
  then have m2: "rep (rb_nodes S2) (cpar km) (br LEFT cm ml m Lf)" "repk (rb_nodes S2) km m"
    by (simp_all add: rep_plug)
  obtain S3 where S3: "detach_side S2 m LEFT = Some (rptr ml, S3)" "rep (rb_nodes S3) (cpar km) (Br cm Lf m Lf)"
    "rep (rb_nodes S3) None ml" "chg S2 S3 {m, rptr ml}" "rb_root S3 = rb_root S2"
    using detach_side_rep [OF m2(1)] dis by auto
  have "repk (rb_nodes S3) km m"
    by (rule chg_repk [OF S3(4) m2(2)]) (use dis nn rin [of ml] in auto)
  with S3(2) have l3: "rep (rb_nodes S3) None (plug km (Br cm Lf m Lf))" by (simp add: rep_plug)
  have r3: "rep (rb_nodes S3) None r"
    by (rule chg_rep [OF S3(4) S2(3)]) (use dis nn rin [of ml] in auto)
  have g3: "good S3 k (Br c Lf a Lf)"
    by (rule chg_good [OF S2(2) S3(4) _ S3(5)]) (use dis nn rin [of ml] in auto)
  have "chg S S3 (insert nil_addr ?all)"
    by (rule chg_trans' [OF chg_trans [OF S1(4) S2(4)] S3(4)]) (use rin [of ?l] rin [of r] rin [of ml] in auto)
  then have c3: "chg S S3 ?all" by (auto simp: chg_def)
  obtain n3 where n3: "rb_nodes S3 a = Some n3" using good_node [of S3 k LEFT c Lf a Lf] g3 by auto
  have keys: "keyof S3 = keyof S" by (rule same_data_keyof [OF chg_same_data [OF c3]])
  obtain d where d: "attach S3 a (rptr ml) = attach_side S3 a d (rptr ml)" "ml \<noteq> Lf \<longrightarrow> d = LEFT"
    using attach_side_eq [OF goodD(6) [OF g3] S3(3) n3, of LEFT] key rptr_in_addrs [of ml] keys by auto
  have t: "br d c ml a Lf = Br c ml a Lf" using d(2) by (cases d) auto
  have g3': "good S3 k (br d c Lf a Lf)" using g3 by (cases d) auto
  have f3: "flagged S3 (set (addrs ml))" by (rule chg_flagged [OF c3 good_sub_flagged [OF g]]) auto
  have "distinct (addrs (plug k (br d c ml a Lf)))" using dis by auto
  from attach_sub_good [OF g3' S3(3) f3 this] obtain S4 where
    S4: "attach S3 a (rptr ml) = Some S4" "good S4 k (Br c ml a Lf)" "chg S3 S4 {a, rptr ml}"
    unfolding d(1) t by blast
  obtain S5 where S5: "take_off S4 (cpar k) a = Some S5" "good S5 k Lf"
    "rep (rb_nodes S5) None (Br c ml a Lf)" "chg S4 S5 ({a} \<union> set_option (cpar k))"
    using take_off_good [OF S4(2)] by auto
  have kp: "set_option (cpar k) \<subseteq> set (kaddrs k)" by (cases k rule: cpar.cases) auto
  have c5: "chg S3 S5 (insert nil_addr (insert a (set (addrs ml) \<union> set (kaddrs k))))"
    by (rule chg_trans' [OF S4(3) S5(4)]) (use rin [of ml] kp in auto)
  then have c5': "chg S3 S5 (insert a (set (addrs ml) \<union> set (kaddrs k)))" by (auto simp: chg_def)
  have "rep (rb_nodes S5) None (plug km (Br cm Lf m Lf))"
    by (rule chg_rep [OF c5' l3]) (use dis in auto)
  moreover have "rep (rb_nodes S5) None r" by (rule chg_rep [OF c5' r3]) (use dis in auto)
  moreover have "chg S S5 ?all" by (rule chg_trans' [OF c3 c5']) auto
  ultimately show ?thesis using S1(1) S2(1) S3(1) S4(1) S5 by blast
qed

lemma swapColor_far_good:
  assumes g: "good S k (Br cm (plug km (Br c ml a Lf)) m r)"
  shows "\<exists>S'. swapColor S a m = Some S' \<and> good S' k (Br c (plug km (Br cm ml a Lf)) m r) \<and>
    chg S S' {a, m}"
proof -
  let ?k = "km @ (LEFT, cm, m, r) # k"
  have ga: "good S ?k (Br c ml a Lf)"
    using g by (simp add: good_iff [of S ?k] good_iff [of S k] plug_append)
  obtain n where n: "rb_nodes S a = Some n" "rb_color n = c" using good_node_of [OF ga] by auto
  obtain n' where n': "rb_nodes S m = Some n'" "rb_color n' = cm" using good_node_of [OF g] by auto
  obtain S1 where S1: "modify a (set_color cm) S = Some S1" "good S1 ?k (Br cm ml a Lf)" "chg S S1 {a}"
    using recolor_good [OF ga, of cm] by auto
  have g1: "good S1 k (Br cm (plug km (Br cm ml a Lf)) m r)"
    using S1(2) by (simp add: good_iff [of S1 ?k] good_iff [of S1 k] plug_append)
  obtain S2 where S2: "modify m (set_color c) S1 = Some S2" "good S2 k (Br c (plug km (Br cm ml a Lf)) m r)"
    "chg S1 S2 {m}" using recolor_good [OF g1, of c] by auto
  have "chg S S2 {a, m}" by (rule chg_trans' [OF S1(3) S2(3)]) auto
  with S1 S2 n n' show ?thesis by (auto simp: swapColor_modify)
qed

text \<open>Strictly increasing keys.\<close>

abbreviation key_sorted :: "(nat \<Rightarrow> int) \<Rightarrow> nat list \<Rightarrow> bool" where
  "key_sorted key \<equiv> sorted_wrt (\<lambda>x y. key x < key y)"

lemma frame_key:
  assumes "key_sorted key (addrs (plug ((d, cp, p, w) # k) t))" "x \<in> set (addrs t)"
  shows "key x < key p \<longleftrightarrow> d = LEFT"
proof (cases d)
  case LEFT
  then show ?thesis using assms by (auto simp: addrs_plug sorted_wrt_append)
next
  case RIGHT
  then have "key p < key x" using assms by (auto simp: addrs_plug sorted_wrt_append)
  with RIGHT show ?thesis by simp
qed

lemma leave_exchange:
  assumes g: "good S k (Br c (plug km (Br cm ml m Lf)) a r)" and r: "r \<noteq> Lf" and km: "kr km = []"
    and max: "searchMax S (rptr (plug km (Br cm ml m Lf))) = Some m"
    and ks: "key_sorted (keyof S) (addrs (plug k (Br c (plug km (Br cm ml m Lf)) a r)))"
  shows "\<exists>S'. leave S a = leave S' a \<and> good S' k (Br c (plug km (Br cm ml a Lf)) m r) \<and>
    chg S S' (set (addrs (plug k (Br c (plug km (Br cm ml m Lf)) a r))))"
proof -
  let ?l = "plug km (Br cm ml m Lf)" and ?all = "set (addrs (plug k (Br c (plug km (Br cm ml m Lf)) a r)))"
  let ?A = "Br c ml a Lf"
  let ?M = "Br cm (plug km ?A) m r"
  have keyl: "x \<in> set (addrs ?l) \<Longrightarrow> keyof S x < keyof S a" for x
    using ks by (auto simp: addrs_plug sorted_wrt_append simp del: set_addrs_plug)
  note dis = good_distinct [OF g]
  have nn: "nil_addr \<notin> ?all" by (rule good_not_nil [OF g])
  have rin: "\<And>t. rptr t \<in> insert nil_addr (set (addrs t))" by (metis insertCI rptr.simps(1) rptr_in_addrs)
  have "\<And>x. x \<in> set (addrs ml) \<Longrightarrow> keyof S x < keyof S a" using keyl by auto
  from exchange_unlink [OF g this] obtain S1 S2 S3 S4 S5 where
    S5: "detach_side S a LEFT = Some (rptr ?l, S1)" "detach_side S1 a RIGHT = Some (rptr r, S2)"
    "detach_side S2 m LEFT = Some (rptr ml, S3)" "attach S3 a (rptr ml) = Some S4"
    "take_off S4 (cpar k) a = Some S5" "good S5 k Lf" "rep (rb_nodes S5) None ?A"
    "rep (rb_nodes S5) None (plug km (Br cm Lf m Lf))" "rep (rb_nodes S5) None r" "chg S S5 ?all"
    by blast
  have keys: "keyof S5 = keyof S" by (rule same_data_keyof [OF chg_same_data [OF S5(10)]])
  have gm: "good S (km @ (LEFT, c, a, r) # k) (Br cm ml m Lf)"
    using g by (simp add: good_iff [of S "_ @ _"] good_iff [of S k] plug_append)
  obtain mn where mn: "rb_nodes S m = Some mn" "rb_parent mn = cpar (km @ (LEFT, c, a, r) # k)"
    using good_node_of [OF gm] by auto
  have dM: "distinct (addrs ?M)" using dis by auto
  have nil5: "nil_ok S5" by (rule goodD(6) [OF S5(6)])
  have "\<exists>S6. relink S5 (rb_parent mn) m (rptr ?l) (rptr r) a = Some S6 \<and> rep (rb_nodes S6) None ?M \<and>
      chg S5 S6 (insert nil_addr (set (addrs ?M))) \<and> rb_root S6 = rb_root S5"
  proof (cases km)
    case Nil
    have "rep (rb_nodes S5) None (Br cm Lf m Lf)" using S5(8) by (simp add: Nil)
    from relink_direct [OF nil5 this S5(7,9), of "rb_parent mn"] dM obtain S6 where
      S6: "relink S5 (rb_parent mn) m m (rptr r) a = Some S6" "rep (rb_nodes S6) None (Br cm ?A m r)"
      "chg S5 S6 {m, rptr r, a}" "rb_root S6 = rb_root S5" by (auto simp: Nil)
    moreover have "chg S5 S6 (insert nil_addr (set (addrs ?M)))"
      by (rule chg_mono [OF S6(3)]) (use rin [of r] in \<open>auto simp: Nil\<close>)
    ultimately show ?thesis by (simp add: Nil)
  next
    case (Cons fr km')
    obtain d cp p w where fr: "fr = (d, cp, p, w)" by (cases fr) auto
    have d: "d = RIGHT" using km by (cases d) (auto simp: Cons fr)
    have mp: "rb_parent mn = Some p" using mn by (simp add: Cons fr)
    have "keyof S5 p < keyof S5 (rptr ?A)" using keyl [of p] by (simp add: Cons fr keys)
    moreover have "rptr ?l = rptr (plug km (Br cm Lf m Lf))" by (rule rptr_plug) simp
    ultimately obtain S6 where "relink S5 (Some p) m (rptr ?l) (rptr r) (rptr ?A) = Some S6"
      "rep (rb_nodes S6) None ?M" "chg S5 S6 (set (addrs ?M))" "rb_root S6 = rb_root S5"
      using relink_far [OF nil5, of cp p w km' cm m ?A r "rptr ?l"] S5(7-9) dM
      unfolding Cons fr d by (auto simp del: plug.simps)
    then show ?thesis using chg_mono [of S5 S6 _ "insert nil_addr (set (addrs ?M))"] mp by auto
  qed
  then obtain S6 where S6: "relink S5 (rb_parent mn) m (rptr ?l) (rptr r) a = Some S6"
    "rep (rb_nodes S6) None ?M" "chg S5 S6 (set (addrs ?M))" "rb_root S6 = rb_root S5"
    unfolding chg_insert_nil by blast
  have g6: "good S6 k Lf" by (rule chg_good [OF S5(6) S6(3) _ S6(4)]) (use dis in auto)
  have c6: "chg S S6 ?all" by (rule chg_trans' [OF S5(10) S6(3)]) auto
  have keys6: "keyof S6 = keyof S" by (rule same_data_keyof [OF chg_same_data [OF c6]])
  have fl: "flagged S6 (set (addrs ?M))" "flagged S6 {a}"
    by (rule chg_flagged [OF c6 good_sub_flagged [OF g]]; auto)+
  have kd: "set (addrs ?M) \<inter> set (kaddrs k) = {}" using dis by auto
  have kk: "keyof S6 (rptr ?M) < keyof S6 p \<longleftrightarrow> d = LEFT" if "k = (d, cp, p, w) # k'" for d cp p w k'
    using frame_key [OF ks [unfolded that], of m] by (simp add: keys6)
  have "\<exists>S7. put_on S6 (cpar k) a (rptr ?M) = Some S7 \<and> good S7 k ?M \<and>
      chg S6 S7 ({rptr ?M} \<union> set_option (cpar k))"
    by (rule put_on_good [OF g6 S6(2) dM kd fl(1) _ fl(2)]) (simp, rule kk)
  then obtain S7 where S7: "put_on S6 (cpar k) a m = Some S7" "good S7 k ?M"
    "chg S6 S7 ({m} \<union> set_option (cpar k))"
    unfolding rptr.simps by blast
  have kp: "set_option (cpar k) \<subseteq> set (kaddrs k)" by (cases k rule: cpar.cases) auto
  obtain S8 where S8: "swapColor S7 a m = Some S8" "good S8 k (Br c (plug km (Br cm ml a Lf)) m r)"
    "chg S7 S8 {a, m}" using swapColor_far_good [OF S7(2)] by blast
  have "chg S S8 ?all"
    by (rule chg_trans' [OF chg_trans [OF c6 S7(3)] S8(3)]) (use kp in auto)
  moreover have "leave S a = leave S8 a"
  proof -
    have g0: "good S k (br LEFT c ?l a r)" using g by simp
    obtain n where n: "rb_nodes S a = Some n" "rb_parent n = cpar k" "rb_link n LEFT = Some (rptr ?l)"
      "rb_link n RIGHT = Some (rptr r)" using good_node [OF g0] by auto
    have ne: "rptr ?l \<noteq> nil_addr" "rptr r \<noteq> nil_addr"
      using good_node_of [OF good_child(1) [OF g0]] good_node_of [OF good_child(2) [OF g0] r] by auto
    have t: "(case cpar k of Some p \<Rightarrow> do { (_, S) \<leftarrow> rb_detach S4 p a; Some S }
            | None \<Rightarrow> set_root S4 a None) = Some S5" using S5(5) by (simp add: take_off_def)
    have q: "(case cpar k of Some p \<Rightarrow> attach S6 p m | None \<Rightarrow> set_root S6 a (Some m)) = Some S7"
      using S7(1) by (simp add: put_on_def)
    show ?thesis
      using n ne max mn(1) S5(1-4) t S6(1) [unfolded relink_def] q S8(1)
      by (subst leave.simps) simp
  qed
  ultimately show ?thesis using S8(2) by blast
qed

section \<open>The contract of removal\<close>

lemma kok_rename: "kok (km @ (d, c, a, r) # k) n = kok (km @ (d, c, m, r) # k) n"
proof (induction km arbitrary: n)
  case (Cons f km)
  obtain e c' x u where f: "f = (e, c', x, u)" by (cases f) auto
  have "kcol (km @ (d, c, a, r) # k) = kcol (km @ (d, c, m, r) # k)"
    by (cases km rule: kcol.cases) auto
  then show ?case using Cons.IH by (simp add: f)
qed simp

lemma rbt_exchange:
  assumes "rbt (plug k (Br c (plug km (Br cm ml m Lf)) a r))" "col (plug k (Br c (plug km (Br cm ml m Lf)) a r)) = BLACK"
  shows "rbt (plug (km @ (LEFT, c, m, r) # k) (Br cm ml a Lf))"
    "col (plug (km @ (LEFT, c, m, r) # k) (Br cm ml a Lf)) = BLACK"
proof -
  let ?k1 = "km @ (LEFT, c, a, r) # k" and ?k2 = "km @ (LEFT, c, m, r) # k"
  have "rbt (plug ?k1 (Br cm ml m Lf))" "col (plug ?k1 (Br cm ml m Lf)) = BLACK"
    using assms by (simp_all add: plug_append)
  moreover have "kcol ?k1 = kcol ?k2" by (cases km rule: kcol.cases) auto
  ultimately have "rbt (plug ?k2 (Br cm ml a Lf)) \<and> col (plug ?k2 (Br cm ml a Lf)) = BLACK"
    using rbt_plug [of ?k1 "Br cm ml m Lf"] rbt_plug [of ?k2 "Br cm ml a Lf"] kok_rename [of km LEFT c a r k _ m]
    unfolding bh.simps rbt.simps col.simps by metis
  then show "rbt (plug ?k2 (Br cm ml a Lf))" "col (plug ?k2 (Br cm ml a Lf)) = BLACK" by auto
qed

lemma in_addrs_plug:
  "a \<in> set (addrs t) \<Longrightarrow> \<exists>k c l r. t = plug k (Br c l a r)"
proof (induction t)
  case (Br c l b r)
  consider "a = b" | "a \<in> set (addrs l)" | "a \<in> set (addrs r)" using Br.prems by auto
  then show ?case
  proof cases
    case 1
    then show ?thesis by (intro exI [of _ "[]"]) auto
  next
    case 2
    then obtain k c' l' r' where "l = plug k (Br c' l' a r')" using Br.IH by blast
    then have "Br c l b r = plug (k @ [(LEFT, c, b, r)]) (Br c' l' a r')" by (simp add: plug_append)
    then show ?thesis by blast
  next
    case 3
    then obtain k c' l' r' where "r = plug k (Br c' l' a r')" using Br.IH by blast
    then have "Br c l b r = plug (k @ [(RIGHT, c, b, l)]) (Br c' l' a r')" by (simp add: plug_append)
    then show ?thesis by blast
  qed
qed simp

text \<open>What \<open>leave\<close> achieves: the node is out, the rest is in order and in its old sequence.\<close>

definition left_out :: "'o rbtree \<Rightarrow> nat \<Rightarrow> nat list \<Rightarrow> bool" where
  "left_out S a xs \<longleftrightarrow>
     (\<exists>S' t'. leave S a = Some S' \<and> good S' [] t' \<and> addrs t' = remove1 a xs \<and> rbt t' \<and>
        col t' = BLACK \<and> chg S S' (set xs) \<and> (\<exists>n. rb_nodes S' a = Some n \<and> rb_parent n = None))"

lemma leave_upto_one:
  assumes g: "good S k (br s c u a Lf)"
    and rb: "rbt (plug k (br s c u a Lf))" "col (plug k (br s c u a Lf)) = BLACK"
    and key: "\<And>d cp p w k'. k = (d, cp, p, w) # k' \<Longrightarrow> u \<noteq> Lf \<Longrightarrow> keyof S (rptr u) < keyof S p \<longleftrightarrow> d = LEFT"
  shows "left_out S a (addrs (plug k (br s c u a Lf)))"
proof -
  have "remove1 a (addrs (plug k (br s c u a Lf))) = addrs (plug k u)"
    using good_distinct [OF g] by (cases s) (auto simp: addrs_plug remove1_append remove1_idem)
  moreover have "\<exists>S' t'. leave S a = Some S' \<and> good S' [] t' \<and> addrs t' = addrs (plug k u) \<and> rbt t' \<and>
    col t' = BLACK \<and> chg S S' (set (addrs (plug k (br s c u a Lf)))) \<and>
    (\<exists>n. rb_nodes S' a = Some n \<and> rb_parent n = None)"
  proof (cases "u = Lf")
    case True
    then show ?thesis using leave_none_good g rb by blast
  next
    case False
    show ?thesis by (rule leave_one_good [OF g False rb]) (rule key [OF _ False])
  qed
  ultimately show ?thesis by (simp add: left_out_def)
qed

lemma leave_two_good:
  assumes g: "good S k (Br c l a r)" and ne: "l \<noteq> Lf" "r \<noteq> Lf"
    and rb: "rbt (plug k (Br c l a r))" "col (plug k (Br c l a r)) = BLACK"
    and ks: "key_sorted (keyof S) (addrs (plug k (Br c l a r)))"
  shows "left_out S a (addrs (plug k (Br c l a r)))"
proof -
  have "good S ((LEFT, c, a, r) # k) l" using g by (simp add: good_up)
  from searchMax_good [OF this ne(1)] obtain km cm ml m where
    l: "l = plug km (Br cm ml m Lf)" and km: "kr km = []" and max: "searchMax S (rptr l) = Some m" by blast
  obtain S1 where S1: "leave S a = leave S1 a" "good S1 k (Br c (plug km (Br cm ml a Lf)) m r)"
    "chg S S1 (set (addrs (plug k (Br c l a r))))"
    using leave_exchange [OF g [unfolded l] ne(2) km] max ks unfolding l by blast
  let ?k = "km @ (LEFT, c, m, r) # k"
  have g1: "good S1 ?k (br LEFT cm ml a Lf)"
    using S1(2) by (simp add: good_iff [of S1 ?k] good_iff [of S1 k] plug_append)
  have keys: "keyof S1 = keyof S" by (rule same_data_keyof [OF chg_same_data [OF S1(3)]])
  have key: "keyof S1 (rptr ml) < keyof S1 p \<longleftrightarrow> d = LEFT"
    if k: "?k = (d, cp, p, w) # k'" and ml: "ml \<noteq> Lf" for d cp p w k'
  proof (cases km)
    case Nil
    then have "d = LEFT" "p = m" using k by auto
    moreover have "keyof S (rptr ml) < keyof S m"
      using ks rptr_in_addrs [OF ml] by (auto simp: l Nil addrs_plug sorted_wrt_append)
    ultimately show ?thesis by (simp add: keys)
  next
    case (Cons f km')
    then have f: "f = (d, cp, p, w)" using k by simp
    have "key_sorted (keyof S) (addrs (plug (km @ (LEFT, c, a, r) # k) (Br cm ml m Lf)))"
      using ks by (simp add: l plug_append)
    then show ?thesis
      using frame_key [of "keyof S" d cp p w "km' @ (LEFT, c, a, r) # k" "Br cm ml m Lf" "rptr ml"]
        rptr_in_addrs [OF ml] by (simp add: Cons f keys)
  qed
  have "left_out S1 a (addrs (plug ?k (br LEFT cm ml a Lf)))"
    by (rule leave_upto_one [OF g1 _ _ key]) (use rbt_exchange rb l in auto)
  moreover have "remove1 a (addrs (plug ?k (br LEFT cm ml a Lf))) = remove1 a (addrs (plug k (Br c l a r)))"
    using good_distinct [OF g] km by (auto simp: l addrs_plug kl_append kr_append remove1_append)
  moreover have "set (addrs (plug ?k (br LEFT cm ml a Lf))) = set (addrs (plug k (Br c l a r)))"
    by (auto simp: l plug_append)
  ultimately show ?thesis
    using S1(1,3) chg_trans [of S S1 "set (addrs (plug k (Br c l a r)))"] unfolding left_out_def
    by (metis sup.idem)
qed

lemma leave_good:
  assumes g: "good S [] t" and rb: "rbt t" "col t = BLACK" and ks: "key_sorted (keyof S) (addrs t)"
    and a: "a \<in> set (addrs t)"
  shows "left_out S a (addrs t)"
proof -
  obtain k c l r where t: "t = plug k (Br c l a r)" using in_addrs_plug [OF a] by blast
  have g': "good S k (Br c l a r)" using g by (simp add: t good_iff [of S k])
  show ?thesis
  proof (cases "l \<noteq> Lf \<and> r \<noteq> Lf")
    case True
    then show ?thesis using leave_two_good [OF g'] rb ks by (simp add: t)
  next
    case False
    define s where "s = (if r = Lf then LEFT else RIGHT)"
    define u where "u = (if r = Lf then l else r)"
    have b: "Br c l a r = br s c u a Lf" using False by (auto simp: s_def u_def)
    have "keyof S (rptr u) < keyof S p \<longleftrightarrow> d = LEFT" if "k = (d, cp, p, w) # k'" "u \<noteq> Lf" for d cp p w k'
      using frame_key [OF ks [unfolded t b that(1)]] rptr_in_addrs [OF that(2)] by auto
    then have "left_out S a (addrs (plug k (br s c u a Lf)))"
      using leave_upto_one [OF g' [unfolded b]] rb by (simp add: t b)
    then show ?thesis by (simp add: t b)
  qed
qed

lemma rb_remove_good:
  assumes g: "good S [] t" and rb: "rbt t" "col t = BLACK" and ks: "key_sorted (keyof S) (addrs t)"
    and a: "a \<in> set (addrs t)"
  shows "\<exists>S' t'. rb_remove S (Some a) = Some (True, S') \<and> good S' [] t' \<and> addrs t' = remove1 a (addrs t) \<and>
    rbt t' \<and> col t' = BLACK \<and> loose S' a \<and> same_data S S' \<and>
    (\<forall>b. b \<notin> set (addrs t) \<longrightarrow> rb_nodes S' b = rb_nodes S b)"
proof -
  obtain S1 t' n where S1: "leave S a = Some S1" "good S1 [] t'" "addrs t' = remove1 a (addrs t)" "rbt t'"
    "col t' = BLACK" "chg S S1 (set (addrs t))" "rb_nodes S1 a = Some n" "rb_parent n = None"
    using leave_good [OF assms] unfolding left_out_def by blast
  have nn: "a \<noteq> nil_addr" using good_not_nil [OF g] a by auto
  have root: "rb_root S \<noteq> None" using g a by (cases t) (auto simp: good_def tree_at_def root_ptr_def)
  obtain n0 where n0: "rb_nodes S a = Some n0" "rb_tree n0" using g a by (auto simp: good_def flagged_def)
  let ?n = "set_tree False (set_link RIGHT nil_addr (set_link LEFT nil_addr n))"
  let ?S = "S1\<lparr>rb_nodes := (rb_nodes S1)(a \<mapsto> ?n)\<rparr>"
  have "rb_remove S (Some a) = Some (True, ?S)"
    using root n0 S1(1,7) by (simp add: rb_remove_def modify_Some)
  moreover have "a \<notin> set (addrs t')" using S1(3) good_distinct [OF g] by simp
  then have "good ?S [] t'" using S1(2) nn by (simp add: good_upd_other)
  moreover have "loose ?S a" using S1(8) nn by (simp add: loose_def)
  moreover have "same_data S ?S"
    using chg_same_data [OF S1(6)] S1(7) unfolding same_data_def by (auto dest: spec [of _ a])
  moreover have "\<forall>b. b \<notin> set (addrs t) \<longrightarrow> rb_nodes ?S b = rb_nodes S b"
    using chg_same [OF S1(6)] a by auto
  ultimately show ?thesis using S1(3-5) by blast
qed

end
