(* ===== verification/Coslib_RBTree_Correct.thy ===== *)
theory Coslib_RBTree_Correct
  imports Coslib_RBTree_Leave "HOL-Library.Multiset"
begin

text \<open>
  What the kernel may rely on when it uses \<open>RBTree\<close>: the tree is a sequence of nodes in key
  order. The locale \<open>key_order\<close> is the interface of insertion and the queries, \<open>key_order_remove\<close>
  adds removal; both are interpreted on the pointer code. The last section shows where the
  code departs from the contract: colours of nodes that are inserted again, and equal keys.
\<close>

section \<open>Queries\<close>

lemma searchMax_last: "good S k t \<Longrightarrow> t \<noteq> Lf \<Longrightarrow> searchMax S (rptr t) = Some (last (addrs t))"
  using searchMax_good [of S k t] by (auto simp: addrs_plug)

lemma searchMin_hd: "good S k t \<Longrightarrow> t \<noteq> Lf \<Longrightarrow> searchMin S (rptr t) = Some (hd (addrs t))"
proof (induction t arbitrary: k)
  case (Br c l a r)
  have g: "good S ((LEFT, c, a, r) # k) l" using Br.prems(1) by (simp add: good_up)
  have "good S k (br LEFT c l a r)" using Br.prems(1) by simp
  from good_node [OF this] obtain n where n: "rb_nodes S a = Some n" "rb_link n LEFT = Some (rptr l)"
    by auto
  show ?case
  proof (cases "l = Lf")
    case True
    then show ?thesis using n by (subst searchMin.simps) simp
  next
    case False
    have "rptr l \<noteq> nil_addr" using good_node_of [OF g False] by blast
    moreover have "addrs l \<noteq> []" using False by (cases l) auto
    ultimately show ?thesis
      using n Br.IH(1) [OF g False] by (subst searchMin.simps) simp
  qed
qed simp

lemma count_size_length: "good S k t \<Longrightarrow> t \<noteq> Lf \<Longrightarrow> count_size S (rptr t) = Some (length (addrs t))"
proof (induction t arbitrary: k)
  case (Br c l a r)
  have gl: "good S ((LEFT, c, a, r) # k) l" and gr: "good S ((RIGHT, c, a, l) # k) r"
    using Br.prems(1) by (simp_all add: good_up)
  have "good S k (br LEFT c l a r)" using Br.prems(1) by simp
  from good_node [OF this] obtain n where n: "rb_nodes S a = Some n" "rb_link n LEFT = Some (rptr l)"
    "rb_link n RIGHT = Some (rptr r)" by auto
  have l: "(if rptr l \<noteq> nil_addr then count_size S (rptr l) else Some 0) = Some (length (addrs l))"
    using Br.IH(1) [OF gl] rep_rptr_nil [OF goodD(1) [OF gl]] by (cases "l = Lf") auto
  have r: "(if rptr r \<noteq> nil_addr then count_size S (rptr r) else Some 0) = Some (length (addrs r))"
    using Br.IH(2) [OF gr] rep_rptr_nil [OF goodD(1) [OF gr]] by (cases "r = Lf") auto
  show ?case using n l r by (subst count_size.simps) simp
qed simp

lemma lookup_at_sound:
  "good S k t \<Longrightarrow> t \<noteq> Lf \<Longrightarrow> sorted (map (keyof S) (addrs t)) \<Longrightarrow>
     \<exists>res. lookup_at S (rptr t) x = Some res \<and>
       (case res of None \<Rightarrow> x \<notin> keyof S ` set (addrs t)
        | Some a \<Rightarrow> a \<in> set (addrs t) \<and> keyof S a = x)"
proof (induction t arbitrary: k)
  case (Br c l a r)
  let ?d = "if x < keyof S a then LEFT else RIGHT"
  define v where "v = (if x < keyof S a then l else r)"
  define w where "w = (if x < keyof S a then r else l)"
  have t: "Br c l a r = br ?d c v a w" by (simp add: v_def w_def)
  have g: "good S ((?d, c, a, w) # k) v" using Br.prems(1) by (simp add: t good_up)
  obtain n where n: "rb_nodes S a = Some n" "rb_link n ?d = Some (rptr v)"
    using good_frame_node [OF g] by blast
  then have kn: "rb_key n = keyof S a" by (simp add: keyof_def)
  have sv: "sorted (map (keyof S) (addrs v))" using Br.prems(3) by (auto simp: v_def sorted_append)
  have ord: "\<forall>b\<in>set (addrs l). keyof S b \<le> keyof S a" "\<forall>b\<in>set (addrs r). keyof S a \<le> keyof S b"
    using Br.prems(3) by (auto simp: sorted_append)
  have other: "x \<noteq> keyof S a \<Longrightarrow> x \<in> keyof S ` set (addrs (Br c l a r)) \<Longrightarrow> x \<in> keyof S ` set (addrs v)"
    using ord by (fastforce simp: v_def)
  show ?case
  proof (cases "keyof S a = x")
    case True
    then show ?thesis using n kn by (subst lookup_at.simps) simp
  next
    case ne: False
    show ?thesis
    proof (cases "v = Lf")
      case True
      then show ?thesis using n kn ne other by (subst lookup_at.simps) auto
    next
      case False
      have rn: "rptr v \<noteq> nil_addr" using good_node_of [OF g False] by blast
      have "\<exists>res. lookup_at S (rptr v) x = Some res \<and>
         (case res of None \<Rightarrow> x \<notin> keyof S ` set (addrs v) | Some a \<Rightarrow> a \<in> set (addrs v) \<and> keyof S a = x)"
        using Br.IH(1) [of "(?d, c, a, w) # k"] Br.IH(2) [of "(?d, c, a, w) # k"] g False sv
        unfolding v_def by presburger
      then obtain res where res: "lookup_at S (rptr v) x = Some res"
        "case res of None \<Rightarrow> x \<notin> keyof S ` set (addrs v) | Some a \<Rightarrow> a \<in> set (addrs v) \<and> keyof S a = x"
        by blast
      have "lookup_at S a x = Some res" using n kn ne rn res(1) by (subst lookup_at.simps) simp
      moreover have "set (addrs v) \<subseteq> set (addrs (Br c l a r))" by (auto simp: v_def)
      ultimately show ?thesis using res(2) other ne by (cases res) auto
    qed
  qed
qed simp

section \<open>The sequence a tree holds\<close>

definition rb_holds :: "'o rbtree \<Rightarrow> nat list \<Rightarrow> bool" where
  "rb_holds S xs \<longleftrightarrow>
     (\<exists>t. good S [] t \<and> col t = BLACK \<and> addrs t = xs \<and> sorted (map (keyof S) xs))"

text \<open>The same with the colour rules and strictly increasing keys.\<close>

definition rb_balanced :: "'o rbtree \<Rightarrow> nat list \<Rightarrow> bool" where
  "rb_balanced S xs \<longleftrightarrow>
     (\<exists>t. good S [] t \<and> rbt t \<and> col t = BLACK \<and> addrs t = xs \<and> key_sorted (keyof S) xs)"

definition objof :: "'o rbtree \<Rightarrow> nat \<Rightarrow> 'o" where
  "objof S a = rb_obj (the (rb_nodes S a))"

definition red_node :: "'o rbtree \<Rightarrow> nat \<Rightarrow> bool" where
  "red_node S a \<longleftrightarrow> (case rb_nodes S a of None \<Rightarrow> False | Some n \<Rightarrow> rb_color n = RED)"

text \<open>\<open>RBTree()\<close>: no root, and the shared leaf in the heap.\<close>

definition RBTree_new :: "'o \<Rightarrow> 'o rbtree" where
  "RBTree_new ob = \<lparr>rb_nodes = [nil_addr \<mapsto> rbnode_nil ob], rb_root = None\<rparr>"

lemma rb_balanced_new: "rb_balanced (RBTree_new ob) []"
  unfolding rb_balanced_def
  by (intro exI [of _ Lf]) (simp add: RBTree_new_def good_def tree_at_def root_ptr_def flagged_def nil_ok_def rbnode_nil_def)

lemma key_sorted_sorted: "key_sorted key xs \<Longrightarrow> sorted (map key xs)"
  by (induction xs) auto

lemma rb_balanced_holds: "rb_balanced S xs \<Longrightarrow> rb_holds S xs"
  unfolding rb_balanced_def rb_holds_def using key_sorted_sorted by blast

lemma rb_holds_root: "rb_holds S xs \<Longrightarrow> rb_root S = None \<longleftrightarrow> xs = []"
  by (auto simp: rb_holds_def good_def tree_at_def root_ptr_def split: if_splits) (metis addrs.elims append_is_Nil_conv list.distinct(1))

lemma rb_holds_treeE:
  assumes "rb_holds S xs"
  obtains t where "good S [] t" "col t = BLACK" "addrs t = xs" "sorted (map (keyof S) xs)"
    "rb_root S = (if t = Lf then None else Some (rptr t))" "t = Lf \<longleftrightarrow> xs = []"
proof -
  obtain t where t: "good S [] t" "col t = BLACK" "addrs t = xs" "sorted (map (keyof S) xs)"
    using assms unfolding rb_holds_def by blast
  moreover have "t = Lf \<longleftrightarrow> xs = []" using t(3) by (cases t) auto
  moreover have "rb_root S = (if t = Lf then None else Some (rptr t))"
    using t(1) by (simp add: good_def tree_at_def root_ptr_def)
  ultimately show ?thesis using that by blast
qed

lemma rb_holds_node: "rb_holds S xs \<Longrightarrow> a \<in> set xs \<Longrightarrow> \<exists>n. rb_nodes S a = Some n"
  by (auto simp: rb_holds_def good_def flagged_def)

lemma rb_max_holds:
  assumes "rb_holds S xs"
  shows "rb_max S = Some (if xs = [] then None else Some (objof S (last xs)))"
proof -
  obtain t where t: "good S [] t" "addrs t = xs" "rb_root S = (if t = Lf then None else Some (rptr t))"
    "t = Lf \<longleftrightarrow> xs = []" using assms by (rule rb_holds_treeE)
  show ?thesis
  proof (cases "xs = []")
    case True
    then show ?thesis using t by (simp add: rb_max_def)
  next
    case False
    then obtain n where "rb_nodes S (last xs) = Some n" using rb_holds_node [OF assms] by (metis last_in_set)
    then show ?thesis using t False searchMax_last [OF t(1)] by (simp add: rb_max_def objof_def)
  qed
qed

lemma rb_min_holds:
  assumes "rb_holds S xs"
  shows "rb_min S = Some (if xs = [] then None else Some (objof S (hd xs)))"
proof -
  obtain t where t: "good S [] t" "addrs t = xs" "rb_root S = (if t = Lf then None else Some (rptr t))"
    "t = Lf \<longleftrightarrow> xs = []" using assms by (rule rb_holds_treeE)
  show ?thesis
  proof (cases "xs = []")
    case True
    then show ?thesis using t by (simp add: rb_min_def)
  next
    case False
    then obtain n where "rb_nodes S (hd xs) = Some n" using rb_holds_node [OF assms] by (metis hd_in_set)
    then show ?thesis using t False searchMin_hd [OF t(1)] by (simp add: rb_min_def objof_def)
  qed
qed

lemma rb_size_holds: "rb_holds S xs \<Longrightarrow> rb_size S = Some (length xs)"
  using count_size_length by (elim rb_holds_treeE) (auto simp: rb_size_def)

lemma rb_empty_holds: "rb_holds S xs \<Longrightarrow> rb_empty S \<longleftrightarrow> xs = []"
  by (simp add: rb_empty_def rb_holds_root)

lemma same_data_objof: "same_data S S' \<Longrightarrow> rb_nodes S a = Some n \<Longrightarrow> objof S' a = objof S a"
  using same_data_lookup by (fastforce simp: objof_def)

lemma rb_insert_holds:
  assumes h: "rb_holds S xs" and x: "loose S x" "x \<notin> set xs"
  shows "\<exists>S'. rb_insert S x = Some (True, S') \<and> rb_holds S' (insort_after (keyof S) x xs) \<and>
    same_data S S' \<and> (\<forall>a. a \<notin> insert x (set xs) \<longrightarrow> rb_nodes S' a = rb_nodes S a)"
proof -
  obtain t where t: "good S [] t" "col t = BLACK" "addrs t = xs" "sorted (map (keyof S) xs)"
    using h unfolding rb_holds_def by blast
  obtain S' where S': "rb_insert S x = Some (True, S')" "good S' [] (ins_tree S x t)" "same_data S S'"
    "\<forall>a. a \<notin> insert x (set (addrs t)) \<longrightarrow> rb_nodes S' a = rb_nodes S a"
    using rb_insert_good [OF t(1,2) x(1)] x(2) t(3) by blast
  have "rb_holds S' (insort_after (keyof S) x xs)"
    using S'(2) addrs_ins_tree [of S t x] col_ins_tree [OF t(2), of S x] sorted_insort_after [OF t(4)] t
      same_data_keyof [OF S'(3)]
    unfolding rb_holds_def by auto
  with S' t(3) show ?thesis by blast
qed

lemma key_sorted_insort_after:
  assumes "key_sorted key xs" "key x \<notin> key ` set xs"
  shows "key_sorted key (insort_after key x xs)"
proof -
  have "sorted (map key (insort_after key x xs))"
    by (rule sorted_insort_after [OF key_sorted_sorted [OF assms(1)]])
  moreover have "distinct (map key (insort_after key x xs))"
  proof -
    have "distinct (map key xs)" using assms(1) by (induction xs) auto
    moreover have "mset (insort_after key x xs) = mset (x # xs)"
      by (simp add: insort_after_def) (metis mset_append takeWhile_dropWhile_id)
    ultimately show ?thesis
      using assms(2) by (metis distinct.simps(2) list.simps(9) mset_eq_imp_distinct_iff mset_map set_map)
  qed
  ultimately have "sorted_wrt (<) (map key (insort_after key x xs))" by (simp add: strict_sorted_iff)
  then show ?thesis by (simp only: sorted_wrt_map)
qed

lemma rb_insert_balanced:
  assumes h: "rb_balanced S xs" and x: "loose S x" "x \<notin> set xs" "red_node S x" "keyof S x \<notin> keyof S ` set xs"
    and S': "rb_insert S x = Some (True, S')"
  shows "rb_balanced S' (insort_after (keyof S) x xs)"
proof -
  obtain t where t: "good S [] t" "rbt t" "col t = BLACK" "addrs t = xs" "key_sorted (keyof S) xs"
    using h unfolding rb_balanced_def by blast
  have g: "good S' [] (ins_tree S x t)" "same_data S S'"
    using rb_insert_good [OF t(1,3) x(1)] x(2) t(4) S' by auto
  obtain n where "rb_nodes S x = Some n" "rb_color n = RED"
    using x(3) by (auto simp: red_node_def split: option.splits)
  then have "rbt (ins_tree S x t)" using rbt_ins_tree t by blast
  then show ?thesis
    using g addrs_ins_tree [of S t x] col_ins_tree [OF t(3), of S x] key_sorted_insort_after [OF t(5) x(4)]
      key_sorted_sorted [OF t(5)] t(4) same_data_keyof [OF g(2)]
    unfolding rb_balanced_def by auto
qed

lemma rb_remove_balanced:
  assumes h: "rb_balanced S xs" and a: "a \<in> set xs"
  shows "\<exists>S'. rb_remove S (Some a) = Some (True, S') \<and> rb_balanced S' (remove1 a xs) \<and>
    loose S' a \<and> same_data S S' \<and> (\<forall>b. b \<notin> set xs \<longrightarrow> rb_nodes S' b = rb_nodes S b)"
proof -
  obtain t where t: "good S [] t" "rbt t" "col t = BLACK" "addrs t = xs" "key_sorted (keyof S) xs"
    using h unfolding rb_balanced_def by blast
  obtain S' t' where S': "rb_remove S (Some a) = Some (True, S')" "good S' [] t'" "addrs t' = remove1 a xs"
    "rbt t'" "col t' = BLACK" "loose S' a" "same_data S S'" "\<forall>b. b \<notin> set xs \<longrightarrow> rb_nodes S' b = rb_nodes S b"
    using rb_remove_good [OF t(1-3), of a] t(4,5) a by auto
  have "key_sorted (keyof S) (remove1 a xs)"
    using t(5) by (induction xs) (auto dest: in_set_remove1 [THEN iffD1] set_remove1_subset [THEN subsetD])
  then show ?thesis
    using S' same_data_keyof [OF S'(7)] unfolding rb_balanced_def by auto
qed

section \<open>The interface\<close>

locale key_order =
  fixes holds :: "'s \<Rightarrow> 'a list \<Rightarrow> bool" and key :: "'s \<Rightarrow> 'a \<Rightarrow> int" and free :: "'s \<Rightarrow> 'a \<Rightarrow> bool"
    and ob :: "'s \<Rightarrow> 'a \<Rightarrow> 'o" and ins :: "'s \<Rightarrow> 'a \<Rightarrow> (bool \<times> 's) option"
    and maxi :: "'s \<Rightarrow> 'o option option" and mini :: "'s \<Rightarrow> 'o option option"
  assumes holds_sorted: "holds S xs \<Longrightarrow> sorted (map (key S) xs)"
    and ins_holds: "holds S xs \<Longrightarrow> free S x \<Longrightarrow> x \<notin> set xs \<Longrightarrow>
      \<exists>S'. ins S x = Some (True, S') \<and> holds S' (insort_after (key S) x xs) \<and>
        key S' = key S \<and> (\<forall>y\<in>insert x (set xs). ob S' y = ob S y)"
    and maxi_holds: "holds S xs \<Longrightarrow> maxi S = Some (if xs = [] then None else Some (ob S (last xs)))"
    and mini_holds: "holds S xs \<Longrightarrow> mini S = Some (if xs = [] then None else Some (ob S (hd xs)))"
begin

lemma maxi_greatest:
  assumes "holds S xs" "xs \<noteq> []"
  shows "\<exists>a\<in>set xs. maxi S = Some (Some (ob S a)) \<and> (\<forall>b\<in>set xs. key S b \<le> key S a)"
proof (rule bexI [of _ "last xs"])
  show "last xs \<in> set xs" using assms(2) by simp
  have "\<forall>b\<in>set xs. key S b \<le> key S (last xs)"
    using holds_sorted [OF assms(1)] assms(2) by (cases xs rule: rev_cases) (auto simp: sorted_append)
  then show "maxi S = Some (Some (ob S (last xs))) \<and> (\<forall>b\<in>set xs. key S b \<le> key S (last xs))"
    using maxi_holds [OF assms(1)] assms(2) by simp
qed

lemma mini_least:
  assumes "holds S xs" "xs \<noteq> []"
  shows "\<exists>a\<in>set xs. mini S = Some (Some (ob S a)) \<and> (\<forall>b\<in>set xs. key S a \<le> key S b)"
proof (rule bexI [of _ "hd xs"])
  show "hd xs \<in> set xs" using assms(2) by simp
  have "\<forall>b\<in>set xs. key S (hd xs) \<le> key S b"
    using holds_sorted [OF assms(1)] assms(2) by (cases xs) auto
  then show "mini S = Some (Some (ob S (hd xs))) \<and> (\<forall>b\<in>set xs. key S (hd xs) \<le> key S b)"
    using mini_holds [OF assms(1)] assms(2) by simp
qed

text \<open>A node at least as large as all others becomes the maximum; among equal keys the minimum
  is the one inserted first.\<close>

lemma ins_new_maxi:
  assumes "holds S xs" "free S x" "x \<notin> set xs" "\<forall>a\<in>set xs. key S a \<le> key S x"
  shows "\<exists>S'. ins S x = Some (True, S') \<and> maxi S' = Some (Some (ob S x))"
proof -
  obtain S' where S': "ins S x = Some (True, S')" "holds S' (insort_after (key S) x xs)"
    "\<forall>y\<in>insert x (set xs). ob S' y = ob S y" using ins_holds [OF assms(1-3)] by blast
  have "insort_after (key S) x xs = xs @ [x]" using assms(4) by (simp add: insort_after_def)
  then show ?thesis using maxi_holds [OF S'(2)] S' by simp
qed

lemma ins_same_mini:
  assumes "holds S xs" "free S x" "x \<notin> set xs" "xs \<noteq> []" "key S (hd xs) \<le> key S x"
  shows "\<exists>S'. ins S x = Some (True, S') \<and> mini S' = mini S"
proof -
  obtain S' where S': "ins S x = Some (True, S')" "holds S' (insort_after (key S) x xs)"
    "\<forall>y\<in>insert x (set xs). ob S' y = ob S y" using ins_holds [OF assms(1-3)] by blast
  have "hd (insort_after (key S) x xs) = hd xs" "insort_after (key S) x xs \<noteq> []"
    using assms(4,5) by (cases xs; simp add: insort_after_def)+
  then show ?thesis
    using mini_holds [OF S'(2)] mini_holds [OF assms(1)] S' assms(4) by (cases xs) auto
qed

end

locale key_order_remove = key_order +
  fixes bal :: "'s \<Rightarrow> 'a list \<Rightarrow> bool" and fresh :: "'s \<Rightarrow> 'a \<Rightarrow> bool"
    and del :: "'s \<Rightarrow> 'a option \<Rightarrow> (bool \<times> 's) option"
  assumes bal_holds: "bal S xs \<Longrightarrow> holds S xs"
    and ins_bal: "bal S xs \<Longrightarrow> free S x \<Longrightarrow> x \<notin> set xs \<Longrightarrow> fresh S x \<Longrightarrow> key S x \<notin> key S ` set xs \<Longrightarrow>
      ins S x = Some (True, S') \<Longrightarrow> bal S' (insort_after (key S) x xs)"
    and del_bal: "bal S xs \<Longrightarrow> a \<in> set xs \<Longrightarrow>
      \<exists>S'. del S (Some a) = Some (True, S') \<and> bal S' (remove1 a xs) \<and> free S' a \<and> key S' = key S"
begin

lemma remove1_insort_after: "x \<notin> set xs \<Longrightarrow> remove1 x (insort_after k x xs) = xs"
  unfolding insort_after_def
  by (subst remove1_append_Cons) (auto dest: set_takeWhileD)

lemma ins_del:
  assumes "bal S xs" "free S x" "x \<notin> set xs" "fresh S x" "key S x \<notin> key S ` set xs"
  shows "\<exists>S1 S2. ins S x = Some (True, S1) \<and> del S1 (Some x) = Some (True, S2) \<and> bal S2 xs \<and>
    free S2 x \<and> key S2 = key S"
proof -
  obtain S1 where S1: "ins S x = Some (True, S1)" "key S1 = key S"
    using ins_holds [OF bal_holds [OF assms(1)] assms(2,3)] by blast
  have b: "bal S1 (insort_after (key S) x xs)" by (rule ins_bal [OF assms S1(1)])
  obtain S2 where "del S1 (Some x) = Some (True, S2)" "bal S2 (remove1 x (insort_after (key S) x xs))"
    "free S2 x" "key S2 = key S1"
    using del_bal [OF b, of x] by (auto simp: insort_after_def)
  then show ?thesis using S1 remove1_insort_after [OF assms(3)] by auto
qed

end

lemma rb_holds_sorted: "rb_holds S xs \<Longrightarrow> sorted (map (keyof S) xs)"
  by (auto simp: rb_holds_def)

lemma rb_insert_law:
  assumes "rb_holds S xs" "loose S x" "x \<notin> set xs"
  shows "\<exists>S'. rb_insert S x = Some (True, S') \<and> rb_holds S' (insort_after (keyof S) x xs) \<and>
    keyof S' = keyof S \<and> (\<forall>y\<in>insert x (set xs). objof S' y = objof S y)"
proof -
  obtain S' where S': "rb_insert S x = Some (True, S')" "rb_holds S' (insort_after (keyof S) x xs)"
    "same_data S S'" using rb_insert_holds [OF assms] by blast
  have "\<exists>n. rb_nodes S y = Some n" if "y \<in> insert x (set xs)" for y
    using that rb_holds_node [OF assms(1)] assms(2) by (auto simp: loose_def split: option.splits)
  then show ?thesis using S' same_data_keyof [OF S'(3)] same_data_objof [OF S'(3)] by blast
qed

interpretation rbq: key_order rb_holds keyof loose objof rb_insert rb_max rb_min
  by unfold_locales (fact rb_holds_sorted rb_insert_law rb_max_holds rb_min_holds)+

interpretation rbq: key_order_remove rb_holds keyof loose objof rb_insert rb_max rb_min
    rb_balanced red_node rb_remove
proof unfold_locales
  fix S :: "'o rbtree" and xs and a
  assume "rb_balanced S xs" "a \<in> set xs"
  then show "\<exists>S'. rb_remove S (Some a) = Some (True, S') \<and> rb_balanced S' (remove1 a xs) \<and>
      loose S' a \<and> keyof S' = keyof S"
    using rb_remove_balanced same_data_keyof by metis
qed (fact rb_balanced_holds rb_insert_balanced)+

section \<open>Height\<close>

fun height :: "ptree \<Rightarrow> nat" where
  "height Lf = 0"
| "height (Br c l a r) = 1 + max (height l) (height r)"

lemma rbt_height: "rbt t \<Longrightarrow> height t \<le> 2 * bh t + (if col t = RED then 1 else 0)"
proof (induction t)
  case (Br c l a r)
  then show ?case by (cases c; cases "col l"; cases "col r") auto
qed simp

lemma rbt_size: "rbt t \<Longrightarrow> 2 ^ bh t \<le> length (addrs t) + 1"
  by (induction t) auto

section \<open>Properties\<close>

text \<open>A tree of fresh nodes: \<open>Node(k, o, t)\<close> for each entry, then \<open>insert\<close> in the same order.\<close>

definition rb_fresh :: "(nat \<times> int) list \<Rightarrow> nat rbtree" where
  "rb_fresh ns = fold (\<lambda>(a, k) S. S\<lparr>rb_nodes := (rb_nodes S)(a \<mapsto> rbnode_new k a False)\<rparr>) ns (RBTree_new 0)"


lemmas rb_eval = rb_fresh_def RBTree_new_def rbnode_nil_def rbnode_new_def nil_addr_def

lemma rb_fresh_balanced: "rb_balanced (rb_fresh [(1, 5), (2, 9)]) []"
  unfolding rb_balanced_def
  by (intro exI [of _ Lf]) (simp add: rb_eval good_def tree_at_def root_ptr_def flagged_def nil_ok_def)

lemma rb_fresh_node:
  "loose (rb_fresh [(1, 5), (2, 9)]) 1" "red_node (rb_fresh [(1, 5), (2, 9)]) 1"
  by (simp_all add: rb_eval loose_def red_node_def)

text \<open>A tree of three nodes with keys 3, 5 and 9.\<close>

definition rb_sample :: "nat rbtree" where
  "rb_sample = \<lparr>rb_nodes = [nil_addr \<mapsto> rbnode_nil 0,
     1 \<mapsto> (rbnode_new 3 31 True)\<lparr>rb_parent := Some 2\<rparr>,
     2 \<mapsto> (rbnode_new 5 51 True)\<lparr>rb_color := BLACK, rb_link := (\<lambda>s. if s = LEFT then Some 1 else Some 3)\<rparr>,
     3 \<mapsto> (rbnode_new 9 91 True)\<lparr>rb_parent := Some 2\<rparr>], rb_root = Some 2\<rparr>"

lemma rb_sample_balanced: "rb_balanced rb_sample [1, 2, 3]"
  unfolding rb_balanced_def
  by (intro exI [of _ "Br BLACK (Br RED Lf 1 Lf) 2 (Br RED Lf 3 Lf)"])
    (simp add: rb_eval rb_sample_def good_def tree_at_def root_ptr_def flagged_def nil_ok_def keyof_def)

text \<open>C3: inserting a node that is in no tree succeeds and puts it behind all nodes with keys not
  greater than its own, keeps the other nodes in their order, writes no key and no object and no
  node outside the tree; and if the tree obeys the colour rules with pairwise different keys
  and the node is red and brings a new key, the result obeys them again.\<close>

theorem rb_insert_correct:
  assumes "rb_holds S xs" and "loose S x" and "x \<notin> set xs"
  shows "\<exists>S'. rb_insert S x = Some (True, S') \<and> rb_holds S' (insort_after (keyof S) x xs) \<and>
    same_data S S' \<and> (\<forall>a. a \<notin> insert x (set xs) \<longrightarrow> rb_nodes S' a = rb_nodes S a) \<and>
    (rb_balanced S xs \<and> red_node S x \<and> keyof S x \<notin> keyof S ` set xs \<longrightarrow>
       rb_balanced S' (insort_after (keyof S) x xs))"
  using rb_insert_holds [OF assms] rb_insert_balanced [OF _ assms(2,3)] by blast

theorem rb_insert_correct_witness:
  "\<exists>S'. rb_insert (rb_fresh [(1, 5), (2, 9)]) 1 = Some (True, S') \<and> rb_holds S' [1] \<and> rb_balanced S' [1]"
proof -
  obtain S' where "rb_insert (rb_fresh [(1, 5), (2, 9)]) 1 = Some (True, S')"
    "rb_holds S' (insort_after (keyof (rb_fresh [(1, 5), (2, 9)])) 1 [])"
    "rb_balanced S' (insort_after (keyof (rb_fresh [(1, 5), (2, 9)])) 1 [])"
    using rb_insert_correct [OF rb_balanced_holds [OF rb_fresh_balanced] rb_fresh_node(1)]
      rb_fresh_balanced rb_fresh_node(2) by auto
  then show ?thesis by (auto simp: insort_after_def)
qed

text \<open>C4: removing a node of a tree that obeys the colour rules and has pairwise different keys never
  dereferences \<open>NULL\<close>: it succeeds, takes exactly this node out of the sequence, leaves a tree that
  obeys the rules again, and leaves the node unlinked; keys, objects and nodes outside the tree
  are not written.\<close>

theorem rb_remove_correct:
  assumes "rb_balanced S xs" and "a \<in> set xs"
  shows "\<exists>S'. rb_remove S (Some a) = Some (True, S') \<and> rb_balanced S' (remove1 a xs) \<and>
    loose S' a \<and> same_data S S' \<and> (\<forall>b. b \<notin> set xs \<longrightarrow> rb_nodes S' b = rb_nodes S b)"
  by (rule rb_remove_balanced [OF assms])

theorem rb_remove_correct_witness:
  "\<exists>S'. rb_remove rb_sample (Some 2) = Some (True, S') \<and> rb_balanced S' [1, 3] \<and>
    loose S' 2 \<and> same_data rb_sample S' \<and> (\<forall>b. b \<notin> set [1, 2, 3] \<longrightarrow> rb_nodes S' b = rb_nodes rb_sample b)"
  using rb_remove_correct [OF rb_sample_balanced, of 2] by simp

text \<open>Inserting a red node with a new key and removing it again restores the sequence.\<close>

lemma rb_insert_remove:
  assumes "rb_balanced S xs" and "loose S x" and "x \<notin> set xs" and "red_node S x"
    and "keyof S x \<notin> keyof S ` set xs"
  shows "\<exists>S1 S2. rb_insert S x = Some (True, S1) \<and> rb_remove S1 (Some x) = Some (True, S2) \<and>
    rb_balanced S2 xs \<and> loose S2 x \<and> keyof S2 = keyof S"
  by (rule rbq.ins_del [OF assms])

text \<open>\<open>max()\<close> and \<open>min()\<close> return \<open>NULL\<close> on an empty tree and otherwise the object of a node
  whose key no other key exceeds, respectively undercuts; \<open>size()\<close> counts the nodes and
  \<open>empty()\<close> tells whether there are any.\<close>

lemma rb_extrema_correct:
  assumes "rb_holds S xs"
  shows "(if xs = [] then rb_max S = Some None \<and> rb_min S = Some None
     else (\<exists>a\<in>set xs. rb_max S = Some (Some (objof S a)) \<and> (\<forall>b\<in>set xs. keyof S b \<le> keyof S a)) \<and>
          (\<exists>a\<in>set xs. rb_min S = Some (Some (objof S a)) \<and> (\<forall>b\<in>set xs. keyof S a \<le> keyof S b))) \<and>
    rb_size S = Some (length xs) \<and> (rb_empty S \<longleftrightarrow> xs = [])"
  using rbq.maxi_greatest [OF assms] rbq.mini_least [OF assms] rb_max_holds [OF assms]
    rb_min_holds [OF assms] rb_size_holds [OF assms] rb_empty_holds [OF assms] by auto

text \<open>\<open>lookup(k)\<close> terminates and finds an object with key \<open>k\<close> exactly when the tree has one.\<close>

lemma rb_lookup_correct:
  assumes "rb_holds S xs"
  shows "\<exists>res. rb_lookup S k = Some res \<and>
    (case res of None \<Rightarrow> k \<notin> keyof S ` set xs | Some ob \<Rightarrow> \<exists>a\<in>set xs. keyof S a = k \<and> ob = objof S a)"
proof -
  obtain t where t: "good S [] t" "addrs t = xs" "sorted (map (keyof S) xs)"
    "rb_root S = (if t = Lf then None else Some (rptr t))" "t = Lf \<longleftrightarrow> xs = []"
    using assms by (rule rb_holds_treeE)
  show ?thesis
  proof (cases "t = Lf")
    case True
    then show ?thesis using t by (simp add: rb_lookup_def)
  next
    case False
    obtain res where res: "lookup_at S (rptr t) k = Some res"
      "case res of None \<Rightarrow> k \<notin> keyof S ` set xs | Some a \<Rightarrow> a \<in> set xs \<and> keyof S a = k"
      using lookup_at_sound [OF t(1) False, of k] t(2,3) by auto
    show ?thesis
    proof (cases res)
      case None
      then show ?thesis using res t(4) False by (simp add: rb_lookup_def)
    next
      case (Some a)
      then obtain n where "rb_nodes S a = Some n" using res(2) rb_holds_node [OF assms] by auto
      then show ?thesis using res t(4) False Some by (auto simp: rb_lookup_def objof_def)
    qed
  qed
qed

text \<open>The colour rules keep every path short: a tree of \<open>n\<close> nodes has height \<open>h\<close> with
  \<open>2 ^ (h div 2) \<le> n + 1\<close>, so that searching visits at most \<open>2 log (n + 1) + 1\<close> nodes.\<close>

lemma rb_height_bound:
  assumes "rb_balanced S xs"
  shows "\<exists>t. good S [] t \<and> addrs t = xs \<and> 2 ^ (height t div 2) \<le> length xs + 1"
proof -
  obtain t where t: "good S [] t" "rbt t" "col t = BLACK" "addrs t = xs"
    using assms unfolding rb_balanced_def by blast
  have "height t div 2 \<le> bh t" using rbt_height [OF t(2)] t(3) by simp
  then have "(2::nat) ^ (height t div 2) \<le> 2 ^ bh t" by (simp add: power_increasing)
  then show ?thesis using rbt_size [OF t(2)] t by (metis le_trans)
qed



end
