(* ===== verification/Cos_Kernel.thy ===== *)
theory Cos_Kernel
  imports Coslib_List Coslib_RBTree_Correct
begin

text \<open>
  The state of the kernel: the static variables of \<^verbatim>\<open>kernel/*.cpp\<close> and the objects the
  kernel links together, as one record that every operation transforms.

  Objects of each class live in a heap of their own, under the address their constructor was
  called with; a C++ base class is a record that the derived class extends. The list node
  of a thread and the tree node of a timer are separate heap objects, reached through the fields
  \<open>list_node_\<close> and \<open>node_\<close> as in the code.

  Interrupt masking (\<open>arch_interrupt_disable\<close>, \<open>arch_interrupt_enable\<close>) has no counterpart: an
  operation is atomic from its start, or from its last context switch, to its next one. The
  context switch itself is part of the environment: \<open>arch_switch e f t k\<close> is the state
  in which thread \<open>f\<close> runs again after it gave the processor to \<open>t\<close> in state \<open>k\<close>, or \<open>None\<close> if it
  never does. \<open>user_timeout\<close> stands for the timeout functions of application timers. Memory from \<open>kmalloc\<close>
  enters a constructor as an argument (\<open>None\<close> when the allocation failed); the addresses given back with
  \<open>kfree\<close> are collected in \<open>kfreed\<close>. The allocator itself is the subject of \<open>Cos_Slab\<close>.
\<close>

section \<open>Objects\<close>

datatype object_class =
    Object_Class_Semaphore | Object_Class_Mutex | Object_Class_Event | Object_Class_MailBox
  | Object_Class_MessageQueue | Object_Class_Timer | Object_Class_Device | Object_Class_Thread
  | Object_Class_Unknown

record object =
  ob_flag :: u16
  ob_name :: string
  ob_type :: object_class

text \<open>A timeout function is the one of threads or belongs to the application.\<close>

datatype timeout_func = Thread_timeout_func | User_timeout_func nat

record timer = object +
  tm_timeout_func :: timeout_func
  tm_parameter :: nat
  tm_init_tick :: u32
  tm_timeout_tick :: u32
  tm_node :: nat

record thread = object +
  th_error :: err_t
  th_stat :: u8
  th_timer :: nat
  th_list_node :: nat
  th_event_set :: u32
  th_event_info :: u8
  th_stack_addr :: nat
  th_stack_size :: u32
  th_current_priority :: u8
  th_init_priority :: u8
  th_init_tick :: u32
  th_remaining_tick :: u32
  th_delete_stack_flag :: bool

record ipc = object +
  suspend_list :: clist

record semaphore = ipc +
  sem_value :: u16

record mutex = ipc +
  mtx_value :: u16
  mtx_original_priority :: u8
  mtx_hold :: u8
  mtx_owner :: "nat option"

record event = ipc +
  ev_set :: u32

text \<open>The message buffer of a mailbox: its address and the words that may be accessed.\<close>

record mailbox = ipc +
  mb_pool_addr :: "nat option"
  mb_msg_pool :: "nat \<Rightarrow> u32 option"
  mb_size :: u16
  mb_entry :: u16
  mb_in_offset :: u16
  mb_out_offset :: u16
  mb_delete_pool_flag :: bool
  mb_suspend_sender :: clist

text \<open>The pool of a message queue: slot \<open>i\<close> is the link word and the bytes behind it, as far as they may
  be accessed.\<close>

record mq_message =
  mq_next :: "nat option"
  mq_bytes :: "u8 list"

record msgqueue = ipc +
  mq_pool_addr :: "nat option"
  mq_msg_pool :: "nat \<Rightarrow> mq_message option"
  mq_msg_size :: u16
  mq_max_msgs :: u16
  mq_entry :: u16
  mq_queue_head :: "nat option"
  mq_queue_tail :: "nat option"
  mq_queue_free :: "nat option"

section \<open>The kernel\<close>

record kernel =
  global_tick :: u32
  interrupt_nest :: u8
  sys_errno :: err_t
  object_container :: "object_class \<Rightarrow> string \<Rightarrow> nat option"
  threads :: "nat \<Rightarrow> thread option"
  timers :: "nat \<Rightarrow> timer option"
  sems :: "nat \<Rightarrow> semaphore option"
  mutexes :: "nat \<Rightarrow> mutex option"
  events :: "nat \<Rightarrow> event option"
  mboxes :: "nat \<Rightarrow> mailbox option"
  mqs :: "nat \<Rightarrow> msgqueue option"
  lnodes :: "nat lheap"
  timer_tree :: "nat rbtree"
  priority_tree :: "nat rbtree"
  ready_table :: "nat \<Rightarrow> nat option"
  ready_lists :: "nat \<Rightarrow> clist option"
  defunct_list :: clist
  current_thread :: "nat option"
  lock_nest :: u16
  switch_interrupt_flag :: bool
  interrupt_from_thread :: "nat option"
  interrupt_to_thread :: "nat option"
  kfreed :: "nat list"

record env =
  arch_switch :: "nat \<Rightarrow> nat \<Rightarrow> kernel \<Rightarrow> kernel option"
  user_timeout :: "nat \<Rightarrow> nat \<Rightarrow> kernel \<Rightarrow> kernel option"

definition CONFIG_TICK_PER_SECOND :: u32 where "CONFIG_TICK_PER_SECOND = 1000"
definition TICK_MAX :: u32 where "TICK_MAX = 0xffffffff"
definition CONFIG_ALIGN_SIZE :: u32 where "CONFIG_ALIGN_SIZE = 4"

text \<open>\<open>Scheduler::THREAD_PRIORITY_MAX\<close>, the number of entries of \<open>ready_table_\<close>.\<close>

definition THREAD_PRIORITY_MAX :: nat where "THREAD_PRIORITY_MAX = 255"

definition THREAD_INIT :: u8 where "THREAD_INIT = 0x00"
definition THREAD_READY :: u8 where "THREAD_READY = 0x01"
definition THREAD_SUSPEND :: u8 where "THREAD_SUSPEND = 0x02"
definition THREAD_CLOSE :: u8 where "THREAD_CLOSE = 0x04"

lemmas stat_defs = THREAD_INIT_def THREAD_READY_def THREAD_SUSPEND_def THREAD_CLOSE_def

definition kfree_call :: "nat \<Rightarrow> kernel \<Rightarrow> kernel" where
  "kfree_call a k = k\<lparr>kfreed := a # kfreed k\<rparr>"

text \<open>Assignments to the fields of an object.\<close>

definition upd_thread :: "nat \<Rightarrow> (thread \<Rightarrow> thread) \<Rightarrow> kernel \<Rightarrow> kernel option" where
  "upd_thread t f k = do { h \<leftarrow> heap_upd (threads k) t f; Some (k\<lparr>threads := h\<rparr>) }"

definition upd_timer :: "nat \<Rightarrow> (timer \<Rightarrow> timer) \<Rightarrow> kernel \<Rightarrow> kernel option" where
  "upd_timer t f k = do { h \<leftarrow> heap_upd (timers k) t f; Some (k\<lparr>timers := h\<rparr>) }"

definition upd_sem :: "nat \<Rightarrow> (semaphore \<Rightarrow> semaphore) \<Rightarrow> kernel \<Rightarrow> kernel option" where
  "upd_sem s f k = do { h \<leftarrow> heap_upd (sems k) s f; Some (k\<lparr>sems := h\<rparr>) }"

definition upd_mutex :: "nat \<Rightarrow> (mutex \<Rightarrow> mutex) \<Rightarrow> kernel \<Rightarrow> kernel option" where
  "upd_mutex s f k = do { h \<leftarrow> heap_upd (mutexes k) s f; Some (k\<lparr>mutexes := h\<rparr>) }"

definition upd_event :: "nat \<Rightarrow> (event \<Rightarrow> event) \<Rightarrow> kernel \<Rightarrow> kernel option" where
  "upd_event s f k = do { h \<leftarrow> heap_upd (events k) s f; Some (k\<lparr>events := h\<rparr>) }"

definition upd_mbox :: "nat \<Rightarrow> (mailbox \<Rightarrow> mailbox) \<Rightarrow> kernel \<Rightarrow> kernel option" where
  "upd_mbox s f k = do { h \<leftarrow> heap_upd (mboxes k) s f; Some (k\<lparr>mboxes := h\<rparr>) }"

definition upd_mq :: "nat \<Rightarrow> (msgqueue \<Rightarrow> msgqueue) \<Rightarrow> kernel \<Rightarrow> kernel option" where
  "upd_mq s f k = do { h \<leftarrow> heap_upd (mqs k) s f; Some (k\<lparr>mqs := h\<rparr>) }"

lemma upd_thread_Some [simp]:
  "threads k t = Some th \<Longrightarrow> upd_thread t f k = Some (k\<lparr>threads := (threads k)(t \<mapsto> f th)\<rparr>)"
  by (simp add: upd_thread_def)

lemma upd_timer_Some [simp]:
  "timers k t = Some tm \<Longrightarrow> upd_timer t f k = Some (k\<lparr>timers := (timers k)(t \<mapsto> f tm)\<rparr>)"
  by (simp add: upd_timer_def)

lemma upd_sem_Some [simp]:
  "sems k s = Some x \<Longrightarrow> upd_sem s f k = Some (k\<lparr>sems := (sems k)(s \<mapsto> f x)\<rparr>)"
  by (simp add: upd_sem_def)

lemma upd_mutex_Some [simp]:
  "mutexes k s = Some x \<Longrightarrow> upd_mutex s f k = Some (k\<lparr>mutexes := (mutexes k)(s \<mapsto> f x)\<rparr>)"
  by (simp add: upd_mutex_def)

lemma upd_event_Some [simp]:
  "events k s = Some x \<Longrightarrow> upd_event s f k = Some (k\<lparr>events := (events k)(s \<mapsto> f x)\<rparr>)"
  by (simp add: upd_event_def)

lemma upd_mbox_Some [simp]:
  "mboxes k s = Some x \<Longrightarrow> upd_mbox s f k = Some (k\<lparr>mboxes := (mboxes k)(s \<mapsto> f x)\<rparr>)"
  by (simp add: upd_mbox_def)

lemma upd_mq_Some [simp]:
  "mqs k s = Some x \<Longrightarrow> upd_mq s f k = Some (k\<lparr>mqs := (mqs k)(s \<mapsto> f x)\<rparr>)"
  by (simp add: upd_mq_def)

section \<open>Clock and interrupt nesting\<close>

definition tick_get :: "kernel \<Rightarrow> u32" where
  "tick_get k = global_tick k"

definition tick_set :: "u32 \<Rightarrow> kernel \<Rightarrow> kernel" where
  "tick_set tick k = k\<lparr>global_tick := tick\<rparr>"

text \<open>32-bit arithmetic: the product wraps around.\<close>

definition tick_from_millisecond :: "u32 \<Rightarrow> u32" where
  "tick_from_millisecond ms = (CONFIG_TICK_PER_SECOND * ms + 999) div 1000"

definition interrupt_enter :: "kernel \<Rightarrow> kernel" where
  "interrupt_enter k = k\<lparr>interrupt_nest := interrupt_nest k + 1\<rparr>"

definition interrupt_leave :: "kernel \<Rightarrow> kernel" where
  "interrupt_leave k = k\<lparr>interrupt_nest := interrupt_nest k - 1\<rparr>"

definition interrupt_get_nest :: "kernel \<Rightarrow> u8" where
  "interrupt_get_nest k = interrupt_nest k"

text \<open>
  \<open>arch_context_switch_interrupt\<close> (\<^verbatim>\<open>arch/x86/common/context_gcc.S\<close>): note the switch for
  the end of the interrupt; the thread to come back to is noted only by the first request.
\<close>

definition arch_context_switch_interrupt :: "nat \<Rightarrow> nat \<Rightarrow> kernel \<Rightarrow> kernel" where
  "arch_context_switch_interrupt from to k =
     (if switch_interrupt_flag k then k\<lparr>interrupt_to_thread := Some to\<rparr>
      else k\<lparr>switch_interrupt_flag := True, interrupt_from_thread := Some from,
             interrupt_to_thread := Some to\<rparr>)"

section \<open>Error number and context checks\<close>

definition get_errno :: "kernel \<Rightarrow> (err_t \<times> kernel) option" where
  "get_errno k =
     (if interrupt_get_nest k \<noteq> 0 then Some (sys_errno k, k\<lparr>sys_errno := ERR_OK\<rparr>)
      else (case current_thread k of
          None \<Rightarrow> Some (sys_errno k, k\<lparr>sys_errno := ERR_OK\<rparr>)
        | Some t \<Rightarrow> do {
            th \<leftarrow> threads k t;
            k \<leftarrow> upd_thread t (th_error_update (\<lambda>_. ERR_OK)) k;
            Some (th_error th, k) }))"

definition set_errno :: "err_t \<Rightarrow> kernel \<Rightarrow> kernel option" where
  "set_errno er k =
     (if interrupt_get_nest k \<noteq> 0 then Some (k\<lparr>sys_errno := er\<rparr>)
      else (case current_thread k of
          None \<Rightarrow> Some (k\<lparr>sys_errno := er\<rparr>)
        | Some t \<Rightarrow> upd_thread t (th_error_update (\<lambda>_. er)) k))"

definition debug_not_in_interrupt :: "kernel \<Rightarrow> unit option" where
  "debug_not_in_interrupt k = cos_assert (interrupt_get_nest k = 0)"

definition debug_in_thread_context :: "kernel \<Rightarrow> unit option" where
  "debug_in_thread_context k = do {
     cos_assert (current_thread k \<noteq> None);
     debug_not_in_interrupt k }"

end
