(* ===== verification/Cos_Object.thy ===== *)
theory Cos_Object
  imports Cos_Kernel
begin

text \<open>
  The registry of kernel objects, \<^verbatim>\<open>kernel/object.cpp\<close>: one map from names to objects per class.
  \<open>strcpy\<close> of a name that does not fit into \<open>name_\<close> and the access to
  \<open>object_container_[Object_Class_Unknown]\<close>, which is beyond the array, have no outcome here.
\<close>

definition CONFIG_NAME_MAX :: nat where "CONFIG_NAME_MAX = 32"

section \<open>Operations\<close>

definition object_init :: "object_class \<Rightarrow> string \<Rightarrow> object" where
  "object_init type name = \<lparr>ob_flag = 0, ob_name = name, ob_type = type\<rparr>"

text \<open>The constructor, as far as it changes the registry; \<open>this\<close> is the address of the object.\<close>

definition Object_new :: "object_class \<Rightarrow> string \<Rightarrow> nat \<Rightarrow> kernel \<Rightarrow> kernel option" where
  "Object_new type name this k =
     (if length name \<ge> CONFIG_NAME_MAX \<or> type = Object_Class_Unknown then None
      else if object_container k type name = None then
        Some (k\<lparr>object_container := (object_container k)(type := (object_container k type)(name \<mapsto> this))\<rparr>)
      else set_errno (- ERR_FULL) k)"

definition Object_detach :: "object_class \<Rightarrow> string \<Rightarrow> kernel \<Rightarrow> kernel option" where
  "Object_detach type name k =
     (if type = Object_Class_Unknown then None
      else Some (k\<lparr>object_container :=
             (object_container k)(type := (object_container k type)(name := None))\<rparr>))"

text \<open>The destructor just detaches.\<close>

definition Object_delete :: "object_class \<Rightarrow> string \<Rightarrow> kernel \<Rightarrow> kernel option" where
  "Object_delete type name k = Object_detach type name k"

definition Object_find :: "string option \<Rightarrow> object_class \<Rightarrow> kernel \<Rightarrow> nat option option" where
  "Object_find name type k =
     (case name of
        None \<Rightarrow> Some None
      | Some nm \<Rightarrow> do {
          debug_not_in_interrupt k;
          if type = Object_Class_Unknown then None
          else Some (object_container k type nm) })"

section \<open>Properties\<close>

text \<open>An idle machine: nothing registered, no thread, not in an interrupt.\<close>

definition empty_kernel :: kernel where
  "empty_kernel = \<lparr>global_tick = 0, interrupt_nest = 0, sys_errno = 0,
     object_container = (\<lambda>_ _. None), threads = (\<lambda>_. None), timers = (\<lambda>_. None), sems = (\<lambda>_. None),
     mutexes = (\<lambda>_. None), events = (\<lambda>_. None), mboxes = (\<lambda>_. None), mqs = (\<lambda>_. None),
     lnodes = (\<lambda>_. None), timer_tree = RBTree_new 0,
     priority_tree = RBTree_new 0, ready_table = (\<lambda>_. None), ready_lists = (\<lambda>_. None),
     defunct_list = List_new, current_thread = None, lock_nest = 0, switch_interrupt_flag = False,
     interrupt_from_thread = None, interrupt_to_thread = None, kfreed = []\<rparr>"

text \<open>An object registered under a name not yet used in its class is found under that name,
  no other name in any class changes its meaning, and after detaching it the registry is what it was.\<close>

lemma object_register_find:
  assumes "length name < CONFIG_NAME_MAX" and "type \<noteq> Object_Class_Unknown"
    and "object_container k type name = None" and "interrupt_nest k = 0"
  shows "\<exists>k'. Object_new type name this k = Some k' \<and> Object_find (Some name) type k' = Some (Some this) \<and>
    (\<forall>nm ty. (nm, ty) \<noteq> (name, type) \<longrightarrow> Object_find (Some nm) ty k' = Object_find (Some nm) ty k) \<and>
    Object_detach type name k' = Some k"
proof -
  let ?k = "k\<lparr>object_container := (object_container k)(type := (object_container k type)(name \<mapsto> this))\<rparr>"
  have "Object_new type name this k = Some ?k" using assms by (simp add: Object_new_def)
  moreover have "Object_find (Some name) type ?k = Some (Some this)"
    using assms by (simp add: Object_find_def debug_not_in_interrupt_def interrupt_get_nest_def)
  moreover have "Object_find (Some nm) ty ?k = Object_find (Some nm) ty k" if "(nm, ty) \<noteq> (name, type)" for nm ty
    using that by (simp add: Object_find_def debug_not_in_interrupt_def interrupt_get_nest_def)
  moreover have "(object_container k)(type := (object_container k type)(name := None)) = object_container k"
    using assms(3) by (simp add: fun_upd_idem)
  then have "Object_detach type name ?k = Some k" using assms(2) by (simp add: Object_detach_def)
  ultimately show ?thesis by blast
qed

text \<open>A second object with a name in use is not registered, as the error number tells; but when it
  is destroyed, its destructor takes the first object, which is still alive, out of the registry.\<close>

lemma object_duplicate_unregisters:
  assumes "length name < CONFIG_NAME_MAX" and "type \<noteq> Object_Class_Unknown"
    and "object_container k type name = Some a" and "current_thread k = None" and "interrupt_nest k = 0"
  shows "\<exists>k1 k2. Object_new type name b k = Some k1 \<and> sys_errno k1 = - ERR_FULL \<and>
    Object_find (Some name) type k1 = Some (Some a) \<and>
    Object_delete type name k1 = Some k2 \<and> Object_find (Some name) type k2 = Some None"
  using assms by (simp add: Object_new_def Object_find_def Object_delete_def Object_detach_def
      set_errno_def debug_not_in_interrupt_def interrupt_get_nest_def)

end
