(* ===== verification/Cos_Timer.thy ===== *)
theory Cos_Timer
  imports Cos_Object
begin

text \<open>
  Timers, \<^verbatim>\<open>kernel/timer.cpp\<close>, except for \<open>Timer::check\<close>, which calls back into the scheduler and is
  in \<open>Cos_Clock\<close>. Running timers are in \<open>timer_tree_\<close>, ordered by their expiry tick. The tick is unsigned,
  the key of a tree node a signed \<open>long\<close>: \<open>set_key\<close> reads the 32 bits as a signed number.
\<close>

section \<open>Constants\<close>

definition TIMER_FLAG_ACTIVATED :: u16 where "TIMER_FLAG_ACTIVATED = 0x1"
definition TIMER_FLAG_ONE_SHOT :: u8 where "TIMER_FLAG_ONE_SHOT = 0x0"
definition TIMER_FLAG_PERIODIC :: u16 where "TIMER_FLAG_PERIODIC = 0x2"
definition TIMER_CTRL_SET_TIME :: u8 where "TIMER_CTRL_SET_TIME = 0x0"
definition TIMER_CTRL_GET_TIME :: u8 where "TIMER_CTRL_GET_TIME = 0x1"
definition TIMER_CTRL_SET_ONESHOT :: u8 where "TIMER_CTRL_SET_ONESHOT = 0x2"
definition TIMER_CTRL_SET_PERIODIC :: u8 where "TIMER_CTRL_SET_PERIODIC = 0x3"

lemmas timer_defs = TIMER_FLAG_ACTIVATED_def TIMER_FLAG_ONE_SHOT_def TIMER_FLAG_PERIODIC_def
  TIMER_CTRL_SET_TIME_def TIMER_CTRL_GET_TIME_def TIMER_CTRL_SET_ONESHOT_def TIMER_CTRL_SET_PERIODIC_def

section \<open>Operations\<close>

text \<open>\<open>this\<close> is the address of the new timer, \<open>node\<close> that of its new tree node.\<close>

definition Timer_new ::
  "string \<Rightarrow> timeout_func \<Rightarrow> nat \<Rightarrow> u32 \<Rightarrow> u8 \<Rightarrow> nat \<Rightarrow> nat \<Rightarrow> kernel \<Rightarrow> kernel option" where
  "Timer_new name timeout parameter time flag this node k = do {
     k \<leftarrow> Object_new Object_Class_Timer name this k;
     Some (k\<lparr>timers := (timers k)(this \<mapsto>
              object.extend ((object_init Object_Class_Timer name)\<lparr>ob_flag := ucast flag AND NOT TIMER_FLAG_ACTIVATED\<rparr>)
                \<lparr>tm_timeout_func = timeout, tm_parameter = parameter, tm_init_tick = time,
                 tm_timeout_tick = 0, tm_node = node\<rparr>),
            timer_tree := (timer_tree k)\<lparr>rb_nodes := (rb_nodes (timer_tree k))(node \<mapsto> rbnode_new 0 this False)\<rparr>\<rparr>) }"

text \<open>\<open>timer_tree_.remove(node_)\<close> and \<open>timer_tree_.insert(node_)\<close>.\<close>

definition timer_tree_remove :: "nat \<Rightarrow> kernel \<Rightarrow> kernel option" where
  "timer_tree_remove node k = do {
     (_, T) \<leftarrow> rb_remove (timer_tree k) (Some node);
     Some (k\<lparr>timer_tree := T\<rparr>) }"

definition timer_tree_insert :: "nat \<Rightarrow> kernel \<Rightarrow> kernel option" where
  "timer_tree_insert node k = do {
     (_, T) \<leftarrow> rb_insert (timer_tree k) node;
     Some (k\<lparr>timer_tree := T\<rparr>) }"

definition Timer_detach :: "nat \<Rightarrow> kernel \<Rightarrow> (err_t \<times> kernel) option" where
  "Timer_detach this k = do {
     tm \<leftarrow> timers k this;
     k \<leftarrow> timer_tree_remove (tm_node tm) k;
     k \<leftarrow> Object_detach (ob_type tm) (ob_name tm) k;
     Some (- ERR_OK, k) }"

text \<open>The destructor: \<open>detach\<close>, the node, the base class and the object itself.\<close>

definition Timer_delete :: "nat \<Rightarrow> kernel \<Rightarrow> kernel option" where
  "Timer_delete this k = do {
     tm \<leftarrow> timers k this;
     (_, k) \<leftarrow> Timer_detach this k;
     k \<leftarrow> Object_delete (ob_type tm) (ob_name tm)
            (k\<lparr>timer_tree := (timer_tree k)\<lparr>rb_nodes := (rb_nodes (timer_tree k))(tm_node tm := None)\<rparr>\<rparr>);
     Some (k\<lparr>timers := (timers k)(this := None)\<rparr>) }"

definition Timer_start :: "nat \<Rightarrow> kernel \<Rightarrow> (err_t \<times> kernel) option" where
  "Timer_start this k = do {
     tm \<leftarrow> timers k this;
     k \<leftarrow> timer_tree_remove (tm_node tm) k;
     k \<leftarrow> upd_timer this (ob_flag_update (\<lambda>f. f AND NOT TIMER_FLAG_ACTIVATED)) k;
     cos_assert (tm_init_tick tm < TICK_MAX div 2);
     let timeout = tick_get k + tm_init_tick tm;
     k \<leftarrow> upd_timer this (tm_timeout_tick_update (\<lambda>_. timeout)) k;
     k \<leftarrow> upd_timer this (ob_flag_update (\<lambda>f. f OR TIMER_FLAG_ACTIVATED)) k;
     T \<leftarrow> rb_set_key (tm_node tm) (sint timeout) (timer_tree k);
     k \<leftarrow> timer_tree_insert (tm_node tm) (k\<lparr>timer_tree := T\<rparr>);
     Some (- ERR_OK, k) }"

definition Timer_stop :: "nat \<Rightarrow> kernel \<Rightarrow> (err_t \<times> kernel) option" where
  "Timer_stop this k = do {
     tm \<leftarrow> timers k this;
     if ob_flag tm AND TIMER_FLAG_ACTIVATED = 0 then Some (- ERR_ERROR, k)
     else do {
       k \<leftarrow> timer_tree_remove (tm_node tm) k;
       k \<leftarrow> upd_timer this (ob_flag_update (\<lambda>f. f AND NOT TIMER_FLAG_ACTIVATED)) k;
       Some (ERR_OK, k) } }"

text \<open>\<open>control\<close>: \<open>arg\<close> is the tick the pointer argument refers to; the result has its new value.\<close>

definition Timer_control :: "nat \<Rightarrow> u8 \<Rightarrow> u32 \<Rightarrow> kernel \<Rightarrow> (err_t \<times> u32 \<times> kernel) option" where
  "Timer_control this cmd arg k = do {
     tm \<leftarrow> timers k this;
     if cmd = TIMER_CTRL_GET_TIME then Some (ERR_OK, tm_init_tick tm, k)
     else if cmd = TIMER_CTRL_SET_TIME then do {
       k \<leftarrow> upd_timer this (tm_init_tick_update (\<lambda>_. arg)) k; Some (ERR_OK, arg, k) }
     else if cmd = TIMER_CTRL_SET_ONESHOT then do {
       k \<leftarrow> upd_timer this (ob_flag_update (\<lambda>f. f AND NOT TIMER_FLAG_PERIODIC)) k; Some (ERR_OK, arg, k) }
     else if cmd = TIMER_CTRL_SET_PERIODIC then do {
       k \<leftarrow> upd_timer this (ob_flag_update (\<lambda>f. f OR TIMER_FLAG_PERIODIC)) k; Some (ERR_OK, arg, k) }
     else Some (ERR_OK, arg, k) }"

end
