(* ===== verification/Cos_Scheduler.thy ===== *)
theory Cos_Scheduler
  imports Cos_Timer
begin

text \<open>
  The scheduler, \<^verbatim>\<open>kernel/scheduler.cpp\<close>. Per priority there is a list of ready threads; the tree
  nodes of the priorities whose list is not empty are in \<open>priority_tree_\<close>, so that the minimum of
  the tree names the list whose first thread runs next. A smaller number is a higher priority.
\<close>

section \<open>Operations\<close>

definition get_current_thread :: "kernel \<Rightarrow> nat option" where
  "get_current_thread k = current_thread k"

text \<open>\<open>init\<close>: the node of priority \<open>i\<close> gets address \<open>i + 1\<close>, its list address \<open>i\<close>.\<close>

definition Scheduler_init :: "kernel \<Rightarrow> kernel" where
  "Scheduler_init k = k\<lparr>
     ready_table := (\<lambda>i. if i < THREAD_PRIORITY_MAX then Some (i + 1) else None),
     ready_lists := (\<lambda>i. if i < THREAD_PRIORITY_MAX then Some List_new else ready_lists k i),
     priority_tree := (priority_tree k)\<lparr>rb_nodes := (\<lambda>a. if 0 < a \<and> a \<le> THREAD_PRIORITY_MAX
       then Some (rbnode_new (int (a - 1)) (a - 1) False) else rb_nodes (priority_tree k) a)\<rparr>\<rparr>"

text \<open>\<open>priority_tree_.min()->front()\<close>: the minimum may be \<open>NULL\<close>, and so may the front.\<close>

definition next_thread :: "kernel \<Rightarrow> nat option option" where
  "next_thread k = do {
     m \<leftarrow> rb_min (priority_tree k);
     l \<leftarrow> m;
     c \<leftarrow> ready_lists k l;
     List_front (lnodes k) c }"

definition Scheduler_start :: "kernel \<Rightarrow> kernel option" where
  "Scheduler_start k = do {
     to \<leftarrow> next_thread k;
     t \<leftarrow> to;
     Some (k\<lparr>current_thread := Some t\<rparr>) }"

definition process :: "env \<Rightarrow> kernel \<Rightarrow> kernel option" where
  "process e k =
     (if lock_nest k = 0 then do {
        to_thread \<leftarrow> next_thread k;
        if to_thread \<noteq> current_thread k then do {
          from_thread \<leftarrow> current_thread k;
          to \<leftarrow> to_thread;
          let k = k\<lparr>current_thread := Some to\<rparr>;
          if interrupt_get_nest k = 0 then arch_switch e from_thread to k
          else Some (arch_context_switch_interrupt from_thread to k) }
        else Some k }
      else Some k)"

text \<open>The list of the priority of a thread: \<open>ready_table_[thread->current_priority_]->getObj()\<close>.\<close>

definition ready_list_of :: "thread \<Rightarrow> kernel \<Rightarrow> (nat \<times> nat \<times> clist) option" where
  "ready_list_of th k = do {
     node \<leftarrow> ready_table k (unat (th_current_priority th));
     n \<leftarrow> rb_nodes (priority_tree k) node;
     c \<leftarrow> ready_lists k (rb_obj n);
     Some (node, rb_obj n, c) }"

definition insert_thread :: "nat \<Rightarrow> kernel \<Rightarrow> kernel option" where
  "insert_thread t k = do {
     k \<leftarrow> upd_thread t (th_stat_update (\<lambda>_. THREAD_READY)) k;
     th \<leftarrow> threads k t;
     (node, l, c) \<leftarrow> ready_list_of th k;
     k \<leftarrow> (if List_empty c then do {
            (_, T) \<leftarrow> rb_insert (priority_tree k) node;
            Some (k\<lparr>priority_tree := T\<rparr>) }
          else Some k);
     (h, c) \<leftarrow> push_back (lnodes k) c (th_list_node th);
     Some (k\<lparr>lnodes := h, ready_lists := (ready_lists k)(l \<mapsto> c)\<rparr>) }"

definition remove_thread :: "nat \<Rightarrow> kernel \<Rightarrow> kernel option" where
  "remove_thread t k = do {
     th \<leftarrow> threads k t;
     (node, l, c) \<leftarrow> ready_list_of th k;
     (h, c) \<leftarrow> erase (lnodes k) c (th_list_node th);
     let k = k\<lparr>lnodes := h, ready_lists := (ready_lists k)(l \<mapsto> c)\<rparr>;
     if List_empty c then do {
       (_, T) \<leftarrow> rb_remove (priority_tree k) (Some node);
       Some (k\<lparr>priority_tree := T\<rparr>) }
     else Some k }"

definition enter_critical :: "kernel \<Rightarrow> kernel" where
  "enter_critical k = k\<lparr>lock_nest := lock_nest k + 1\<rparr>"

text \<open>\<open>lock_nest_\<close> is an \<open>int16_t\<close>.\<close>

definition exit_critical :: "env \<Rightarrow> kernel \<Rightarrow> kernel option" where
  "exit_critical e k =
     (let k = k\<lparr>lock_nest := lock_nest k - 1\<rparr> in
      if sint (lock_nest k) \<le> 0 then process e (k\<lparr>lock_nest := 0\<rparr>)
      else Some k)"

definition critical_level :: "kernel \<Rightarrow> u16" where
  "critical_level k = lock_nest k"

definition insert_defunct_thread :: "nat \<Rightarrow> kernel \<Rightarrow> kernel option" where
  "insert_defunct_thread t k = do {
     th \<leftarrow> threads k t;
     (h, c) \<leftarrow> push_back (lnodes k) (defunct_list k) (th_list_node th);
     Some (k\<lparr>lnodes := h, defunct_list := c\<rparr>) }"

definition remove_defunct_thread :: "nat \<Rightarrow> kernel \<Rightarrow> kernel option" where
  "remove_defunct_thread t k = do {
     th \<leftarrow> threads k t;
     (h, c) \<leftarrow> erase (lnodes k) (defunct_list k) (th_list_node th);
     Some (k\<lparr>lnodes := h, defunct_list := c\<rparr>) }"

text \<open>\<open>inclock\<close>: the tick argument is not used. A thread whose time slice is used up goes to the end
  of its ready list.\<close>

definition inclock :: "env \<Rightarrow> kernel \<Rightarrow> kernel option" where
  "inclock e k =
     (case current_thread k of
        None \<Rightarrow> Some k
      | Some t \<Rightarrow> do {
          k \<leftarrow> upd_thread t (th_remaining_tick_update (\<lambda>r. r - 1)) k;
          th \<leftarrow> threads k t;
          if th_remaining_tick th = 0 then do {
            k \<leftarrow> upd_thread t (th_remaining_tick_update (\<lambda>_. th_init_tick th)) k;
            if th_stat th = THREAD_READY then do {
              (node, l, c) \<leftarrow> ready_list_of th k;
              (h, c) \<leftarrow> erase (lnodes k) c (th_list_node th);
              (h, c) \<leftarrow> push_back h c (th_list_node th);
              process e (k\<lparr>lnodes := h, ready_lists := (ready_lists k)(l \<mapsto> c)\<rparr>) }
            else Some k }
          else Some k })"

end
