(* ===== verification/Cos_Scheduler_Correct.thy ===== *)
theory Cos_Scheduler_Correct
  imports Cos_Scheduler
begin

text \<open>
  The ready queue the scheduler maintains. \<open>sched_inv k rq\<close> says that the state \<open>k\<close> holds, for each
  priority \<open>p\<close>, the threads \<open>rq p\<close> in this order, and that the priority tree has exactly the
  priorities with a thread. The operations of the scheduler are shown to act on \<open>rq\<close>.
\<close>

section \<open>The invariant\<close>

definition ready_nodes :: "(nat \<Rightarrow> nat list) \<Rightarrow> nat list" where
  "ready_nodes rq = map Suc (filter (\<lambda>p. rq p \<noteq> []) [0..<THREAD_PRIORITY_MAX])"

text \<open>The tree node of priority \<open>p\<close>.\<close>

definition prio_node :: "kernel \<Rightarrow> nat \<Rightarrow> bool" where
  "prio_node k p \<longleftrightarrow> ready_table k p = Some (Suc p) \<and>
     (\<exists>n. rb_nodes (priority_tree k) (Suc p) = Some n \<and> rb_obj n = p \<and> rb_key n = int p)"

text \<open>A thread that waits in the ready list of priority \<open>p\<close>.\<close>

definition ready_thread :: "kernel \<Rightarrow> nat \<Rightarrow> nat \<Rightarrow> bool" where
  "ready_thread k p t \<longleftrightarrow>
     (\<exists>th n. threads k t = Some th \<and> th_stat th = THREAD_READY \<and> unat (th_current_priority th) = p \<and>
        th_list_node th = t \<and> lnodes k t = Some n \<and> ln_value n = t)"

definition sched_inv :: "kernel \<Rightarrow> (nat \<Rightarrow> nat list) \<Rightarrow> bool" where
  "sched_inv k rq \<longleftrightarrow>
     (\<forall>p<THREAD_PRIORITY_MAX. prio_node k p \<and>
        (\<exists>c. ready_lists k p = Some c \<and> list_rep (lnodes k) c (rq p)) \<and>
        (rq p = [] \<longrightarrow> loose (priority_tree k) (Suc p))) \<and>
     (\<forall>p\<ge>THREAD_PRIORITY_MAX. rq p = []) \<and>
     rb_balanced (priority_tree k) (ready_nodes rq) \<and>
     (\<forall>p. \<forall>t\<in>set (rq p). ready_thread k p t)"

lemma sched_invD:
  assumes "sched_inv k rq"
  shows "p < THREAD_PRIORITY_MAX \<Longrightarrow> prio_node k p"
    "p < THREAD_PRIORITY_MAX \<Longrightarrow> \<exists>c. ready_lists k p = Some c \<and> list_rep (lnodes k) c (rq p)"
    "p < THREAD_PRIORITY_MAX \<Longrightarrow> rq p = [] \<Longrightarrow> loose (priority_tree k) (Suc p)"
    "THREAD_PRIORITY_MAX \<le> p \<Longrightarrow> rq p = []"
    "rb_balanced (priority_tree k) (ready_nodes rq)"
    "t \<in> set (rq p) \<Longrightarrow> ready_thread k p t"
  using assms by (auto simp: sched_inv_def)

lemma sched_inv_prio: "sched_inv k rq \<Longrightarrow> rq p \<noteq> [] \<Longrightarrow> p < THREAD_PRIORITY_MAX"
  by (meson not_le sched_invD(4))

lemma ready_thread_unique:
  "sched_inv k rq \<Longrightarrow> t \<in> set (rq p) \<Longrightarrow> t \<in> set (rq q) \<Longrightarrow> p = q"
  using sched_invD(6) [of k rq t p] sched_invD(6) [of k rq t q] by (auto simp: ready_thread_def)

text \<open>The invariant reads only a part of the state.\<close>

lemma sched_inv_cong:
  assumes "ready_table k' = ready_table k" "priority_tree k' = priority_tree k"
    "ready_lists k' = ready_lists k" "lnodes k' = lnodes k"
    "\<And>p t. t \<in> set (rq p) \<Longrightarrow> ready_thread k' p t = ready_thread k p t"
  shows "sched_inv k' rq = sched_inv k rq"
  using assms by (auto simp: sched_inv_def prio_node_def)

lemma strict_sorted_ready_nodes: "sorted_wrt (<) (ready_nodes rq)"
  by (auto simp: ready_nodes_def sorted_wrt_map intro: sorted_wrt_filter sorted_wrt_mono_rel [OF _ sorted_wrt_upt])

lemma set_ready_nodes: "set (ready_nodes rq) = Suc ` {p. p < THREAD_PRIORITY_MAX \<and> rq p \<noteq> []}"
  by (auto simp: ready_nodes_def)

lemma keyof_prio: "prio_node k p \<Longrightarrow> keyof (priority_tree k) (Suc p) = int p"
  by (auto simp: prio_node_def keyof_def)

text \<open>A strictly increasing sequence of priority nodes is determined by its set.\<close>

lemma ready_nodes_eqI:
  assumes "sched_inv k rq0" "keyof T = keyof (priority_tree k)" "key_sorted (keyof T) xs" "set xs = set (ready_nodes rq)"
  shows "xs = ready_nodes rq"
proof -
  have "sorted_wrt (<) xs"
  proof (rule sorted_wrt_mono_rel [OF _ assms(3)])
    fix a b
    assume "a \<in> set xs" "b \<in> set xs" "keyof T a < keyof T b"
    moreover from this obtain p q where "a = Suc p" "b = Suc q" "p < THREAD_PRIORITY_MAX" "q < THREAD_PRIORITY_MAX"
      using assms(4) by (auto simp: set_ready_nodes)
    ultimately show "a < b"
      using keyof_prio [OF sched_invD(1) [OF assms(1)]] assms(2) by simp
  qed
  then show ?thesis using strict_sorted_ready_nodes assms(4) strict_sorted_equal by metis
qed

section \<open>Selection\<close>

lemma next_thread_inv:
  assumes inv: "sched_inv k rq" and p: "rq p \<noteq> []" "\<forall>q<p. rq q = []"
  shows "next_thread k = Some (Some (hd (rq p)))"
proof -
  have pm: "p < THREAD_PRIORITY_MAX" by (rule sched_inv_prio [OF inv p(1)])
  have "[0..<THREAD_PRIORITY_MAX] = [0..<p] @ [p..<THREAD_PRIORITY_MAX]"
    using upt_add_eq_append [of 0 p "THREAD_PRIORITY_MAX - p"] pm by simp
  then have "filter (\<lambda>p. rq p \<noteq> []) [0..<THREAD_PRIORITY_MAX] =
      filter (\<lambda>p. rq p \<noteq> []) [0..<p] @ filter (\<lambda>p. rq p \<noteq> []) [p..<THREAD_PRIORITY_MAX]" by simp
  also have "filter (\<lambda>p. rq p \<noteq> []) [0..<p] = []" using p(2) by (simp add: filter_empty_conv)
  also have "[p..<THREAD_PRIORITY_MAX] = p # [Suc p..<THREAD_PRIORITY_MAX]" using pm by (rule upt_conv_Cons)
  finally have rn: "ready_nodes rq \<noteq> []" "hd (ready_nodes rq) = Suc p" using p(1) by (auto simp: ready_nodes_def)
  have min: "rb_min (priority_tree k) = Some (Some p)"
    using rb_min_holds [OF rb_balanced_holds [OF sched_invD(5) [OF inv]]] rn sched_invD(1) [OF inv pm]
    by (auto simp: objof_def prio_node_def)
  obtain c where c: "ready_lists k p = Some c" "list_rep (lnodes k) c (rq p)"
    using sched_invD(2) [OF inv pm] by blast
  obtain t ts where ts: "rq p = t # ts" using p(1) by (cases "rq p") auto
  have "ready_thread k p t" using sched_invD(6) [OF inv, of t p] ts by simp
  then show ?thesis
    using List_front_rep [OF c(2)] min c(1) ts by (auto simp: next_thread_def ready_thread_def)
qed

lemma next_thread_none: "sched_inv k rq \<Longrightarrow> \<forall>p. rq p = [] \<Longrightarrow> next_thread k = None"
  using rb_min_holds [OF rb_balanced_holds [OF sched_invD(5)], of k rq]
  by (simp add: next_thread_def ready_nodes_def)

section \<open>Insertion and removal\<close>

lemma ready_list_of_inv:
  assumes "sched_inv k rq" "unat (th_current_priority th) = p" "p < THREAD_PRIORITY_MAX"
  shows "\<exists>c. ready_list_of th k = Some (Suc p, p, c) \<and> ready_lists k p = Some c \<and> list_rep (lnodes k) c (rq p)"
  using sched_invD(1,2) [OF assms(1,3)] assms(2) by (auto simp: ready_list_of_def prio_node_def)

text \<open>Changing the links of one ready list leaves the others alone.\<close>

lemma list_rep_other:
  assumes inv: "sched_inv k rq" and h: "\<And>a. a \<notin> insert t (set (rq p)) \<Longrightarrow> h a = lnodes k a"
    and t: "\<And>q. q \<noteq> p \<Longrightarrow> t \<notin> set (rq q)" and q: "q \<noteq> p" "list_rep (lnodes k) c (rq q)"
  shows "list_rep h c (rq q)"
proof -
  have "h a = lnodes k a" if a: "a \<in> set (rq q)" for a
  proof (rule h)
    have "a \<noteq> t" using a t [OF q(1)] by metis
    moreover have "a \<notin> set (rq p)" using ready_thread_unique [OF inv a] q(1) by metis
    ultimately show "a \<notin> insert t (set (rq p))" by simp
  qed
  then show ?thesis using list_rep_cong [of "rq q" h "lnodes k" c] q(2) by simp
qed

lemma prio_node_same_data:
  "same_data (priority_tree k) (priority_tree k') \<Longrightarrow> ready_table k' = ready_table k \<Longrightarrow> prio_node k p \<Longrightarrow> prio_node k' p"
  by (auto simp: prio_node_def dest: same_data_lookup)

lemma loose_other:
  "rb_nodes S' a = rb_nodes S a \<Longrightarrow> loose S' a = loose S a"
  by (simp add: loose_def)

lemma same_values_node:
  "same_values h h' \<Longrightarrow> h a = Some n \<Longrightarrow> \<exists>n'. h' a = Some n' \<and> ln_value n' = ln_value n"
  by (auto simp: same_values_def dest!: spec [of _ a])

text \<open>The priority tree after the list of priority \<open>p\<close> got its first thread.\<close>

lemma tree_insert_inv:
  assumes inv: "sched_inv k rq" and p: "p < THREAD_PRIORITY_MAX" "rq p = []"
    and red: "red_node (priority_tree k) (Suc p)" and ne: "xs \<noteq> []"
  shows "\<exists>T. rb_insert (priority_tree k) (Suc p) = Some (True, T) \<and> rb_balanced T (ready_nodes (rq(p := xs))) \<and>
    same_data (priority_tree k) T \<and> (\<forall>q. q \<noteq> p \<longrightarrow> rq q = [] \<longrightarrow> rb_nodes T (Suc q) = rb_nodes (priority_tree k) (Suc q))"
proof -
  let ?S = "priority_tree k" and ?xs = "ready_nodes rq"
  note bal = sched_invD(5) [OF inv] and lo = sched_invD(3) [OF inv p]
  have new: "Suc p \<notin> set ?xs" using p(2) by (auto simp: set_ready_nodes)
  obtain T where T: "rb_insert ?S (Suc p) = Some (True, T)" "same_data ?S T"
    "\<forall>a. a \<notin> insert (Suc p) (set ?xs) \<longrightarrow> rb_nodes T a = rb_nodes ?S a"
    using rb_insert_holds [OF rb_balanced_holds [OF bal] lo new] by blast
  have keynew: "keyof ?S (Suc p) \<notin> keyof ?S ` set ?xs"
  proof
    assume "keyof ?S (Suc p) \<in> keyof ?S ` set ?xs"
    then obtain q where "keyof ?S (Suc p) = keyof ?S (Suc q)" "q < THREAD_PRIORITY_MAX" "rq q \<noteq> []"
      by (auto simp: set_ready_nodes)
    then show False
      using keyof_prio [OF sched_invD(1) [OF inv p(1)]] keyof_prio [OF sched_invD(1) [OF inv, of q]] p(2) by auto
  qed
  have b: "rb_balanced T (insort_after (keyof ?S) (Suc p) ?xs)"
    by (rule rb_insert_balanced [OF bal lo new red keynew T(1)])
  have keyT: "keyof T = keyof ?S" by (rule same_data_keyof [OF T(2)])
  have "insort_after (keyof ?S) (Suc p) ?xs = ready_nodes (rq(p := xs))"
  proof (rule ready_nodes_eqI [OF inv keyT])
    show "key_sorted (keyof T) (insort_after (keyof ?S) (Suc p) ?xs)" using b by (auto simp: rb_balanced_def)
    have "set (insort_after (keyof ?S) (Suc p) ?xs) = insert (Suc p) (set ?xs)"
      unfolding insort_after_def
      by (metis (no_types, lifting) Un_insert_right list.simps(15) set_append takeWhile_dropWhile_id)
    then show "set (insort_after (keyof ?S) (Suc p) ?xs) = set (ready_nodes (rq(p := xs)))"
      using p ne by (auto simp: set_ready_nodes)
  qed
  moreover have "\<forall>q. q \<noteq> p \<longrightarrow> rq q = [] \<longrightarrow> rb_nodes T (Suc q) = rb_nodes ?S (Suc q)"
    using T(3) by (auto simp: set_ready_nodes)
  ultimately show ?thesis using T b by metis
qed

lemma tree_remove_inv:
  assumes inv: "sched_inv k rq" and p: "p < THREAD_PRIORITY_MAX" "rq p \<noteq> []"
  shows "\<exists>T. rb_remove (priority_tree k) (Some (Suc p)) = Some (True, T) \<and>
    rb_balanced T (ready_nodes (rq(p := []))) \<and> loose T (Suc p) \<and> same_data (priority_tree k) T \<and>
    (\<forall>q. rq q = [] \<longrightarrow> rb_nodes T (Suc q) = rb_nodes (priority_tree k) (Suc q))"
proof -
  let ?S = "priority_tree k" and ?xs = "ready_nodes rq"
  note bal = sched_invD(5) [OF inv]
  have "Suc p \<in> set ?xs" using p by (auto simp: set_ready_nodes)
  from rb_remove_balanced [OF bal this] obtain T where
    T: "rb_remove ?S (Some (Suc p)) = Some (True, T)" "rb_balanced T (remove1 (Suc p) ?xs)" "loose T (Suc p)"
    "same_data ?S T" "\<forall>b. b \<notin> set ?xs \<longrightarrow> rb_nodes T b = rb_nodes ?S b" by blast
  have keyT: "keyof T = keyof ?S" by (rule same_data_keyof [OF T(4)])
  have "remove1 (Suc p) ?xs = ready_nodes (rq(p := []))"
  proof (rule ready_nodes_eqI [OF inv keyT])
    show "key_sorted (keyof T) (remove1 (Suc p) ?xs)" using T(2) by (auto simp: rb_balanced_def)
    have "distinct ?xs" using strict_sorted_ready_nodes strict_sorted_iff by blast
    then show "set (remove1 (Suc p) ?xs) = set (ready_nodes (rq(p := [])))"
      by (auto simp: set_ready_nodes)
  qed
  then show ?thesis using T by (auto simp: set_ready_nodes)
qed

text \<open>The parts of the state that inserting or removing a thread writes.\<close>

definition sched_upd :: "kernel \<Rightarrow> (nat \<Rightarrow> thread option) \<Rightarrow> nat rbtree \<Rightarrow> nat lheap \<Rightarrow> (nat \<Rightarrow> clist option) \<Rightarrow> kernel" where
  "sched_upd k ths T h ls = k\<lparr>threads := ths, priority_tree := T, lnodes := h, ready_lists := ls\<rparr>"

lemma sched_upd_simps [simp]:
  "threads (sched_upd k ths T h ls) = ths" "priority_tree (sched_upd k ths T h ls) = T"
  "lnodes (sched_upd k ths T h ls) = h" "ready_lists (sched_upd k ths T h ls) = ls"
  "ready_table (sched_upd k ths T h ls) = ready_table k" "timers (sched_upd k ths T h ls) = timers k"
  "timer_tree (sched_upd k ths T h ls) = timer_tree k" "sems (sched_upd k ths T h ls) = sems k"
  "mutexes (sched_upd k ths T h ls) = mutexes k" "events (sched_upd k ths T h ls) = events k"
  "mboxes (sched_upd k ths T h ls) = mboxes k" "mqs (sched_upd k ths T h ls) = mqs k"
  "current_thread (sched_upd k ths T h ls) = current_thread k" "lock_nest (sched_upd k ths T h ls) = lock_nest k"
  "interrupt_nest (sched_upd k ths T h ls) = interrupt_nest k" "global_tick (sched_upd k ths T h ls) = global_tick k"
  "object_container (sched_upd k ths T h ls) = object_container k" "defunct_list (sched_upd k ths T h ls) = defunct_list k"
  by (simp_all add: sched_upd_def)

lemma sched_upd_alt:
  "sched_upd k (threads k) T h ls = k\<lparr>lnodes := h, ready_lists := ls, priority_tree := T\<rparr>"
  "sched_upd k (threads k) (priority_tree k) h ls = k\<lparr>lnodes := h, ready_lists := ls\<rparr>"
  "sched_upd k ths (priority_tree k) h ls = k\<lparr>threads := ths, lnodes := h, ready_lists := ls\<rparr>"
  by (rule kernel.equality; simp add: sched_upd_def)+

lemma sched_invI:
  assumes inv: "sched_inv k rq" and p: "p < THREAD_PRIORITY_MAX"
    and T: "rb_balanced T (ready_nodes (rq(p := xs)))" "same_data (priority_tree k) T"
      "\<And>q. q \<noteq> p \<Longrightarrow> rq q = [] \<Longrightarrow> rb_nodes T (Suc q) = rb_nodes (priority_tree k) (Suc q)"
      "xs = [] \<Longrightarrow> loose T (Suc p)"
    and h: "list_rep h c xs" "same_values (lnodes k) h" "\<And>a. a \<notin> insert t (set (rq p)) \<Longrightarrow> h a = lnodes k a"
    and t: "\<And>q. q \<noteq> p \<Longrightarrow> t \<notin> set (rq q)"
    and ths: "\<And>q s. s \<in> set ((rq(p := xs)) q) \<Longrightarrow> \<exists>th n. ths s = Some th \<and> th_stat th = THREAD_READY \<and>
      unat (th_current_priority th) = q \<and> th_list_node th = s \<and> lnodes k s = Some n \<and> ln_value n = s"
  shows "sched_inv (sched_upd k ths T h ((ready_lists k)(p \<mapsto> c))) (rq(p := xs))"
proof -
  let ?k = "sched_upd k ths T h ((ready_lists k)(p \<mapsto> c))"
  have "prio_node ?k q" if "q < THREAD_PRIORITY_MAX" for q
    by (rule prio_node_same_data [OF _ _ sched_invD(1) [OF inv that]]) (simp_all add: T)
  moreover have "\<exists>c'. ready_lists ?k q = Some c' \<and> list_rep (lnodes ?k) c' ((rq(p := xs)) q)"
    if "q < THREAD_PRIORITY_MAX" for q
    using sched_invD(2) [OF inv that] h(1) list_rep_other [OF inv h(3) t] by auto
  moreover have "loose (priority_tree ?k) (Suc q)" if "q < THREAD_PRIORITY_MAX" "(rq(p := xs)) q = []" for q
    using that T(3) [of q] T(4) sched_invD(3) [OF inv, of q] by (cases "q = p") (auto simp: loose_def)
  moreover have "ready_thread ?k q s" if "s \<in> set ((rq(p := xs)) q)" for q s
    using ths [OF that] same_values_node [OF h(2)] by (fastforce simp: ready_thread_def)
  moreover have "(rq(p := xs)) q = []" if "THREAD_PRIORITY_MAX \<le> q" for q
    using that p sched_invD(4) [OF inv] by auto
  ultimately show ?thesis using T(1) unfolding sched_inv_def by simp
qed

lemma insert_thread_inv:
  assumes inv: "sched_inv k rq" and th: "threads k t = Some th" "th_list_node th = t"
    and p: "unat (th_current_priority th) = p" "p < THREAD_PRIORITY_MAX"
    and n: "lnodes k t = Some n" "ln_value n = t" and new: "\<And>q. t \<notin> set (rq q)"
    and first: "rq p = [] \<Longrightarrow> ln_next n = None \<and> red_node (priority_tree k) (Suc p)"
  shows "\<exists>T h c. insert_thread t k =
      Some (sched_upd k ((threads k)(t \<mapsto> th\<lparr>th_stat := THREAD_READY\<rparr>)) T h ((ready_lists k)(p \<mapsto> c))) \<and>
    sched_inv (sched_upd k ((threads k)(t \<mapsto> th\<lparr>th_stat := THREAD_READY\<rparr>)) T h ((ready_lists k)(p \<mapsto> c)))
      (rq(p := rq p @ [t])) \<and>
    same_values (lnodes k) h \<and> (\<forall>a. a \<notin> insert t (set (rq p)) \<longrightarrow> h a = lnodes k a)"
proof -
  let ?th = "th\<lparr>th_stat := THREAD_READY\<rparr>"
  let ?k = "k\<lparr>threads := (threads k)(t \<mapsto> ?th)\<rparr>"
  obtain c where c: "ready_lists k p = Some c" "list_rep (lnodes k) c (rq p)"
    using sched_invD(2) [OF inv p(2)] by blast
  have rl: "ready_list_of ?th ?k = Some (Suc p, p, c)"
    using sched_invD(1) [OF inv p(2)] c(1) p(1) by (auto simp: ready_list_of_def prio_node_def)
  have emp: "List_empty c \<longleftrightarrow> rq p = []" by (rule List_empty_rep [OF c(2)])
  obtain T where T: "rq p = [] \<longrightarrow> rb_insert (priority_tree k) (Suc p) = Some (True, T)"
    "rq p \<noteq> [] \<longrightarrow> T = priority_tree k"
    "rb_balanced T (ready_nodes (rq(p := rq p @ [t])))" "same_data (priority_tree k) T"
    "\<And>q. q \<noteq> p \<Longrightarrow> rq q = [] \<Longrightarrow> rb_nodes T (Suc q) = rb_nodes (priority_tree k) (Suc q)"
  proof (cases "rq p = []")
    case True
    show ?thesis
      using tree_insert_inv [OF inv p(2) True, of "rq p @ [t]"] first [OF True] that True by blast
  next
    case False
    have "ready_nodes (rq(p := rq p @ [t])) = ready_nodes rq"
      using False by (auto simp: ready_nodes_def intro!: filter_cong)
    with that [of "priority_tree k"] sched_invD(5) [OF inv] False show ?thesis by simp
  qed
  obtain h' c' where h: "push_back (lnodes k) c t = Some (h', c')" "list_rep h' c' (rq p @ [t])"
    "same_values (lnodes k) h'" "\<And>a. a \<noteq> t \<Longrightarrow> (rq p \<noteq> [] \<longrightarrow> a \<noteq> last (rq p)) \<Longrightarrow> h' a = lnodes k a"
  proof (rule push_back_rep [OF c(2) n(1) new])
    show "rq p = [] \<longrightarrow> ln_next n = None" using first by blast
  qed (use that in blast)
  have h4: "\<And>a. a \<notin> insert t (set (rq p)) \<Longrightarrow> h' a = lnodes k a" using h(4) last_in_set by (metis insertCI)
  let ?k' = "sched_upd k ((threads k)(t \<mapsto> ?th)) T h' ((ready_lists k)(p \<mapsto> c'))"
  have "insert_thread t k = Some ?k'"
  proof (cases "rq p = []")
    case True
    then show ?thesis unfolding insert_thread_def using th rl T(1) h(1) emp by (simp add: sched_upd_def)
  next
    case False
    then show ?thesis unfolding insert_thread_def using th rl T(2) h(1) emp by (simp add: sched_upd_alt)
  qed
  moreover have "sched_inv ?k' (rq(p := rq p @ [t]))"
  proof (rule sched_invI [OF inv p(2) T(3-5) _ h(2,3) h4])
    fix q s
    assume s: "s \<in> set ((rq(p := rq p @ [t])) q)"
    show "\<exists>th' n. ((threads k)(t \<mapsto> ?th)) s = Some th' \<and> th_stat th' = THREAD_READY \<and>
      unat (th_current_priority th') = q \<and> th_list_node th' = s \<and> lnodes k s = Some n \<and> ln_value n = s"
    proof (cases "s = t")
      case True
      then have "q = p" using s new by (auto split: if_splits)
      with True p(1) th(2) n show ?thesis by simp
    next
      case False
      then have "s \<in> set (rq q)" using s by (auto split: if_splits)
      with False sched_invD(6) [OF inv] show ?thesis by (auto simp: ready_thread_def)
    qed
  qed (use new in auto)
  ultimately show ?thesis using h(3) h4 by blast
qed

lemma remove_thread_inv:
  assumes inv: "sched_inv k rq" and t: "t \<in> set (rq p)" and th: "threads k t = Some th"
    and prio: "unat (th_current_priority th) = p" "th_list_node th = t"
  shows "\<exists>T h c. remove_thread t k = Some (sched_upd k (threads k) T h ((ready_lists k)(p \<mapsto> c))) \<and>
    sched_inv (sched_upd k (threads k) T h ((ready_lists k)(p \<mapsto> c))) (rq(p := remove1 t (rq p))) \<and>
    same_values (lnodes k) h \<and> h t = lnodes k t \<and> (\<forall>a. a \<notin> set (rq p) \<longrightarrow> h a = lnodes k a)"
proof -
  have ne: "rq p \<noteq> []" using t by auto
  have p: "p < THREAD_PRIORITY_MAX" by (rule sched_inv_prio [OF inv ne])
  obtain c where c: "ready_list_of th k = Some (Suc p, p, c)" "list_rep (lnodes k) c (rq p)"
    using ready_list_of_inv [OF inv prio(1) p] by blast
  obtain h c' where h: "erase (lnodes k) c t = Some (h, c')" "list_rep h c' (remove1 t (rq p))"
    "same_values (lnodes k) h" "h t = lnodes k t" "\<And>a. a \<notin> set (rq p) \<Longrightarrow> h a = lnodes k a"
    by (rule erase_rep [OF c(2) t]) (use that in blast)
  have emp: "List_empty c' \<longleftrightarrow> remove1 t (rq p) = []" by (rule List_empty_rep [OF h(2)])
  obtain T where T: "remove1 t (rq p) = [] \<longrightarrow> rb_remove (priority_tree k) (Some (Suc p)) = Some (True, T)"
    "remove1 t (rq p) \<noteq> [] \<longrightarrow> T = priority_tree k"
    "rb_balanced T (ready_nodes (rq(p := remove1 t (rq p))))" "same_data (priority_tree k) T"
    "\<And>q. q \<noteq> p \<Longrightarrow> rq q = [] \<Longrightarrow> rb_nodes T (Suc q) = rb_nodes (priority_tree k) (Suc q)"
    "remove1 t (rq p) = [] \<Longrightarrow> loose T (Suc p)"
  proof (cases "remove1 t (rq p) = []")
    case True
    then show ?thesis using that tree_remove_inv [OF inv p ne] by auto
  next
    case False
    have "ready_nodes (rq(p := remove1 t (rq p))) = ready_nodes rq"
      using False ne by (auto simp: ready_nodes_def intro!: filter_cong)
    with that [of "priority_tree k"] sched_invD(5) [OF inv] False show ?thesis by simp
  qed
  let ?k' = "sched_upd k (threads k) T h ((ready_lists k)(p \<mapsto> c'))"
  have "remove_thread t k = Some ?k'"
  proof (cases "remove1 t (rq p) = []")
    case True
    then show ?thesis
      unfolding remove_thread_def Let_def using th prio(2) c(1) h(1) T(1) emp by (simp add: sched_upd_alt(1))
  next
    case False
    then show ?thesis
      unfolding remove_thread_def Let_def using th prio(2) c(1) h(1) T(2) emp by (simp add: sched_upd_alt(2))
  qed
  moreover have "sched_inv ?k' (rq(p := remove1 t (rq p)))"
  proof (rule sched_invI [OF inv p T(3-6) h(2,3), of t])
    show "\<And>a. a \<notin> insert t (set (rq p)) \<Longrightarrow> h a = lnodes k a" using h(5) by auto
    show "\<And>q. q \<noteq> p \<Longrightarrow> t \<notin> set (rq q)" using ready_thread_unique [OF inv t] by auto
    fix q s
    assume "s \<in> set ((rq(p := remove1 t (rq p))) q)"
    then have "s \<in> set (rq q)" by (auto split: if_splits dest: in_set_remove1 [THEN iffD1] set_remove1_subset [THEN subsetD])
    with sched_invD(6) [OF inv] show "\<exists>th n. threads k s = Some th \<and> th_stat th = THREAD_READY \<and>
      unat (th_current_priority th) = q \<and> th_list_node th = s \<and> lnodes k s = Some n \<and> ln_value n = s"
      by (auto simp: ready_thread_def)
  qed
  ultimately show ?thesis using h by blast
qed

section \<open>Time slices\<close>

lemma list_rep_single: "list_rep h l [t] \<Longrightarrow> \<exists>n. h t = Some n \<and> ln_next n = None"
  by (auto simp: list_rep_def split: option.splits)

lemma inclock_keep:
  assumes "current_thread k = Some t" "threads k t = Some th" "th_remaining_tick th \<noteq> 1"
  shows "inclock e k = Some (k\<lparr>threads := (threads k)(t \<mapsto> th\<lparr>th_remaining_tick := th_remaining_tick th - 1\<rparr>)\<rparr>)"
proof -
  have "th_remaining_tick th - 1 \<noteq> 0" using assms(3) by (metis eq_iff_diff_eq_0)
  moreover have eq: "th_remaining_tick_update (\<lambda>r. r - 1) th = th\<lparr>th_remaining_tick := th_remaining_tick th - 1\<rparr>"
    by (cases th) simp
  ultimately show ?thesis using assms by (simp add: inclock_def eq)
qed

lemma inclock_rotate:
  assumes inv: "sched_inv k rq" and cur: "current_thread k = Some t" "threads k t = Some th"
    and t: "t \<in> set (rq p)" and tick: "th_remaining_tick th = 1"
  shows "\<exists>k' h ls. inclock e k = process e k' \<and> sched_inv k' (rq(p := remove1 t (rq p) @ [t])) \<and>
    k' = sched_upd k ((threads k)(t \<mapsto> th\<lparr>th_remaining_tick := th_init_tick th\<rparr>)) (priority_tree k) h ls"
proof -
  have rt: "th_stat th = THREAD_READY" "unat (th_current_priority th) = p" "th_list_node th = t"
    using sched_invD(6) [OF inv t] cur by (auto simp: ready_thread_def)
  have ne: "rq p \<noteq> []" using t by auto
  have p: "p < THREAD_PRIORITY_MAX" by (rule sched_inv_prio [OF inv ne])
  obtain c where c: "ready_list_of th k = Some (Suc p, p, c)" "list_rep (lnodes k) c (rq p)"
    using ready_list_of_inv [OF inv rt(2) p] by blast
  obtain h c1 where h: "erase (lnodes k) c t = Some (h, c1)" "list_rep h c1 (remove1 t (rq p))"
    "same_values (lnodes k) h" "h t = lnodes k t" "\<And>a. a \<notin> set (rq p) \<Longrightarrow> h a = lnodes k a"
    by (rule erase_rep [OF c(2) t]) (use that in blast)
  obtain n where n: "lnodes k t = Some n" using list_rep_in_heap [OF c(2) t] by blast
  have dis: "distinct (rq p)" by (rule list_rep_distinct [OF c(2)])
  have hn: "h t = Some n" "t \<notin> set (remove1 t (rq p))" using n h(4) dis by auto
  obtain h' c2 where h': "push_back h c1 t = Some (h', c2)" "list_rep h' c2 (remove1 t (rq p) @ [t])"
    "same_values h h'" "\<And>a. a \<noteq> t \<Longrightarrow> (remove1 t (rq p) \<noteq> [] \<longrightarrow> a \<noteq> last (remove1 t (rq p))) \<Longrightarrow> h' a = h a"
  proof (rule push_back_rep [OF h(2) hn])
    show "remove1 t (rq p) = [] \<longrightarrow> ln_next n = None"
    proof
      assume "remove1 t (rq p) = []"
      then have "rq p = [t]" using t by (cases "rq p") (auto split: if_splits)
      then show "ln_next n = None" using list_rep_single c(2) n by fastforce
    qed
  qed (use that in blast)
  have h'o: "h' a = lnodes k a" if a: "a \<notin> insert t (set (rq p))" for a
  proof -
    have "remove1 t (rq p) \<noteq> [] \<longrightarrow> a \<noteq> last (remove1 t (rq p))"
      using a by (metis insertCI last_in_set notin_set_remove1)
    then show ?thesis using h'(4) [of a] h(5) [of a] a by simp
  qed
  let ?ths = "(threads k)(t \<mapsto> th\<lparr>th_remaining_tick := th_init_tick th\<rparr>)"
  let ?k = "sched_upd k ?ths (priority_tree k) h' ((ready_lists k)(p \<mapsto> c2))"
  have "ready_nodes (rq(p := remove1 t (rq p) @ [t])) = ready_nodes rq"
    using ne by (auto simp: ready_nodes_def intro!: filter_cong)
  then have bal: "rb_balanced (priority_tree k) (ready_nodes (rq(p := remove1 t (rq p) @ [t])))"
    using sched_invD(5) [OF inv] by simp
  have "sched_inv ?k (rq(p := remove1 t (rq p) @ [t]))"
  proof (rule sched_invI [OF inv p bal _ _ _ h'(2) same_values_trans [OF h(3) h'(3)] h'o])
    show "\<And>q. q \<noteq> p \<Longrightarrow> t \<notin> set (rq q)" using ready_thread_unique [OF inv t] by metis
    fix q s
    assume "s \<in> set ((rq(p := remove1 t (rq p) @ [t])) q)"
    then have "s \<in> set (rq q)"
      using t by (auto split: if_splits dest: set_remove1_subset [THEN subsetD])
    with sched_invD(6) [OF inv, of s q] cur(2) show "\<exists>th n. ?ths s = Some th \<and> th_stat th = THREAD_READY \<and>
      unat (th_current_priority th) = q \<and> th_list_node th = s \<and> lnodes k s = Some n \<and> ln_value n = s"
      by (auto simp: ready_thread_def)
  qed simp_all
  moreover have "inclock e k = process e ?k"
  proof -
    let ?th0 = "th_remaining_tick_update (\<lambda>r. r - 1) th"
    have "ready_list_of ?th0 (k\<lparr>threads := ?ths\<rparr>) = Some (Suc p, p, c)"
      using c(1) by (simp add: ready_list_of_def)
    then show ?thesis
      using cur tick rt h(1) h'(1) by (simp add: inclock_def sched_upd_alt(3))
  qed
  ultimately show ?thesis by blast
qed

section \<open>The ready queue as an interface\<close>

locale ready_queue =
  fixes inv :: "'s \<Rightarrow> (nat \<Rightarrow> 't list) \<Rightarrow> bool" and insertable :: "'s \<Rightarrow> (nat \<Rightarrow> 't list) \<Rightarrow> nat \<Rightarrow> 't \<Rightarrow> bool"
    and ins :: "'t \<Rightarrow> 's \<Rightarrow> 's option" and rem :: "'t \<Rightarrow> 's \<Rightarrow> 's option" and nxt :: "'s \<Rightarrow> 't option option"
  assumes ins_inv: "inv s rq \<Longrightarrow> insertable s rq p t \<Longrightarrow> \<exists>s'. ins t s = Some s' \<and> inv s' (rq(p := rq p @ [t]))"
    and rem_inv: "inv s rq \<Longrightarrow> t \<in> set (rq p) \<Longrightarrow> \<exists>s'. rem t s = Some s' \<and> inv s' (rq(p := remove1 t (rq p)))"
    and nxt_inv: "inv s rq \<Longrightarrow> rq p \<noteq> [] \<Longrightarrow> \<forall>q<p. rq q = [] \<Longrightarrow> nxt s = Some (Some (hd (rq p)))"
begin

lemma ins_preempts:
  assumes "inv s rq" "insertable s rq p t" "\<forall>q\<le>p. rq q = []"
  shows "\<exists>s'. ins t s = Some s' \<and> nxt s' = Some (Some t)"
  using ins_inv [OF assms(1,2)] nxt_inv [of _ "rq(p := rq p @ [t])" p] assms(3) by fastforce

lemma ins_waits:
  assumes "inv s rq" "insertable s rq p t" "rq r \<noteq> []" "\<forall>q<r. rq q = []" "r \<le> p"
  shows "\<exists>s'. ins t s = Some s' \<and> nxt s' = nxt s"
proof -
  obtain s' where s': "ins t s = Some s'" "inv s' (rq(p := rq p @ [t]))" using ins_inv [OF assms(1,2)] by blast
  have "nxt s' = Some (Some (hd ((rq(p := rq p @ [t])) r)))"
    by (rule nxt_inv [OF s'(2)]) (use assms in auto)
  moreover have "hd ((rq(p := rq p @ [t])) r) = hd (rq r)" using assms(3) by auto
  ultimately show ?thesis using s'(1) nxt_inv [OF assms(1,3,4)] by auto
qed

lemma rem_yields:
  assumes "inv s rq" "rq p = t # u # ts" "\<forall>q<p. rq q = []"
  shows "\<exists>s'. rem t s = Some s' \<and> nxt s' = Some (Some u)"
  using rem_inv [OF assms(1), of t p] nxt_inv [of _ "rq(p := remove1 t (rq p))" p] assms(2,3) by fastforce

end

text \<open>When a thread may enter the ready list of priority \<open>p\<close>.\<close>

definition insertable :: "kernel \<Rightarrow> (nat \<Rightarrow> nat list) \<Rightarrow> nat \<Rightarrow> nat \<Rightarrow> bool" where
  "insertable k rq p t \<longleftrightarrow> p < THREAD_PRIORITY_MAX \<and> (\<forall>q. t \<notin> set (rq q)) \<and>
     (\<exists>th n. threads k t = Some th \<and> th_list_node th = t \<and> unat (th_current_priority th) = p \<and>
        lnodes k t = Some n \<and> ln_value n = t \<and>
        (rq p = [] \<longrightarrow> ln_next n = None \<and> red_node (priority_tree k) (Suc p)))"

lemma insertable_inv:
  assumes "sched_inv k rq" "insertable k rq p t"
  shows "\<exists>k'. insert_thread t k = Some k' \<and> sched_inv k' (rq(p := rq p @ [t]))"
proof -
  obtain th n where t: "p < THREAD_PRIORITY_MAX" "\<And>q. t \<notin> set (rq q)" "threads k t = Some th" "th_list_node th = t"
    "unat (th_current_priority th) = p" "lnodes k t = Some n" "ln_value n = t"
    "rq p = [] \<longrightarrow> ln_next n = None \<and> red_node (priority_tree k) (Suc p)"
    using assms(2) unfolding insertable_def by blast
  show ?thesis using insert_thread_inv [OF assms(1) t(3-5,1,6,7,2)] t(8) by blast
qed

lemma removable_inv:
  assumes "sched_inv k rq" "t \<in> set (rq p)"
  shows "\<exists>k'. remove_thread t k = Some k' \<and> sched_inv k' (rq(p := remove1 t (rq p)))"
proof -
  obtain th where "threads k t = Some th" "unat (th_current_priority th) = p" "th_list_node th = t"
    using sched_invD(6) [OF assms] by (auto simp: ready_thread_def)
  from remove_thread_inv [OF assms this] show ?thesis by blast
qed

interpretation sq: ready_queue sched_inv insertable insert_thread remove_thread next_thread
  by unfold_locales (fact insertable_inv removable_inv next_thread_inv)+

section \<open>Properties\<close>

text \<open>A machine just after \<open>Scheduler::init\<close>, with two threads that were not started yet.\<close>

definition sample_thread :: "nat \<Rightarrow> string \<Rightarrow> u8 \<Rightarrow> thread" where
  "sample_thread t name prio = object.extend (object_init Object_Class_Thread name)
     \<lparr>th_error = 0, th_stat = THREAD_INIT, th_timer = t, th_list_node = t, th_event_set = 0, th_event_info = 0,
      th_stack_addr = 0, th_stack_size = 0, th_current_priority = prio, th_init_priority = prio,
      th_init_tick = 5, th_remaining_tick = 1, th_delete_stack_flag = False\<rparr>"

text \<open>An environment in which a thread that is switched away from never runs again.\<close>

definition lone_env :: env where
  "lone_env = \<lparr>arch_switch = (\<lambda>_ _ _. None), user_timeout = (\<lambda>_ _ k. Some k)\<rparr>"

definition boot_kernel :: kernel where
  "boot_kernel = (Scheduler_init empty_kernel)\<lparr>
     threads := [1 \<mapsto> sample_thread 1 ''a'' 10, 2 \<mapsto> sample_thread 2 ''b'' 20],
     lnodes := [1 \<mapsto> Node_new 1, 2 \<mapsto> Node_new 2]\<rparr>"

lemma sample_thread_simps [simp]:
  "th_stat (sample_thread t nm pr) = THREAD_INIT" "th_list_node (sample_thread t nm pr) = t"
  "th_current_priority (sample_thread t nm pr) = pr" "th_init_priority (sample_thread t nm pr) = pr"
  "th_timer (sample_thread t nm pr) = t" "th_remaining_tick (sample_thread t nm pr) = 1"
  "th_init_tick (sample_thread t nm pr) = 5" "ob_flag (sample_thread t nm pr) = 0"
  by (simp_all add: sample_thread_def object_init_def object.defs)

lemma boot_kernel_simps [simp]:
  "threads boot_kernel = [1 \<mapsto> sample_thread 1 ''a'' 10, 2 \<mapsto> sample_thread 2 ''b'' 20]"
  "lnodes boot_kernel = [1 \<mapsto> Node_new 1, 2 \<mapsto> Node_new 2]"
  "current_thread boot_kernel = None" "lock_nest boot_kernel = 0" "interrupt_nest boot_kernel = 0"
  by (simp_all add: boot_kernel_def Scheduler_init_def empty_kernel_def)

lemma boot_kernel_tree:
  "p < THREAD_PRIORITY_MAX \<Longrightarrow> rb_nodes (priority_tree boot_kernel) (Suc p) = Some (rbnode_new (int p) p False)"
  "rb_nodes (priority_tree boot_kernel) 0 = Some (rbnode_nil 0)" "rb_root (priority_tree boot_kernel) = None"
  "p < THREAD_PRIORITY_MAX \<Longrightarrow> ready_table boot_kernel p = Some (Suc p)"
  "p < THREAD_PRIORITY_MAX \<Longrightarrow> ready_lists boot_kernel p = Some List_new"
  by (simp_all add: boot_kernel_def Scheduler_init_def empty_kernel_def RBTree_new_def nil_addr_def)

lemma boot_kernel_inv: "sched_inv boot_kernel (\<lambda>_. [])"
proof -
  have "rb_balanced (priority_tree boot_kernel) []"
    unfolding rb_balanced_def
    by (intro exI [of _ Lf])
      (simp add: good_def tree_at_def root_ptr_def flagged_def nil_ok_def nil_addr_def boot_kernel_tree rbnode_nil_def)
  then show ?thesis
    by (auto simp: sched_inv_def prio_node_def boot_kernel_tree rbnode_new_def loose_def nil_addr_def
        ready_nodes_def List_new_def)
qed

lemma boot_kernel_red: "p < THREAD_PRIORITY_MAX \<Longrightarrow> red_node (priority_tree boot_kernel) (Suc p)"
  by (simp add: red_node_def boot_kernel_tree rbnode_new_def)

text \<open>The same machine with the first thread ready and running.\<close>

lemma ready_kernel:
  "\<exists>k T h c. insert_thread 1 boot_kernel = Some k \<and>
     k = sched_upd boot_kernel ((threads boot_kernel)(1 \<mapsto> (sample_thread 1 ''a'' 10)\<lparr>th_stat := THREAD_READY\<rparr>))
       T h ((ready_lists boot_kernel)(10 \<mapsto> c)) \<and>
     sched_inv k ((\<lambda>_. [])(10 := [1]))"
  using insert_thread_inv [OF boot_kernel_inv, of 1 "sample_thread 1 ''a'' 10" 10 "Node_new 1"]
    boot_kernel_red [of 10]
  by (auto simp: THREAD_PRIORITY_MAX_def Node_new_def)

text \<open>The thread to run next is the first one in the ready list of the smallest priority number
  that has a ready thread.\<close>

lemma next_thread_highest:
  assumes "sched_inv k rq" and "rq p \<noteq> []" and "\<forall>q<p. rq q = []"
  shows "next_thread k = Some (Some (hd (rq p)))"
  by (rule next_thread_inv [OF assms])

text \<open>C7: inserting a thread that is in no ready list puts it, marked ready, at the end of the list of its
  priority and leaves all other lists alone, provided that, where it is the first thread of its
  priority, its list node has no successor and the tree node of the priority is red.\<close>

theorem insert_thread_refines:
  assumes "sched_inv k rq" and "threads k t = Some th" and "th_list_node th = t"
    and "unat (th_current_priority th) = p" and "p < THREAD_PRIORITY_MAX"
    and "lnodes k t = Some n" and "ln_value n = t" and "\<And>q. t \<notin> set (rq q)"
    and "rq p = [] \<Longrightarrow> ln_next n = None \<and> red_node (priority_tree k) (Suc p)"
  shows "\<exists>k'. insert_thread t k = Some k' \<and> sched_inv k' (rq(p := rq p @ [t])) \<and>
    threads k' = (threads k)(t \<mapsto> th\<lparr>th_stat := THREAD_READY\<rparr>) \<and>
    current_thread k' = current_thread k \<and> timers k' = timers k"
  using insert_thread_inv [OF assms] by fastforce

theorem insert_thread_refines_witness:
  "\<exists>k'. insert_thread 2 boot_kernel = Some k' \<and> sched_inv k' ((\<lambda>_. [])(20 := [2])) \<and>
    threads k' = (threads boot_kernel)(2 \<mapsto> (sample_thread 2 ''b'' 20)\<lparr>th_stat := THREAD_READY\<rparr>) \<and>
    current_thread k' = None \<and> timers k' = timers boot_kernel"
  using insert_thread_refines [OF boot_kernel_inv, of 2 "sample_thread 2 ''b'' 20" 20 "Node_new 2"]
    boot_kernel_red [of 20]
  by (simp add: THREAD_PRIORITY_MAX_def Node_new_def)

text \<open>Removing a ready thread takes it out of the list of its priority and leaves the other lists and
  all threads alone; if it was the last of its priority, the priority leaves the tree.\<close>

lemma remove_thread_refines:
  assumes "sched_inv k rq" and "t \<in> set (rq p)"
  shows "\<exists>k'. remove_thread t k = Some k' \<and> sched_inv k' (rq(p := remove1 t (rq p))) \<and>
    threads k' = threads k \<and> current_thread k' = current_thread k \<and> timers k' = timers k"
proof -
  obtain th where "threads k t = Some th" "unat (th_current_priority th) = p" "th_list_node th = t"
    using sched_invD(6) [OF assms] by (auto simp: ready_thread_def)
  from remove_thread_inv [OF assms this] show ?thesis by fastforce
qed

text \<open>C8: outside critical sections one run of the scheduler gives the processor to the first thread of
  the highest priority: nothing happens if it runs already; in a thread the context is switched
  at once, in an interrupt the switch is noted for its end.\<close>

theorem process_switches:
  assumes "sched_inv k rq" and "rq p \<noteq> []" and "\<forall>q<p. rq q = []"
    and "lock_nest k = 0" and "current_thread k = Some f"
  shows "process e k =
    (if hd (rq p) = f then Some k
     else if interrupt_nest k = 0 then arch_switch e f (hd (rq p)) (k\<lparr>current_thread := Some (hd (rq p))\<rparr>)
     else Some (arch_context_switch_interrupt f (hd (rq p)) (k\<lparr>current_thread := Some (hd (rq p))\<rparr>)))"
  using next_thread_inv [OF assms(1-3)] assms(4,5) by (simp add: process_def interrupt_get_nest_def)

theorem process_switches_witness:
  "\<exists>k. insert_thread 1 boot_kernel = Some k \<and>
    process lone_env (k\<lparr>current_thread := Some 2\<rparr>) =
      arch_switch lone_env 2 1 (k\<lparr>current_thread := Some 1\<rparr>)"
proof -
  obtain k T h c where k: "insert_thread 1 boot_kernel = Some k" "sched_inv k ((\<lambda>_. [])(10 := [1]))"
    "k = sched_upd boot_kernel ((threads boot_kernel)(1 \<mapsto> (sample_thread 1 ''a'' 10)\<lparr>th_stat := THREAD_READY\<rparr>))
       T h ((ready_lists boot_kernel)(10 \<mapsto> c))"
    using ready_kernel by blast
  let ?k = "k\<lparr>current_thread := Some 2\<rparr>"
  have i: "sched_inv ?k ((\<lambda>_. [])(10 := [1]))"
    using k(2) sched_inv_cong [of ?k k] by (simp add: ready_thread_def)
  have s: "lock_nest ?k = 0" "current_thread ?k = Some 2" "interrupt_nest ?k = 0" by (simp_all add: k(3))
  show ?thesis using process_switches [OF i, of 10 2 lone_env] s k(1) by auto
qed

text \<open>A thread that becomes ready with a higher priority than every ready thread is the next to run,
  and one with a lower or the same priority does not displace the thread to run next.\<close>

lemma insert_thread_preempts:
  assumes "sched_inv k rq" and "insertable k rq p t"
  shows "((\<forall>q\<le>p. rq q = []) \<longrightarrow> (\<exists>k'. insert_thread t k = Some k' \<and> next_thread k' = Some (Some t))) \<and>
    (\<forall>r\<le>p. rq r \<noteq> [] \<and> (\<forall>q<r. rq q = []) \<longrightarrow>
      (\<exists>k'. insert_thread t k = Some k' \<and> next_thread k' = next_thread k))"
  using sq.ins_preempts [OF assms] sq.ins_waits [OF assms] by blast

text \<open>Leaving a critical section undoes entering it: the outermost exit runs the scheduler in the
  state before the entry, an inner one does nothing else, as long as the nesting depth stays
  within the range of a signed 16-bit number; while the scheduler is locked, it does not switch.\<close>

lemma critical_sections_nest:
  assumes "unat (lock_nest k) < 32767"
  shows "exit_critical e (enter_critical k) = (if lock_nest k = 0 then process e k else Some k) \<and>
    process e (enter_critical k) = Some (enter_critical k)"
proof -
  have 1: "sint (lock_nest k) \<le> 0 \<longleftrightarrow> lock_nest k = 0"
    using uint_ge_0 [of "lock_nest k"] uint_0_iff [of "lock_nest k"] sint_small16 [OF assms] by linarith
  have "lock_nest k + 1 \<noteq> 0" by (rule inc_small16 [OF assms])
  then have "process e (enter_critical k) = Some (enter_critical k)"
    by (simp add: process_def enter_critical_def)
  moreover have "exit_critical e (enter_critical k) = (if lock_nest k = 0 then process e k else Some k)"
  proof -
    have eq: "lock_nest k = 0 \<Longrightarrow> k\<lparr>lock_nest := 0\<rparr> = k" by (cases k) simp
    show ?thesis using 1 unfolding exit_critical_def enter_critical_def Let_def by (simp add: eq)
  qed
  ultimately show ?thesis by blast
qed

text \<open>C9: a tick takes one from the time slice of the running thread. When the slice is used up, it is filled
  up again, the thread goes to the end of the ready list of its priority, and the scheduler
  runs on the rotated queue.\<close>

theorem inclock_round_robin:
  assumes "sched_inv k rq" and "current_thread k = Some t" and "threads k t = Some th" and "t \<in> set (rq p)"
  shows "if th_remaining_tick th = 1
    then \<exists>k'. inclock e k = process e k' \<and> sched_inv k' (rq(p := remove1 t (rq p) @ [t])) \<and>
      threads k' = (threads k)(t \<mapsto> th\<lparr>th_remaining_tick := th_init_tick th\<rparr>) \<and>
      current_thread k' = Some t \<and> lock_nest k' = lock_nest k \<and> interrupt_nest k' = interrupt_nest k
    else inclock e k = Some (k\<lparr>threads := (threads k)(t \<mapsto> th\<lparr>th_remaining_tick := th_remaining_tick th - 1\<rparr>)\<rparr>)"
proof (cases "th_remaining_tick th = 1")
  case True
  obtain k' h ls where "inclock e k = process e k'" "sched_inv k' (rq(p := remove1 t (rq p) @ [t]))"
    "k' = sched_upd k ((threads k)(t \<mapsto> th\<lparr>th_remaining_tick := th_init_tick th\<rparr>)) (priority_tree k) h ls"
    using inclock_rotate [OF assms True] by blast
  then show ?thesis using assms(2) by (subst if_P [OF True]) (intro exI [of _ k'], simp)
next
  case False
  then show ?thesis using inclock_keep [OF assms(2,3)] by simp
qed

theorem inclock_round_robin_witness:
  "\<exists>k k'. insert_thread 1 boot_kernel = Some k \<and>
    inclock lone_env (k\<lparr>current_thread := Some 1\<rparr>) = process lone_env k' \<and> sched_inv k' ((\<lambda>_. [])(10 := [1])) \<and>
    threads k' 1 = Some ((sample_thread 1 ''a'' 10)\<lparr>th_stat := THREAD_READY, th_remaining_tick := 5\<rparr>)"
proof -
  obtain k T h c where k: "insert_thread 1 boot_kernel = Some k" "sched_inv k ((\<lambda>_. [])(10 := [1]))"
    "k = sched_upd boot_kernel ((threads boot_kernel)(1 \<mapsto> (sample_thread 1 ''a'' 10)\<lparr>th_stat := THREAD_READY\<rparr>))
       T h ((ready_lists boot_kernel)(10 \<mapsto> c))"
    using ready_kernel by blast
  let ?k = "k\<lparr>current_thread := Some 1\<rparr>"
  have i: "sched_inv ?k ((\<lambda>_. [])(10 := [1]))"
    using k(2) sched_inv_cong [of ?k k] by (simp add: ready_thread_def)
  have s: "current_thread ?k = Some 1" "threads ?k 1 = Some ((sample_thread 1 ''a'' 10)\<lparr>th_stat := THREAD_READY\<rparr>)"
    by (simp_all add: k(3))
  have r: "((\<lambda>_. [])(10 := [1]))(10 := remove1 1 (((\<lambda>_. [])(10 := [1])) 10) @ [1]) = (\<lambda>_. [])(10 := [1])"
    by simp
  obtain k' where "inclock lone_env ?k = process lone_env k'"
    "sched_inv k' (((\<lambda>_. [])(10 := [1]))(10 := remove1 1 (((\<lambda>_. [])(10 := [1])) 10) @ [1]))"
    "threads k' = (threads ?k)(1 \<mapsto> (sample_thread 1 ''a'' 10)\<lparr>th_stat := THREAD_READY, th_remaining_tick := 5\<rparr>)"
    using inclock_round_robin [OF i s, of 10 lone_env] by (auto split: if_splits)
  then show ?thesis using k(1) unfolding r by auto
qed

end
