(* ===== verification/Cos_Thread.thy ===== *)
theory Cos_Thread
  imports Cos_Scheduler_Correct
begin

text \<open>
  Threads, \<^verbatim>\<open>kernel/thread.cpp\<close>, and the idle thread, \<^verbatim>\<open>kernel/idle.cpp\<close>. The contents of a stack
  and the saved registers are not represented; \<open>event_set_\<close> and \<open>event_info_\<close>, which the constructor
  leaves uninitialised, are 0 here and are written before they are read.
\<close>

section \<open>Construction\<close>

definition THREAD_CTRL_STARTUP :: u8 where "THREAD_CTRL_STARTUP = 0x00"
definition THREAD_CTRL_CHANGE_PRIORITY :: u8 where "THREAD_CTRL_CHANGE_PRIORITY = 0x02"

definition thread_init :: "string \<Rightarrow> nat \<Rightarrow> u32 \<Rightarrow> u8 \<Rightarrow> u32 \<Rightarrow> nat \<Rightarrow> nat \<Rightarrow> bool \<Rightarrow> thread" where
  "thread_init name stack stack_size priority tick timer lnode del =
     object.extend (object_init Object_Class_Thread name)
       \<lparr>th_error = ERR_OK, th_stat = THREAD_INIT, th_timer = timer, th_list_node = lnode,
        th_event_set = 0, th_event_info = 0, th_stack_addr = stack, th_stack_size = stack_size,
        th_current_priority = priority, th_init_priority = priority,
        th_init_tick = tick, th_remaining_tick = tick, th_delete_stack_flag = del\<rparr>"

text \<open>The end of both constructors: the thread object, its timer and its list node, at the addresses
  \<open>this\<close>, \<open>timer\<close> (with tree node \<open>tnode\<close>) and \<open>lnode\<close>.\<close>

definition thread_setup :: "string \<Rightarrow> nat \<Rightarrow> u32 \<Rightarrow> u8 \<Rightarrow> u32 \<Rightarrow> bool \<Rightarrow> nat \<Rightarrow> nat \<Rightarrow> nat \<Rightarrow> nat \<Rightarrow> kernel \<Rightarrow> kernel option" where
  "thread_setup name stack stack_size priority tick del this timer tnode lnode k = do {
     let k = k\<lparr>threads := (threads k)(this \<mapsto> thread_init name stack stack_size priority tick timer lnode del)\<rparr>;
     k \<leftarrow> Timer_new name Thread_timeout_func this 0 TIMER_FLAG_ONE_SHOT timer tnode k;
     Some (k\<lparr>lnodes := (lnodes k)(lnode \<mapsto> Node_new this)\<rparr>) }"

text \<open>With the caller's stack.\<close>

definition Thread_new :: "string \<Rightarrow> nat option \<Rightarrow> u32 \<Rightarrow> u8 \<Rightarrow> u32 \<Rightarrow> nat \<Rightarrow> nat \<Rightarrow> nat \<Rightarrow> nat \<Rightarrow> kernel \<Rightarrow> kernel option" where
  "Thread_new name stack_start stack_size priority tick this timer tnode lnode k = do {
     k \<leftarrow> Object_new Object_Class_Thread name this k;
     cos_assert (stack_start \<noteq> None);
     stack \<leftarrow> stack_start;
     thread_setup name stack stack_size priority tick False this timer tnode lnode k }"

text \<open>With a stack from \<open>kmalloc\<close>, whose result is \<open>mem\<close>: without memory the error number is set, and
  then \<open>memset\<close> is called on \<open>NULL\<close>.\<close>

definition Thread_new_alloc :: "string \<Rightarrow> nat option \<Rightarrow> u32 \<Rightarrow> u8 \<Rightarrow> u32 \<Rightarrow> nat \<Rightarrow> nat \<Rightarrow> nat \<Rightarrow> nat \<Rightarrow> kernel \<Rightarrow> kernel option" where
  "Thread_new_alloc name mem stack_size priority tick this timer tnode lnode k = do {
     k \<leftarrow> Object_new Object_Class_Thread name this k;
     k \<leftarrow> (if mem = None then set_errno (- ERR_ERROR) k else Some k);
     stack \<leftarrow> mem;
     thread_setup name stack stack_size priority tick True this timer tnode lnode k }"

section \<open>Suspending and resuming\<close>

definition Thread_suspend :: "nat \<Rightarrow> kernel \<Rightarrow> (err_t \<times> kernel) option" where
  "Thread_suspend this k = do {
     th \<leftarrow> threads k this;
     if th_stat th \<noteq> THREAD_READY then Some (- ERR_ERROR, k)
     else do {
       k \<leftarrow> upd_thread this (th_stat_update (\<lambda>_. THREAD_SUSPEND)) k;
       k \<leftarrow> remove_thread this k;
       (_, k) \<leftarrow> Timer_stop (th_timer th) k;
       Some (ERR_OK, k) } }"

definition Thread_resume :: "nat \<Rightarrow> kernel \<Rightarrow> (err_t \<times> kernel) option" where
  "Thread_resume this k = do {
     th \<leftarrow> threads k this;
     if th_stat th \<noteq> THREAD_SUSPEND then Some (- ERR_ERROR, k)
     else do {
       (_, k) \<leftarrow> Timer_stop (th_timer th) k;
       k \<leftarrow> insert_thread this k;
       Some (ERR_OK, k) } }"

text \<open>The timeout function of a thread's timer.\<close>

definition Thread_timeout :: "env \<Rightarrow> nat \<Rightarrow> kernel \<Rightarrow> kernel option" where
  "Thread_timeout e t k = do {
     th \<leftarrow> threads k t;
     cos_assert (th_stat th = THREAD_SUSPEND);
     k \<leftarrow> upd_thread t (th_error_update (\<lambda>_. - ERR_TIMEOUT)) k;
     k \<leftarrow> insert_thread t k;
     process e k }"

definition Thread_startup :: "env \<Rightarrow> nat \<Rightarrow> kernel \<Rightarrow> (err_t \<times> kernel) option" where
  "Thread_startup e this k = do {
     th \<leftarrow> threads k this;
     cos_assert (th_stat th = THREAD_INIT);
     k \<leftarrow> upd_thread this (th_current_priority_update (\<lambda>_. th_init_priority th)) k;
     k \<leftarrow> upd_thread this (th_stat_update (\<lambda>_. THREAD_SUSPEND)) k;
     (_, k) \<leftarrow> Thread_resume this k;
     k \<leftarrow> (if get_current_thread k \<noteq> None then process e k else Some k);
     Some (ERR_OK, k) }"

definition Thread_sleep :: "env \<Rightarrow> u32 \<Rightarrow> kernel \<Rightarrow> (err_t \<times> kernel) option" where
  "Thread_sleep e tick k = do {
     cos_assert (get_current_thread k \<noteq> None);
     t \<leftarrow> get_current_thread k;
     (_, k) \<leftarrow> Thread_suspend t k;
     th \<leftarrow> threads k t;
     (_, _, k) \<leftarrow> Timer_control (th_timer th) TIMER_CTRL_SET_TIME tick k;
     (_, k) \<leftarrow> Timer_start (th_timer th) k;
     k \<leftarrow> process e k;
     th \<leftarrow> threads k t;
     k \<leftarrow> (if th_error th = - ERR_TIMEOUT then upd_thread t (th_error_update (\<lambda>_. ERR_OK)) k else Some k);
     Some (ERR_OK, k) }"

definition Thread_delay :: "env \<Rightarrow> u32 \<Rightarrow> kernel \<Rightarrow> (err_t \<times> kernel) option" where
  "Thread_delay e ms k = Thread_sleep e (ms * CONFIG_TICK_PER_SECOND div 1000) k"

text \<open>\<open>control\<close>: \<open>arg\<close> is the priority the pointer argument refers to.\<close>

definition Thread_control :: "env \<Rightarrow> nat \<Rightarrow> u8 \<Rightarrow> u8 \<Rightarrow> kernel \<Rightarrow> (err_t \<times> kernel) option" where
  "Thread_control e this cmd arg k =
     (if cmd = THREAD_CTRL_CHANGE_PRIORITY then do {
        th \<leftarrow> threads k this;
        k \<leftarrow> (if th_stat th = THREAD_READY then do {
               k \<leftarrow> remove_thread this k;
               k \<leftarrow> upd_thread this (th_current_priority_update (\<lambda>_. arg)) k;
               insert_thread this k }
             else upd_thread this (th_current_priority_update (\<lambda>_. arg)) k);
        Some (ERR_OK, k) }
      else if cmd = THREAD_CTRL_STARTUP then Thread_startup e this k
      else Some (ERR_OK, k))"

section \<open>The end of a thread\<close>

definition Thread_detach :: "nat \<Rightarrow> bool \<Rightarrow> kernel \<Rightarrow> (err_t \<times> kernel) option" where
  "Thread_detach this delete_later k = do {
     k \<leftarrow> remove_thread this k;
     th \<leftarrow> threads k this;
     (_, k) \<leftarrow> Timer_detach (th_timer th) k;
     k \<leftarrow> upd_thread this (th_stat_update (\<lambda>_. THREAD_CLOSE)) k;
     k \<leftarrow> Object_detach (ob_type th) (ob_name th) k;
     k \<leftarrow> (if delete_later then insert_defunct_thread this k else Some k);
     Some (ERR_OK, k) }"

text \<open>The destructor; the list node is not freed.\<close>

definition Thread_delete :: "nat \<Rightarrow> kernel \<Rightarrow> kernel option" where
  "Thread_delete this k = do {
     (_, k) \<leftarrow> Thread_detach this False k;
     th \<leftarrow> threads k this;
     k \<leftarrow> Timer_delete (th_timer th) k;
     let k = (if th_delete_stack_flag th then kfree_call (th_stack_addr th) k else k);
     k \<leftarrow> Object_delete (ob_type th) (ob_name th) k;
     Some (k\<lparr>threads := (threads k)(this := None)\<rparr>) }"

definition Thread_exit :: "env \<Rightarrow> kernel \<Rightarrow> kernel option" where
  "Thread_exit e k = do {
     t \<leftarrow> get_current_thread k;
     k \<leftarrow> remove_thread t k;
     (_, k) \<leftarrow> Thread_detach t True k;
     process e k }"

text \<open>\<open>find\<close> looks among the devices.\<close>

definition Thread_find :: "string option \<Rightarrow> kernel \<Rightarrow> nat option option" where
  "Thread_find name k = Object_find name Object_Class_Device k"

definition Thread_get_stat :: "nat \<Rightarrow> kernel \<Rightarrow> u8 option" where
  "Thread_get_stat this k = map_option th_stat (threads k this)"

section \<open>The idle thread\<close>

definition IDLE_STACK_SIZE :: u32 where "IDLE_STACK_SIZE = 1024 * 4"

text \<open>\<open>Idle()\<close>: the stack is the static array \<open>thread_stack\<close>, at address \<open>stack\<close>.\<close>

definition Idle_new :: "nat \<Rightarrow> nat \<Rightarrow> nat \<Rightarrow> nat \<Rightarrow> nat \<Rightarrow> kernel \<Rightarrow> kernel option" where
  "Idle_new stack this timer tnode lnode k =
     Thread_new ''idle'' (Some stack) IDLE_STACK_SIZE (of_nat (THREAD_PRIORITY_MAX - 1)) 32 this timer tnode lnode k"

definition Idle_init :: "env \<Rightarrow> nat \<Rightarrow> nat \<Rightarrow> nat \<Rightarrow> nat \<Rightarrow> nat \<Rightarrow> kernel \<Rightarrow> kernel option" where
  "Idle_init e stack this timer tnode lnode k = do {
     k \<leftarrow> Idle_new stack this timer tnode lnode k;
     (_, k) \<leftarrow> Thread_startup e this k;
     Some k }"

text \<open>\<open>Idle::excute\<close> (the source's spelling): delete the threads in the defunct list.\<close>

partial_function (option) Idle_excute :: "kernel \<Rightarrow> kernel option" where
  "Idle_excute k = do {
     n \<leftarrow> List_size (lnodes k) (defunct_list k);
     if n = 0 then Some k
     else do {
       debug_not_in_interrupt k;
       if List_empty (defunct_list k) then Some k
       else do {
         thread \<leftarrow> List_front (lnodes k) (defunct_list k);
         t \<leftarrow> thread;
         k \<leftarrow> remove_defunct_thread t k;
         k \<leftarrow> Thread_delete t k;
         Idle_excute k } } }"

declare Idle_excute.simps [code]

end
