(* ===== verification/Cos_Clock.thy ===== *)
theory Cos_Clock
  imports Cos_Thread
begin

text \<open>
  \<open>Timer::check\<close> of \<^verbatim>\<open>kernel/timer.cpp\<close> and the clock tick of \<^verbatim>\<open>kernel/clock.cpp\<close>, which calls it.
\<close>

section \<open>Expiry\<close>

definition call_timeout :: "env \<Rightarrow> timeout_func \<Rightarrow> nat \<Rightarrow> kernel \<Rightarrow> kernel option" where
  "call_timeout e f parameter k =
     (case f of Thread_timeout_func \<Rightarrow> Thread_timeout e parameter k
      | User_timeout_func g \<Rightarrow> user_timeout e g parameter k)"

text \<open>Whether a timer is due: the difference of the ticks is taken modulo \<open>2 ^ 32\<close>.\<close>

definition timer_due :: "u32 \<Rightarrow> timer \<Rightarrow> bool" where
  "timer_due current_tick t \<longleftrightarrow> current_tick - tm_timeout_tick t < TICK_MAX div 2"

text \<open>The body of the loop for a timer that is due.\<close>

definition timer_expire :: "env \<Rightarrow> nat \<Rightarrow> kernel \<Rightarrow> kernel option" where
  "timer_expire e t k = do {
     tm \<leftarrow> timers k t;
     k \<leftarrow> timer_tree_remove (tm_node tm) k;
     k \<leftarrow> call_timeout e (tm_timeout_func tm) (tm_parameter tm) k;
     tm \<leftarrow> timers k t;
     k \<leftarrow> upd_timer t (ob_flag_update (\<lambda>f. f AND NOT TIMER_FLAG_ACTIVATED)) k;
     if ob_flag tm AND TIMER_FLAG_PERIODIC \<noteq> 0 \<and> ob_flag tm AND TIMER_FLAG_ACTIVATED \<noteq> 0
     then do { (_, k) \<leftarrow> Timer_start t k; Some k }
     else Some k }"

partial_function (option) Timer_check_loop :: "env \<Rightarrow> u32 \<Rightarrow> kernel \<Rightarrow> kernel option" where
  "Timer_check_loop e current_tick k =
     (if rb_empty (timer_tree k) then Some k
      else do {
        m \<leftarrow> rb_min (timer_tree k);
        t \<leftarrow> m;
        tm \<leftarrow> timers k t;
        if timer_due current_tick tm
        then do { k \<leftarrow> timer_expire e t k; Timer_check_loop e (tick_get k) k }
        else Some k })"

declare Timer_check_loop.simps [code]

text \<open>In \<open>timer_expire\<close> the tick is read again after the timeout function; nothing later in the body
  changes it.\<close>

definition Timer_check :: "env \<Rightarrow> kernel \<Rightarrow> kernel option" where
  "Timer_check e k = Timer_check_loop e (tick_get k) k"

section \<open>The tick\<close>

definition tick_increase :: "env \<Rightarrow> kernel \<Rightarrow> kernel option" where
  "tick_increase e k = do {
     let k = k\<lparr>global_tick := global_tick k + 1\<rparr>;
     k \<leftarrow> inclock e k;
     Timer_check e k }"

end
