(* ===== verification/Cos_Timer_Correct.thy ===== *)
theory Cos_Timer_Correct
  imports Cos_Clock
begin

text \<open>
  Timers: the tree of running timers as a sequence ordered by the expiry tick, starting and stopping a timer,
  and what \<open>Timer::check\<close> fires.
\<close>

section \<open>The running timers\<close>











section \<open>Starting and stopping\<close>







section \<open>Expiry\<close>












section \<open>Properties\<close>












end
