(* ===== verification/Cos_IPC.thy ===== *)
theory Cos_IPC
  imports Cos_Clock
begin

text \<open>
  The base class of the objects threads wait for, \<^verbatim>\<open>kernel/ipc/ipc.cpp\<close>. Its operations act on
  \<open>suspend_list_\<close>, which is an argument and part of the result here, so that each derived class can
  write it back to its object.
\<close>

section \<open>Constants\<close>

definition IPC_FLAG_FIFO :: u8 where "IPC_FLAG_FIFO = 0x00"
definition IPC_FLAG_PRIO :: u8 where "IPC_FLAG_PRIO = 0x01"
definition IPC_CMD_RESET :: u8 where "IPC_CMD_RESET = 0x01"

lemmas ipc_defs = IPC_FLAG_FIFO_def IPC_FLAG_PRIO_def IPC_CMD_RESET_def

section \<open>Operations\<close>

definition ipc_init :: "object_class \<Rightarrow> string \<Rightarrow> u8 \<Rightarrow> ipc" where
  "ipc_init type name flag =
     object.extend ((object_init type name)\<lparr>ob_flag := ucast flag\<rparr>) \<lparr>suspend_list = List_new\<rparr>"

text \<open>The branch depends on the flag of the thread, and both orders append.\<close>

definition list_suspend :: "nat \<Rightarrow> clist \<Rightarrow> kernel \<Rightarrow> (clist \<times> kernel) option" where
  "list_suspend t c k = do {
     (_, k) \<leftarrow> Thread_suspend t k;
     th \<leftarrow> threads k t;
     if ob_flag th = ucast IPC_FLAG_FIFO \<or> ob_flag th = ucast IPC_FLAG_PRIO then do {
       (h, c) \<leftarrow> push_back (lnodes k) c (th_list_node th);
       Some (c, k\<lparr>lnodes := h\<rparr>) }
     else Some (c, k) }"

definition list_resume :: "clist \<Rightarrow> kernel \<Rightarrow> (err_t \<times> clist \<times> kernel) option" where
  "list_resume c k = do {
     thread \<leftarrow> List_front (lnodes k) c;
     (case thread of
        None \<Rightarrow> Some (- ERR_ERROR, c, k)
      | Some t \<Rightarrow> do {
          th \<leftarrow> threads k t;
          (h, c) \<leftarrow> erase (lnodes k) c (th_list_node th);
          (_, k) \<leftarrow> Thread_resume t (k\<lparr>lnodes := h\<rparr>);
          Some (ERR_OK, c, k) }) }"

partial_function (option) list_resume_all :: "clist \<Rightarrow> kernel \<Rightarrow> (clist \<times> kernel) option" where
  "list_resume_all c k =
     (if List_empty c then Some (c, k)
      else do {
        thread \<leftarrow> List_front (lnodes k) c;
        t \<leftarrow> thread;
        th \<leftarrow> threads k t;
        (h, c) \<leftarrow> erase (lnodes k) c (th_list_node th);
        k \<leftarrow> upd_thread t (th_error_update (\<lambda>_. - ERR_ERROR)) (k\<lparr>lnodes := h\<rparr>);
        (_, k) \<leftarrow> Thread_resume t k;
        list_resume_all c k })"

declare list_resume_all.simps [code]

text \<open>The destructor wakes all threads up and destroys the base class.\<close>

definition IPC_delete :: "ipc \<Rightarrow> kernel \<Rightarrow> kernel option" where
  "IPC_delete x k = do {
     (_, k) \<leftarrow> list_resume_all (suspend_list x) k;
     Object_delete (ob_type x) (ob_name x) k }"

text \<open>What every blocking operation does with a waiting time greater than 0: set the thread timer to it
  and start it.\<close>

definition start_wait_timer :: "nat \<Rightarrow> u32 \<Rightarrow> kernel \<Rightarrow> kernel option" where
  "start_wait_timer t time k =
     (if 0 < sint time then do {
        th \<leftarrow> threads k t;
        (_, _, k) \<leftarrow> Timer_control (th_timer th) TIMER_CTRL_SET_TIME time k;
        (_, k) \<leftarrow> Timer_start (th_timer th) k;
        Some k }
      else Some k)"

text \<open>The waiting time that is left when a thread that waits in a loop runs again: \<open>start\<close> is the tick at
  which it began to wait. Waiting forever stays waiting forever.\<close>

definition wait_left :: "u32 \<Rightarrow> u32 \<Rightarrow> kernel \<Rightarrow> u32" where
  "wait_left timeout start k =
     (if 0 < sint timeout
      then let t = timeout - (tick_get k - start) in if sint t < 0 then 0 else t
      else timeout)"

lemma list_resume_none: "List_empty c \<Longrightarrow> list_resume c k = Some (- ERR_ERROR, c, k)"
  by (simp add: list_resume_def List_empty_def List_front_def)

end
