(* ===== verification/Cos_Thread_Correct.thy ===== *)
theory Cos_Thread_Correct
  imports Cos_IPC
begin

text \<open>
  Suspending and resuming threads and changing their priority, on top of the invariant of the scheduler.
\<close>

section \<open>The scheduler and the rest of the state\<close>

text \<open>The invariant reads the threads and list nodes of the ready threads only.\<close>

lemma sched_inv_frame:
  assumes inv: "sched_inv k rq" and eq: "ready_table k' = ready_table k" "priority_tree k' = priority_tree k"
    "ready_lists k' = ready_lists k"
    and rd: "\<And>p t. t \<in> set (rq p) \<Longrightarrow> lnodes k' t = lnodes k t \<and> threads k' t = threads k t"
  shows "sched_inv k' rq"
proof -
  have "ready_thread k' p t" if "t \<in> set (rq p)" for p t
    using sched_invD(6) [OF inv that] rd [OF that] by (simp add: ready_thread_def)
  moreover have "list_rep (lnodes k') c (rq p)" if "list_rep (lnodes k) c (rq p)" for c p
    using that rd list_rep_cong [of "rq p" "lnodes k'" "lnodes k" c] by blast
  ultimately show ?thesis using inv eq unfolding sched_inv_def prio_node_def by metis
qed

lemma remove_thread_threads:
  assumes "threads k t = Some th" "th_current_priority th' = th_current_priority th" "th_list_node th' = th_list_node th"
  shows "remove_thread t (k\<lparr>threads := (threads k)(t \<mapsto> th')\<rparr>) =
    map_option (\<lambda>k'. k'\<lparr>threads := (threads k)(t \<mapsto> th')\<rparr>) (remove_thread t k)"
proof -
  have r: "ready_list_of th' (k\<lparr>threads := (threads k)(t \<mapsto> th')\<rparr>) = ready_list_of th k"
    using assms(2) by (simp add: ready_list_of_def)
  show ?thesis
  proof (cases "ready_list_of th k")
    case None
    then show ?thesis using r assms by (simp add: remove_thread_def)
  next
    case (Some x)
    obtain node l c where x: "x = (node, l, c)" by (cases x)
    show ?thesis
    proof (cases "erase (lnodes k) c (th_list_node th)")
      case None
      then show ?thesis using r assms Some x by (simp add: remove_thread_def)
    next
      case (Some y)
      obtain h c' where y: "y = (h, c')" by (cases y)
      show ?thesis
        using r assms \<open>ready_list_of th k = Some x\<close> x Some y
        by (cases "rb_remove (priority_tree k) (Some node)") (auto simp: remove_thread_def Let_def)
    qed
  qed
qed

lemma ready_list_distinct: "sched_inv k rq \<Longrightarrow> distinct (rq p)"
  using sched_invD(2,4) [of k rq p] list_rep_distinct by (metis distinct.simps(1) not_le)

lemma removed_not_ready:
  assumes "sched_inv k rq" "t \<in> set (rq p)"
  shows "t \<notin> set ((rq(p := remove1 t (rq p))) q)"
proof (cases "q = p")
  case True
  then show ?thesis using ready_list_distinct [OF assms(1), of p] by simp
next
  case False
  then show ?thesis using ready_thread_unique [OF assms, of q] by auto
qed

section \<open>Suspending\<close>

definition timer_idle :: "kernel \<Rightarrow> nat \<Rightarrow> bool" where
  "timer_idle k a \<longleftrightarrow> (case timers k a of None \<Rightarrow> False | Some tm \<Rightarrow> ob_flag tm AND TIMER_FLAG_ACTIVATED = 0)"

lemma timer_idle_stop: "timer_idle k a \<Longrightarrow> Timer_stop a k = Some (- ERR_ERROR, k)"
  by (auto simp: timer_idle_def Timer_stop_def split: option.splits)

lemma suspend_inv:
  assumes inv: "sched_inv k rq" and t: "t \<in> set (rq p)" and th: "threads k t = Some th" and idle: "timer_idle k (th_timer th)"
  shows "\<exists>k' T h c. Thread_suspend t k = Some (ERR_OK, k') \<and>
    k' = sched_upd k ((threads k)(t \<mapsto> th\<lparr>th_stat := THREAD_SUSPEND\<rparr>)) T h ((ready_lists k)(p \<mapsto> c)) \<and>
    sched_inv k' (rq(p := remove1 t (rq p))) \<and> same_values (lnodes k) h \<and> h t = lnodes k t \<and>
    (\<forall>a. a \<notin> set (rq p) \<longrightarrow> h a = lnodes k a)"
proof -
  let ?th = "th\<lparr>th_stat := THREAD_SUSPEND\<rparr>"
  have rt: "th_stat th = THREAD_READY" "unat (th_current_priority th) = p" "th_list_node th = t"
    using sched_invD(6) [OF inv t] th by (auto simp: ready_thread_def)
  obtain T h c where r: "remove_thread t k = Some (sched_upd k (threads k) T h ((ready_lists k)(p \<mapsto> c)))"
    "sched_inv (sched_upd k (threads k) T h ((ready_lists k)(p \<mapsto> c))) (rq(p := remove1 t (rq p)))"
    "same_values (lnodes k) h" "h t = lnodes k t" "\<forall>a. a \<notin> set (rq p) \<longrightarrow> h a = lnodes k a"
    using remove_thread_inv [OF inv t th rt(2,3)] by blast
  let ?k = "sched_upd k ((threads k)(t \<mapsto> ?th)) T h ((ready_lists k)(p \<mapsto> c))"
  have "remove_thread t (k\<lparr>threads := (threads k)(t \<mapsto> ?th)\<rparr>) = Some ?k"
    using remove_thread_threads [OF th, of ?th] r(1) by (simp add: sched_upd_def)
  moreover have "timer_idle ?k (th_timer th)" using idle by (simp add: timer_idle_def)
  ultimately have "Thread_suspend t k = Some (ERR_OK, ?k)"
    using th rt(1) by (simp add: Thread_suspend_def timer_idle_stop)
  moreover have "sched_inv ?k (rq(p := remove1 t (rq p)))"
  proof (rule sched_inv_frame [OF r(2)])
    fix q s
    assume "s \<in> set ((rq(p := remove1 t (rq p))) q)"
    then have "s \<noteq> t" using removed_not_ready [OF inv t, of q] by metis
    then show "lnodes ?k s = lnodes (sched_upd k (threads k) T h ((ready_lists k)(p \<mapsto> c))) s \<and>
      threads ?k s = threads (sched_upd k (threads k) T h ((ready_lists k)(p \<mapsto> c))) s" by simp
  qed simp_all
  ultimately show ?thesis using r(3-5) by blast
qed

section \<open>Resuming\<close>

text \<open>The timer of a thread that waits is idle, or it is one of the running timers.\<close>

definition timer_stops :: "kernel \<Rightarrow> nat \<Rightarrow> bool" where
  "timer_stops k a \<longleftrightarrow> timer_idle k a \<or>
     (\<exists>xs tm. rb_balanced (timer_tree k) xs \<and> timers k a = Some tm \<and> tm_node tm \<in> set xs)"

lemma timer_stops_frame:
  assumes "timer_stops k a"
  shows "\<exists>r T ts. Timer_stop a k = Some (r, k\<lparr>timer_tree := T, timers := ts\<rparr>)"
proof (cases "timer_idle k a")
  case True
  then have "Timer_stop a k = Some (- ERR_ERROR, k\<lparr>timer_tree := timer_tree k, timers := timers k\<rparr>)" by (simp add: timer_idle_stop)
  then show ?thesis by blast
next
  case False
  then obtain xs tm where x: "rb_balanced (timer_tree k) xs" "timers k a = Some tm" "tm_node tm \<in> set xs"
    "ob_flag tm AND TIMER_FLAG_ACTIVATED \<noteq> 0"
    using assms by (auto simp: timer_stops_def timer_idle_def)
  obtain T where "rb_remove (timer_tree k) (Some (tm_node tm)) = Some (True, T)" using rb_remove_balanced [OF x(1,3)] by blast
  then have "Timer_stop a k = Some (ERR_OK, k\<lparr>timer_tree := T,
    timers := (timers k)(a \<mapsto> ob_flag_update (\<lambda>f. f AND NOT TIMER_FLAG_ACTIVATED) tm)\<rparr>)"
    using x(2,4) by (simp add: Timer_stop_def timer_tree_remove_def)
  then show ?thesis by blast
qed

text \<open>A thread that is suspended and in no ready list.\<close>

definition waiting :: "kernel \<Rightarrow> (nat \<Rightarrow> nat list) \<Rightarrow> nat \<Rightarrow> bool" where
  "waiting k rq t \<longleftrightarrow> (\<forall>q. t \<notin> set (rq q)) \<and>
     (\<exists>th n. threads k t = Some th \<and> th_stat th = THREAD_SUSPEND \<and> th_list_node th = t \<and> lnodes k t = Some n \<and> ln_value n = t)"

lemma resume_inv:
  assumes inv: "sched_inv k rq" and w: "waiting k rq t" and th: "threads k t = Some th" and tm: "timer_stops k (th_timer th)"
    and p: "unat (th_current_priority th) = p" "p < THREAD_PRIORITY_MAX"
    and first: "rq p = [] \<Longrightarrow> red_node (priority_tree k) (Suc p) \<and> (\<exists>n. lnodes k t = Some n \<and> ln_next n = None)"
  shows "\<exists>k' tt ts T h c. Thread_resume t k = Some (ERR_OK, k') \<and> sched_inv k' (rq(p := rq p @ [t])) \<and>
    k' = sched_upd (k\<lparr>timer_tree := tt, timers := ts\<rparr>) ((threads k)(t \<mapsto> th\<lparr>th_stat := THREAD_READY\<rparr>)) T h ((ready_lists k)(p \<mapsto> c)) \<and>
    same_values (lnodes k) h \<and> (\<forall>a. a \<notin> insert t (set (rq p)) \<longrightarrow> h a = lnodes k a) \<and>
    (timer_idle k (th_timer th) \<longrightarrow> tt = timer_tree k \<and> ts = timers k)"
proof -
  obtain n where n: "th_stat th = THREAD_SUSPEND" "th_list_node th = t" "lnodes k t = Some n" "ln_value n = t" "\<And>q. t \<notin> set (rq q)"
    using w th by (auto simp: waiting_def)
  obtain r tt ts where st: "Timer_stop (th_timer th) k = Some (r, k\<lparr>timer_tree := tt, timers := ts\<rparr>)"
    using timer_stops_frame [OF tm] by blast
  let ?k = "k\<lparr>timer_tree := tt, timers := ts\<rparr>"
  have i1: "sched_inv ?k rq" by (rule sched_inv_frame [OF inv]) simp_all
  have f1: "rq p = [] \<Longrightarrow> ln_next n = None \<and> red_node (priority_tree ?k) (Suc p)" using first n(3) by simp
  have t1: "threads ?k t = Some th" "lnodes ?k t = Some n" using th n(3) by simp_all
  obtain T h c where ins: "insert_thread t ?k =
      Some (sched_upd ?k ((threads ?k)(t \<mapsto> th\<lparr>th_stat := THREAD_READY\<rparr>)) T h ((ready_lists ?k)(p \<mapsto> c)))"
    "sched_inv (sched_upd ?k ((threads ?k)(t \<mapsto> th\<lparr>th_stat := THREAD_READY\<rparr>)) T h ((ready_lists ?k)(p \<mapsto> c))) (rq(p := rq p @ [t]))"
    "same_values (lnodes ?k) h" "\<forall>a. a \<notin> insert t (set (rq p)) \<longrightarrow> h a = lnodes ?k a"
    using insert_thread_inv [OF i1 t1(1) n(2) p t1(2) n(4,5) f1] by blast
  have "Thread_resume t k = Some (ERR_OK, sched_upd ?k ((threads k)(t \<mapsto> th\<lparr>th_stat := THREAD_READY\<rparr>)) T h ((ready_lists k)(p \<mapsto> c)))"
    using th n(1) st ins(1) by (simp add: Thread_resume_def)
  moreover have "sched_inv (sched_upd ?k ((threads k)(t \<mapsto> th\<lparr>th_stat := THREAD_READY\<rparr>)) T h ((ready_lists k)(p \<mapsto> c))) (rq(p := rq p @ [t]))"
    using ins(2) by simp
  moreover have "same_values (lnodes k) h" "\<forall>a. a \<notin> insert t (set (rq p)) \<longrightarrow> h a = lnodes k a" using ins(3,4) by simp_all
  moreover have "timer_idle k (th_timer th) \<longrightarrow> tt = timer_tree k \<and> ts = timers k"
  proof
    assume "timer_idle k (th_timer th)"
    then have "?k = k" using st timer_idle_stop by simp
    from arg_cong [OF this, of timer_tree] arg_cong [OF this, of timers] show "tt = timer_tree k \<and> ts = timers k" by simp
  qed
  ultimately show ?thesis by blast
qed

section \<open>Changing the priority\<close>

lemma remove_thread_other_nodes:
  assumes inv: "sched_inv k rq" and t: "t \<in> set (rq p)" and th: "threads k t = Some th"
    and r: "remove_thread t k = Some k'" and q: "rq q = []"
  shows "rb_nodes (priority_tree k') (Suc q) = rb_nodes (priority_tree k) (Suc q)"
proof -
  have p: "p < THREAD_PRIORITY_MAX" using sched_inv_prio [OF inv] t by force
  have rt: "unat (th_current_priority th) = p" using sched_invD(6) [OF inv t] th by (auto simp: ready_thread_def)
  obtain c where c: "ready_list_of th k = Some (Suc p, p, c)" using ready_list_of_inv [OF inv rt p] by blast
  obtain T where T: "rb_remove (priority_tree k) (Some (Suc p)) = Some (True, T)"
    "rb_nodes T (Suc q) = rb_nodes (priority_tree k) (Suc q)"
    using tree_remove_inv [OF inv p] t q by force
  show ?thesis
    using r th c T by (cases "erase (lnodes k) c (th_list_node th)") (auto simp: remove_thread_def Let_def split: if_splits)
qed

lemma insert_thread_other_nodes:
  assumes inv: "sched_inv k rq" and th: "threads k t = Some th" "unat (th_current_priority th) = p" "p < THREAD_PRIORITY_MAX"
    and first: "rq p = [] \<Longrightarrow> red_node (priority_tree k) (Suc p)"
    and r: "insert_thread t k = Some k'" and q: "rq q = []" "q \<noteq> p"
  shows "rb_nodes (priority_tree k') (Suc q) = rb_nodes (priority_tree k) (Suc q)"
proof -
  let ?th = "th\<lparr>th_stat := THREAD_READY\<rparr>"
  let ?k = "k\<lparr>threads := (threads k)(t \<mapsto> ?th)\<rparr>"
  obtain c where c: "ready_list_of th k = Some (Suc p, p, c)" "list_rep (lnodes k) c (rq p)" using ready_list_of_inv [OF inv th(2,3)] by blast
  have "ready_list_of ?th ?k = ready_list_of th k" by (simp add: ready_list_of_def)
  then have c1: "ready_list_of ?th ?k = Some (Suc p, p, c)" using c(1) by simp
  show ?thesis
  proof (cases "rq p = []")
    case True
    obtain T where "rb_insert (priority_tree k) (Suc p) = Some (True, T)" "rb_nodes T (Suc q) = rb_nodes (priority_tree k) (Suc q)"
      using tree_insert_inv [OF inv th(3) True first [OF True], of "[t]"] q by auto
    then show ?thesis
      using r th(1) c1 List_empty_rep [OF c(2)] True
      by (cases "push_back (lnodes k) c (th_list_node th)") (auto simp: insert_thread_def)
  next
    case False
    then show ?thesis
      using r th(1) c1 List_empty_rep [OF c(2)]
      by (cases "push_back (lnodes k) c (th_list_node th)") (auto simp: insert_thread_def)
  qed
qed

lemma change_priority_inv:
  assumes inv: "sched_inv k rq" and t: "t \<in> set (rq p)" and th: "threads k t = Some th"
    and q: "unat prio = q" "q < THREAD_PRIORITY_MAX" "q \<noteq> p"
    and first: "rq q = [] \<Longrightarrow> red_node (priority_tree k) (Suc q) \<and> (\<exists>n. lnodes k t = Some n \<and> ln_next n = None)"
  shows "\<exists>k' T h ls. Thread_control e t THREAD_CTRL_CHANGE_PRIORITY prio k = Some (ERR_OK, k') \<and>
    k' = sched_upd k ((threads k)(t \<mapsto> th\<lparr>th_current_priority := prio\<rparr>)) T h ls \<and>
    sched_inv k' (rq(p := remove1 t (rq p), q := rq q @ [t])) \<and> same_values (lnodes k) h \<and>
    (\<forall>a. a \<notin> set (rq p) \<and> a \<notin> set (rq q) \<longrightarrow> h a = lnodes k a)"
proof -
  obtain n where rt: "th_stat th = THREAD_READY" "unat (th_current_priority th) = p" "th_list_node th = t"
    "lnodes k t = Some n" "ln_value n = t"
    using sched_invD(6) [OF inv t] th by (auto simp: ready_thread_def)
  obtain T1 h1 c1 where r: "remove_thread t k = Some (sched_upd k (threads k) T1 h1 ((ready_lists k)(p \<mapsto> c1)))"
    "sched_inv (sched_upd k (threads k) T1 h1 ((ready_lists k)(p \<mapsto> c1))) (rq(p := remove1 t (rq p)))"
    "same_values (lnodes k) h1" "h1 t = lnodes k t" "\<forall>a. a \<notin> set (rq p) \<longrightarrow> h1 a = lnodes k a"
    using remove_thread_inv [OF inv t th rt(2,3)] by blast
  let ?th = "th\<lparr>th_current_priority := prio\<rparr>" and ?rq = "rq(p := remove1 t (rq p))"
  let ?k1 = "sched_upd k ((threads k)(t \<mapsto> ?th)) T1 h1 ((ready_lists k)(p \<mapsto> c1))"
  have i1: "sched_inv ?k1 ?rq"
  proof (rule sched_inv_frame [OF r(2)])
    fix q s
    assume "s \<in> set (?rq q)"
    then have "s \<noteq> t" using removed_not_ready [OF inv t, of q] by metis
    then show "lnodes ?k1 s = lnodes (sched_upd k (threads k) T1 h1 ((ready_lists k)(p \<mapsto> c1))) s \<and>
      threads ?k1 s = threads (sched_upd k (threads k) T1 h1 ((ready_lists k)(p \<mapsto> c1))) s" by simp
  qed simp_all
  have t1: "threads ?k1 t = Some ?th" "th_list_node ?th = t" "unat (th_current_priority ?th) = q" "lnodes ?k1 t = Some n"
    using rt(3,4) q(1) r(4) by simp_all
  have f1: "?rq q = [] \<Longrightarrow> ln_next n = None \<and> red_node (priority_tree ?k1) (Suc q)"
    using first remove_thread_other_nodes [OF inv t th r(1)] q(3) rt(4) by (auto simp: red_node_def)
  obtain T h c where ins: "insert_thread t ?k1 =
      Some (sched_upd ?k1 ((threads ?k1)(t \<mapsto> ?th\<lparr>th_stat := THREAD_READY\<rparr>)) T h ((ready_lists ?k1)(q \<mapsto> c)))"
    "sched_inv (sched_upd ?k1 ((threads ?k1)(t \<mapsto> ?th\<lparr>th_stat := THREAD_READY\<rparr>)) T h ((ready_lists ?k1)(q \<mapsto> c))) (?rq(q := ?rq q @ [t]))"
    "same_values (lnodes ?k1) h" "\<forall>a. a \<notin> insert t (set (?rq q)) \<longrightarrow> h a = lnodes ?k1 a"
    using insert_thread_inv [OF i1 t1(1-3) q(2) t1(4) rt(5) removed_not_ready [OF inv t] f1] by blast
  have same: "?th\<lparr>th_stat := THREAD_READY\<rparr> = ?th" using rt(1) by simp
  let ?k2 = "sched_upd k ((threads k)(t \<mapsto> ?th)) T h ((ready_lists k)(p \<mapsto> c1, q \<mapsto> c))"
  have k2: "sched_upd ?k1 ((threads ?k1)(t \<mapsto> ?th\<lparr>th_stat := THREAD_READY\<rparr>)) T h ((ready_lists ?k1)(q \<mapsto> c)) = ?k2"
    unfolding same by (simp add: sched_upd_def)
  have "upd_thread t (th_current_priority_update (\<lambda>_. prio)) (sched_upd k (threads k) T1 h1 ((ready_lists k)(p \<mapsto> c1))) = Some ?k1"
    using th by (simp add: sched_upd_def)
  then have "Thread_control e t THREAD_CTRL_CHANGE_PRIORITY prio k = Some (ERR_OK, ?k2)"
    using th rt(1) r(1) ins(1) k2 by (simp add: Thread_control_def)
  moreover have "sched_inv ?k2 (rq(p := remove1 t (rq p), q := rq q @ [t]))" using ins(2) q(3) unfolding k2 by simp
  moreover have "same_values (lnodes k) h" using r(3) ins(3) by (simp add: same_values_def)
  moreover have "\<forall>a. a \<notin> set (rq p) \<and> a \<notin> set (rq q) \<longrightarrow> h a = lnodes k a" using ins(4) r(5) t q(3) by auto
  ultimately show ?thesis by blast
qed

section \<open>Lists of waiting threads\<close>

definition wait_list :: "kernel \<Rightarrow> (nat \<Rightarrow> nat list) \<Rightarrow> clist \<Rightarrow> nat list \<Rightarrow> bool" where
  "wait_list k rq c ws \<longleftrightarrow> list_rep (lnodes k) c ws \<and> (\<forall>t\<in>set ws. waiting k rq t)"

lemma waiting_frame:
  assumes "waiting k rq t" "threads k' t = threads k t" "same_values (lnodes k) (lnodes k')" "\<And>q. t \<notin> set (rq' q)"
  shows "waiting k' rq' t"
  using assms same_values_node [OF assms(3)] unfolding waiting_def by metis

lemma list_suspend_inv:
  assumes inv: "sched_inv k rq" and t: "t \<in> set (rq p)" and th: "threads k t = Some th" and idle: "timer_idle k (th_timer th)"
    and flag: "ob_flag th = ucast IPC_FLAG_FIFO \<or> ob_flag th = ucast IPC_FLAG_PRIO" and w: "wait_list k rq c ws"
    and clean: "ws = [] \<Longrightarrow> \<exists>n. lnodes k t = Some n \<and> ln_next n = None"
  shows "\<exists>c' k' T h ls. list_suspend t c k = Some (c', k') \<and>
    k' = sched_upd k ((threads k)(t \<mapsto> th\<lparr>th_stat := THREAD_SUSPEND\<rparr>)) T h ls \<and>
    sched_inv k' (rq(p := remove1 t (rq p))) \<and> wait_list k' (rq(p := remove1 t (rq p))) c' (ws @ [t])"
proof -
  let ?th = "th\<lparr>th_stat := THREAD_SUSPEND\<rparr>" and ?rq = "rq(p := remove1 t (rq p))"
  obtain n where rt: "th_list_node th = t" "lnodes k t = Some n" "ln_value n = t"
    using sched_invD(6) [OF inv t] th by (auto simp: ready_thread_def)
  obtain k1 T h1 c1 where s: "Thread_suspend t k = Some (ERR_OK, k1)"
    "k1 = sched_upd k ((threads k)(t \<mapsto> ?th)) T h1 ((ready_lists k)(p \<mapsto> c1))" "sched_inv k1 ?rq"
    "same_values (lnodes k) h1" "h1 t = lnodes k t" "\<forall>a. a \<notin> set (rq p) \<longrightarrow> h1 a = lnodes k a"
    using suspend_inv [OF inv t th idle] by blast
  have ws: "list_rep (lnodes k) c ws" "\<And>w. w \<in> set ws \<Longrightarrow> waiting k rq w" using w by (auto simp: wait_list_def)
  have nr: "w \<notin> set (rq q)" if "w \<in> set ws" for w q using ws(2) [OF that] by (auto simp: waiting_def)
  have tw: "t \<notin> set ws" using nr t by blast
  have "list_rep h1 c ws" using ws(1) list_rep_cong [of ws h1 "lnodes k" c] s(6) nr by blast
  moreover have "ws = [] \<longrightarrow> ln_next n = None" using clean rt(2) by auto
  ultimately obtain h c' where h: "push_back h1 c t = Some (h, c')" "list_rep h c' (ws @ [t])" "same_values h1 h"
    "\<And>a. a \<noteq> t \<Longrightarrow> (ws \<noteq> [] \<longrightarrow> a \<noteq> last ws) \<Longrightarrow> h a = h1 a"
    using push_back_rep [of h1 c ws t n] s(5) rt(2) tw by metis
  let ?k = "sched_upd k ((threads k)(t \<mapsto> ?th)) T h ((ready_lists k)(p \<mapsto> c1))"
  have "k1\<lparr>lnodes := h\<rparr> = ?k" by (simp add: s(2) sched_upd_def)
  moreover have "threads k1 t = Some ?th" "lnodes k1 = h1" by (simp_all add: s(2))
  ultimately have "list_suspend t c k = Some (c', ?k)" using s(1) flag h(1) rt(1) by (simp add: list_suspend_def)
  moreover have "sched_inv ?k ?rq"
  proof (rule sched_inv_frame [OF s(3)])
    fix q u
    assume u: "u \<in> set (?rq q)"
    then have "u \<noteq> t" using removed_not_ready [OF inv t, of q] by metis
    moreover have "u \<in> set (rq q)" using u set_remove1_subset [of t "rq p"] by (auto split: if_splits)
    then have "ws \<noteq> [] \<longrightarrow> u \<noteq> last ws" using nr last_in_set by metis
    ultimately show "lnodes ?k u = lnodes k1 u \<and> threads ?k u = threads k1 u" using h(4) by (simp add: s(2))
  qed (simp_all add: s(2))
  moreover have sv: "same_values (lnodes k) (lnodes ?k)" using s(4) h(3) by (simp add: same_values_def)
  have "waiting ?k ?rq u" if u: "u \<in> set (ws @ [t])" for u
  proof (cases "u = t")
    case True
    then show ?thesis
      using removed_not_ready [OF inv t] rt same_values_node [OF sv rt(2)] by (auto simp: waiting_def)
  next
    case False
    then have "u \<in> set ws" using u by simp
    moreover have "u \<notin> set (?rq q)" for q using nr [OF calculation, of q] by (auto dest: in_set_remove1 [THEN iffD1, rotated] set_remove1_subset [THEN subsetD])
    ultimately show ?thesis using waiting_frame [OF ws(2) _ sv] False by simp
  qed
  ultimately show ?thesis using h(2) by (auto simp: wait_list_def intro!: exI)
qed

text \<open>A waiting thread that is taken off the list of waiting threads, wherever it stands there, and resumed.\<close>

lemma wake_inv:
  assumes inv: "sched_inv k rq" and w: "wait_list k rq c ws" and t: "t \<in> set ws" and th: "threads k t = Some th"
    and tm: "timer_stops k (th_timer th)" and p: "unat (th_current_priority th) = p" "p < THREAD_PRIORITY_MAX"
    and first: "rq p = [] \<Longrightarrow> ws = [t] \<and> red_node (priority_tree k) (Suc p)"
  shows "\<exists>h1 c' k' tt ts T h ls. erase (lnodes k) c t = Some (h1, c') \<and> Thread_resume t (k\<lparr>lnodes := h1\<rparr>) = Some (ERR_OK, k') \<and>
    k' = sched_upd (k\<lparr>timer_tree := tt, timers := ts\<rparr>) ((threads k)(t \<mapsto> th\<lparr>th_stat := THREAD_READY\<rparr>)) T h ls \<and>
    sched_inv k' (rq(p := rq p @ [t])) \<and> wait_list k' (rq(p := rq p @ [t])) c' (remove1 t ws) \<and>
    (timer_idle k (th_timer th) \<longrightarrow> tt = timer_tree k \<and> ts = timers k)"
proof -
  let ?rq = "rq(p := rq p @ [t])"
  have ws: "list_rep (lnodes k) c ws" "\<And>u. u \<in> set ws \<Longrightarrow> waiting k rq u" using w by (auto simp: wait_list_def)
  have nr: "u \<notin> set (rq q)" if "u \<in> set ws" for u q using ws(2) [OF that] by (auto simp: waiting_def)
  obtain h1 c' where e: "erase (lnodes k) c t = Some (h1, c')" "list_rep h1 c' (remove1 t ws)" "same_values (lnodes k) h1"
    "h1 t = lnodes k t" "\<And>a. a \<notin> set ws \<Longrightarrow> h1 a = lnodes k a"
    by (rule erase_rep [OF ws(1) t]) blast
  let ?k1 = "k\<lparr>lnodes := h1\<rparr>"
  have i1: "sched_inv ?k1 rq" by (rule sched_inv_frame [OF inv]) (use e(5) nr in auto)
  have w1: "waiting ?k1 rq t" by (rule waiting_frame [OF ws(2) [OF t]]) (use e(3) nr t in auto)
  have t1: "threads ?k1 t = Some th" "timer_stops ?k1 (th_timer th)" using th tm by (simp_all add: timer_stops_def timer_idle_def)
  have f1: "rq p = [] \<Longrightarrow> red_node (priority_tree ?k1) (Suc p) \<and> (\<exists>n. lnodes ?k1 t = Some n \<and> ln_next n = None)"
    using first list_rep_single [of "lnodes k" c t] ws(1) e(4) by auto
  obtain k' tt ts T h cl where r: "Thread_resume t ?k1 = Some (ERR_OK, k')" "sched_inv k' ?rq"
    "k' = sched_upd (?k1\<lparr>timer_tree := tt, timers := ts\<rparr>) ((threads ?k1)(t \<mapsto> th\<lparr>th_stat := THREAD_READY\<rparr>)) T h ((ready_lists ?k1)(p \<mapsto> cl))"
    "same_values (lnodes ?k1) h" "\<forall>a. a \<notin> insert t (set (rq p)) \<longrightarrow> h a = lnodes ?k1 a"
    "timer_idle ?k1 (th_timer th) \<longrightarrow> tt = timer_tree ?k1 \<and> ts = timers ?k1"
    using resume_inv [OF i1 w1 t1 p f1] by blast
  have k': "k' = sched_upd (k\<lparr>timer_tree := tt, timers := ts\<rparr>) ((threads k)(t \<mapsto> th\<lparr>th_stat := THREAD_READY\<rparr>)) T h ((ready_lists k)(p \<mapsto> cl))"
    by (simp add: r(3) sched_upd_def)
  have "wait_list k' ?rq c' (remove1 t ws)"
  proof -
    have tn: "u \<in> set ws" "u \<noteq> t" if "u \<in> set (remove1 t ws)" for u
      using that list_rep_distinct [OF ws(1)] set_remove1_eq [of ws t] by auto
    have "h a = h1 a" if "a \<in> set (remove1 t ws)" for a using r(5) tn [OF that] nr [of a p] by auto
    then have "list_rep (lnodes k') c' (remove1 t ws)" using e(2) list_rep_cong [of "remove1 t ws" h h1 c'] by (simp add: k')
    moreover have "waiting k' ?rq u" if u: "u \<in> set (remove1 t ws)" for u
    proof (rule waiting_frame [OF ws(2)])
      show "same_values (lnodes k) (lnodes k')" using e(3) r(4) by (simp add: k' same_values_def)
      show "threads k' u = threads k u" using tn [OF u] by (auto simp: k')
      show "u \<notin> set (?rq q)" for q using nr [of u q] tn [OF u] by auto
    qed (use tn [OF u] in simp)
    ultimately show ?thesis by (simp add: wait_list_def)
  qed
  moreover have "timer_idle k (th_timer th) \<longrightarrow> tt = timer_tree k \<and> ts = timers k" using r(6) by (simp add: timer_idle_def)
  ultimately show ?thesis using r(1,2) e(1) k' by blast
qed

lemma list_resume_inv:
  assumes inv: "sched_inv k rq" and w: "wait_list k rq c (t # ws)" and th: "threads k t = Some th"
    and tm: "timer_stops k (th_timer th)" and p: "unat (th_current_priority th) = p" "p < THREAD_PRIORITY_MAX"
    and first: "rq p = [] \<Longrightarrow> ws = [] \<and> red_node (priority_tree k) (Suc p)"
  shows "\<exists>c' k' tt ts T h ls. list_resume c k = Some (ERR_OK, c', k') \<and>
    k' = sched_upd (k\<lparr>timer_tree := tt, timers := ts\<rparr>) ((threads k)(t \<mapsto> th\<lparr>th_stat := THREAD_READY\<rparr>)) T h ls \<and>
    sched_inv k' (rq(p := rq p @ [t])) \<and> wait_list k' (rq(p := rq p @ [t])) c' ws"
proof -
  have ws: "list_rep (lnodes k) c (t # ws)" "waiting k rq t" using w by (auto simp: wait_list_def)
  obtain n where n: "th_list_node th = t" "lnodes k t = Some n" "ln_value n = t" using ws(2) th by (auto simp: waiting_def)
  have fr: "List_front (lnodes k) c = Some (Some t)" using List_front_rep [OF ws(1)] n(2,3) by simp
  have f1: "rq p = [] \<Longrightarrow> t # ws = [t] \<and> red_node (priority_tree k) (Suc p)" using first by simp
  obtain h1 c' k' tt ts T h ls where r: "erase (lnodes k) c t = Some (h1, c')" "Thread_resume t (k\<lparr>lnodes := h1\<rparr>) = Some (ERR_OK, k')"
    "k' = sched_upd (k\<lparr>timer_tree := tt, timers := ts\<rparr>) ((threads k)(t \<mapsto> th\<lparr>th_stat := THREAD_READY\<rparr>)) T h ls"
    "sched_inv k' (rq(p := rq p @ [t]))" "wait_list k' (rq(p := rq p @ [t])) c' (remove1 t (t # ws))"
    using wake_inv [OF inv w _ th tm p f1] by (metis list.set_intros(1))
  have "list_resume c k = Some (ERR_OK, c', k')" using fr th n(1) r(1,2) by (simp add: list_resume_def)
  moreover have "wait_list k' (rq(p := rq p @ [t])) c' ws" using r(5) by simp
  ultimately show ?thesis using r(3,4) by blast
qed

text \<open>Fields the scheduler does not read may change.\<close>

lemma sched_inv_thread:
  assumes inv: "sched_inv k rq" and th: "threads k t = Some th"
    and same: "th_stat th' = th_stat th" "th_current_priority th' = th_current_priority th" "th_list_node th' = th_list_node th"
  shows "sched_inv (k\<lparr>threads := (threads k)(t \<mapsto> th')\<rparr>) rq"
proof -
  have "ready_thread (k\<lparr>threads := (threads k)(t \<mapsto> th')\<rparr>) p u = ready_thread k p u" for p u
    using th same by (auto simp: ready_thread_def)
  then show ?thesis using sched_inv_cong [of "k\<lparr>threads := (threads k)(t \<mapsto> th')\<rparr>" k rq] inv by simp
qed

lemma wait_list_other_thread:
  assumes "wait_list k rq c ws" "t \<in> set (rq p)"
  shows "wait_list (k\<lparr>threads := (threads k)(t \<mapsto> th')\<rparr>) rq c ws"
proof -
  have "waiting (k\<lparr>threads := (threads k)(t \<mapsto> th')\<rparr>) rq w" if "w \<in> set ws" for w
  proof (rule waiting_frame)
    show "waiting k rq w" using assms(1) that by (simp add: wait_list_def)
    then show "threads (k\<lparr>threads := (threads k)(t \<mapsto> th')\<rparr>) w = threads k w" "w \<notin> set (rq q)" for q
      using assms(2) by (auto simp: waiting_def)
  qed simp
  then show ?thesis using assms(1) by (simp add: wait_list_def)
qed

text \<open>A thread that is first in its ready list, with another one behind it, takes that one along into an
  empty list of waiting threads.\<close>

lemma list_suspend_splice:
  assumes inv: "sched_inv k rq" and rq: "rq p = t # u # us" and th: "threads k t = Some th" "timer_idle k (th_timer th)"
    and flag: "ob_flag th = ucast IPC_FLAG_FIFO \<or> ob_flag th = ucast IPC_FLAG_PRIO" and c: "List_empty c"
  shows "\<exists>c' k' T h ls. list_suspend t c k = Some (c', k') \<and>
    k' = sched_upd k ((threads k)(t \<mapsto> th\<lparr>th_stat := THREAD_SUSPEND\<rparr>)) T h ls \<and>
    sched_inv k' (rq(p := u # us)) \<and> List_size (lnodes k') c' = Some (length (t # u # us)) \<and>
    getNode (lnodes k') c' 1 = Some (Some u)"
proof -
  have t: "t \<in> set (rq p)" using rq by simp
  have p: "p < THREAD_PRIORITY_MAX" using sched_inv_prio [OF inv, of p] rq by simp
  have node: "th_list_node th = t" using sched_invD(6) [OF inv t] th(1) by (auto simp: ready_thread_def)
  obtain k1 T h c1 where s: "Thread_suspend t k = Some (ERR_OK, k1)"
    "k1 = sched_upd k ((threads k)(t \<mapsto> th\<lparr>th_stat := THREAD_SUSPEND\<rparr>)) T h ((ready_lists k)(p \<mapsto> c1))"
    "sched_inv k1 (rq(p := remove1 t (rq p)))" "h t = lnodes k t"
    using suspend_inv [OF inv t th] by blast
  have i1: "sched_inv k1 (rq(p := u # us))" using s(3) rq by simp
  obtain cr where "list_rep h cr (u # us)" using sched_invD(2) [OF i1 p] by (auto simp: s(2))
  moreover obtain cp where "list_rep (lnodes k) cp (t # u # us)" using sched_invD(2) [OF inv p] rq by auto
  then obtain n where "h t = Some n" "ln_next n = Some u" using list_rep_next s(4) by fastforce
  ultimately obtain c' where c': "push_back h c t = Some (h, c')" "List_size h c' = Some (length (t # u # us))"
    "getNode h c' 1 = Some (Some u)"
    using push_back_stale [OF _ _ _ c] by blast
  have "threads k1 t = Some (th\<lparr>th_stat := THREAD_SUSPEND\<rparr>)" "lnodes k1 = h" "k1\<lparr>lnodes := h\<rparr> = k1"
    by (simp_all add: s(2) sched_upd_def)
  then have "list_suspend t c k = Some (c', k1)" using s(1) flag node c'(1) by (simp add: list_suspend_def)
  moreover have "List_size (lnodes k1) c' = Some (length (t # u # us))" "getNode (lnodes k1) c' 1 = Some (Some u)"
    using c'(2,3) \<open>lnodes k1 = h\<close> by simp_all
  ultimately show ?thesis using s(2) i1 by blast
qed

section \<open>Sample machines\<close>

text \<open>Two threads that were not started yet, with priorities \<open>pa\<close> and \<open>pb\<close>, of which the first one is the current one.\<close>

definition pair_kernel :: "u8 \<Rightarrow> u8 \<Rightarrow> kernel" where
  "pair_kernel pa pb = boot_kernel\<lparr>threads := [1 \<mapsto> sample_thread 1 ''a'' pa, 2 \<mapsto> sample_thread 2 ''b'' pb],
     timers := (\<lambda>t. Some (object.extend (object_init Object_Class_Timer ''t'')
       \<lparr>tm_timeout_func = Thread_timeout_func, tm_parameter = t, tm_init_tick = 0, tm_timeout_tick = 0, tm_node = t + 10\<rparr>)),
     current_thread := Some 1\<rparr>"

lemma pair_kernel_simps [simp]:
  "threads (pair_kernel pa pb) = [1 \<mapsto> sample_thread 1 ''a'' pa, 2 \<mapsto> sample_thread 2 ''b'' pb]"
  "lnodes (pair_kernel pa pb) = lnodes boot_kernel" "current_thread (pair_kernel pa pb) = Some 1" "interrupt_nest (pair_kernel pa pb) = 0"
  "priority_tree (pair_kernel pa pb) = priority_tree boot_kernel" "timer_idle (pair_kernel pa pb) t"
  by (simp_all add: pair_kernel_def timer_idle_def object.defs object_init_def)

lemma pair_kernel_inv: "sched_inv (pair_kernel pa pb) (\<lambda>_. [])"
  by (rule sched_inv_frame [OF boot_kernel_inv]) (simp_all add: pair_kernel_def)

text \<open>The same with the first thread started, and with both.\<close>

lemma pair_kernel_one:
  assumes "unat pa < THREAD_PRIORITY_MAX"
  shows "\<exists>k T h ls. insert_thread 1 (pair_kernel pa pb) = Some k \<and> sched_inv k ((\<lambda>_. [])(unat pa := [1])) \<and>
    k = sched_upd (pair_kernel pa pb) ((threads (pair_kernel pa pb))(1 \<mapsto> (sample_thread 1 ''a'' pa)\<lparr>th_stat := THREAD_READY\<rparr>)) T h ls \<and>
    h 2 = Some (Node_new 2)"
proof -
  let ?k = "pair_kernel pa pb" and ?th = "sample_thread 1 ''a'' pa"
  have t: "threads ?k 1 = Some ?th" "lnodes ?k 1 = Some (Node_new 1)" by simp_all
  obtain T h c where "insert_thread 1 ?k = Some (sched_upd ?k ((threads ?k)(1 \<mapsto> ?th\<lparr>th_stat := THREAD_READY\<rparr>)) T h ((ready_lists ?k)(unat pa \<mapsto> c)))"
    "sched_inv (sched_upd ?k ((threads ?k)(1 \<mapsto> ?th\<lparr>th_stat := THREAD_READY\<rparr>)) T h ((ready_lists ?k)(unat pa \<mapsto> c))) ((\<lambda>_. [])(unat pa := [] @ [1]))"
    "\<forall>a. a \<notin> insert 1 (set []) \<longrightarrow> h a = lnodes ?k a"
    using insert_thread_inv [OF pair_kernel_inv t(1) _ _ assms t(2)] boot_kernel_red [OF assms] by (auto simp: Node_new_def)
  moreover have "h 2 = Some (Node_new 2)" using calculation(3) by simp
  ultimately show ?thesis by (metis append_Nil)
qed

lemma pair_kernel_two:
  assumes pa: "unat pa < THREAD_PRIORITY_MAX" and pb: "unat pb < THREAD_PRIORITY_MAX"
  shows "\<exists>k1 k T h ls. insert_thread 1 (pair_kernel pa pb) = Some k1 \<and> insert_thread 2 k1 = Some k \<and>
    sched_inv k (if pa = pb then (\<lambda>_. [])(unat pa := [1, 2]) else (\<lambda>_. [])(unat pa := [1], unat pb := [2])) \<and>
    k = sched_upd (pair_kernel pa pb) ((threads (pair_kernel pa pb))(1 \<mapsto> (sample_thread 1 ''a'' pa)\<lparr>th_stat := THREAD_READY\<rparr>,
      2 \<mapsto> (sample_thread 2 ''b'' pb)\<lparr>th_stat := THREAD_READY\<rparr>)) T h ls"
proof -
  let ?k = "pair_kernel pa pb" and ?rq = "(\<lambda>_. [])(unat pa := [1]) :: nat \<Rightarrow> nat list"
  let ?t1 = "(sample_thread 1 ''a'' pa)\<lparr>th_stat := THREAD_READY\<rparr>" and ?t2 = "(sample_thread 2 ''b'' pb)\<lparr>th_stat := THREAD_READY\<rparr>"
  obtain k1 T1 h1 ls1 where k1: "insert_thread 1 ?k = Some k1" "sched_inv k1 ?rq"
    "k1 = sched_upd ?k ((threads ?k)(1 \<mapsto> ?t1)) T1 h1 ls1" "h1 2 = Some (Node_new 2)"
    using pair_kernel_one [OF pa, of pb] by blast
  have t: "threads k1 2 = Some (sample_thread 2 ''b'' pb)" "lnodes k1 2 = Some (Node_new 2)" by (simp_all add: k1(3,4))
  have f: "?rq (unat pb) = [] \<Longrightarrow> ln_next (Node_new (2 :: nat)) = None \<and> red_node (priority_tree k1) (Suc (unat pb))"
  proof -
    assume e: "?rq (unat pb) = []"
    have "rb_nodes (priority_tree k1) (Suc (unat pb)) = rb_nodes (priority_tree ?k) (Suc (unat pb))"
      by (rule insert_thread_other_nodes [OF pair_kernel_inv _ _ pa _ k1(1)]) (use e boot_kernel_red [OF pa] in \<open>auto split: if_splits\<close>)
    then show ?thesis using boot_kernel_red [OF pb] by (simp add: red_node_def Node_new_def)
  qed
  have "\<exists>T h c. insert_thread 2 k1 = Some (sched_upd k1 ((threads k1)(2 \<mapsto> ?t2)) T h ((ready_lists k1)(unat pb \<mapsto> c))) \<and>
    sched_inv (sched_upd k1 ((threads k1)(2 \<mapsto> ?t2)) T h ((ready_lists k1)(unat pb \<mapsto> c))) (?rq(unat pb := ?rq (unat pb) @ [2])) \<and>
    same_values (lnodes k1) h \<and> (\<forall>a. a \<notin> insert 2 (set (?rq (unat pb))) \<longrightarrow> h a = lnodes k1 a)"
    by (rule insert_thread_inv [OF k1(2) t(1) _ _ pb t(2) _ _ f]) (simp_all add: Node_new_def)
  then obtain T h c where ins: "insert_thread 2 k1 = Some (sched_upd k1 ((threads k1)(2 \<mapsto> ?t2)) T h ((ready_lists k1)(unat pb \<mapsto> c)))"
    "sched_inv (sched_upd k1 ((threads k1)(2 \<mapsto> ?t2)) T h ((ready_lists k1)(unat pb \<mapsto> c))) (?rq(unat pb := ?rq (unat pb) @ [2]))"
    by blast
  have eq: "sched_upd k1 ((threads k1)(2 \<mapsto> ?t2)) T h ((ready_lists k1)(unat pb \<mapsto> c)) =
    sched_upd ?k ((threads ?k)(1 \<mapsto> ?t1, 2 \<mapsto> ?t2)) T h ((ready_lists k1)(unat pb \<mapsto> c))"
    by (simp add: k1(3) sched_upd_def)
  have "?rq(unat pb := ?rq (unat pb) @ [2]) = (if pa = pb then (\<lambda>_. [])(unat pa := [1, 2]) else (\<lambda>_. [])(unat pa := [1], unat pb := [2]))"
    using unsigned_word_eqI [of pb pa] by auto
  then have "sched_inv (sched_upd ?k ((threads ?k)(1 \<mapsto> ?t1, 2 \<mapsto> ?t2)) T h ((ready_lists k1)(unat pb \<mapsto> c)))
    (if pa = pb then (\<lambda>_. [])(unat pa := [1, 2]) else (\<lambda>_. [])(unat pa := [1], unat pb := [2]))"
    using ins(2) unfolding eq by (simp only:)
  then show ?thesis
    using k1(1) ins(1) unfolding eq
    by (intro exI [of _ k1] exI [of _ "sched_upd ?k ((threads ?k)(1 \<mapsto> ?t1, 2 \<mapsto> ?t2)) T h ((ready_lists k1)(unat pb \<mapsto> c))"]
        exI [of _ T] exI [of _ h] exI [of _ "(ready_lists k1)(unat pb \<mapsto> c)"] conjI refl)
qed

end
