(* ===== verification/Cos_Semaphore.thy ===== *)
theory Cos_Semaphore
  imports Cos_IPC
begin

text \<open>
  Counting semaphores, \<^verbatim>\<open>kernel/ipc/semaphore.cpp\<close>. The counter has 16 bits; a waiting time is an
  \<open>int32_t\<close>, read as signed.
\<close>

section \<open>Operations\<close>

text \<open>The 32-bit initial value is truncated to the counter.\<close>

definition Semaphore_new :: "string \<Rightarrow> u32 \<Rightarrow> u8 \<Rightarrow> nat \<Rightarrow> kernel \<Rightarrow> kernel option" where
  "Semaphore_new name value flag this k = do {
     k \<leftarrow> Object_new Object_Class_Semaphore name this k;
     Some (k\<lparr>sems := (sems k)(this \<mapsto>
       ipc.extend (ipc_init Object_Class_Semaphore name flag) \<lparr>sem_value = ucast value\<rparr>)\<rparr>) }"

definition Semaphore_delete :: "nat \<Rightarrow> kernel \<Rightarrow> kernel option" where
  "Semaphore_delete this k = do {
     x \<leftarrow> sems k this;
     k \<leftarrow> IPC_delete (ipc.truncate x) k;
     Some (k\<lparr>sems := (sems k)(this := None)\<rparr>) }"

definition Semaphore_take :: "env \<Rightarrow> nat \<Rightarrow> u32 \<Rightarrow> kernel \<Rightarrow> (err_t \<times> kernel) option" where
  "Semaphore_take e this time k = do {
     x \<leftarrow> sems k this;
     if 0 < sem_value x then do {
       k \<leftarrow> upd_sem this (sem_value_update (\<lambda>v. v - 1)) k;
       Some (ERR_OK, k) }
     else if time = 0 then Some (- ERR_TIMEOUT, k)
     else do {
       debug_in_thread_context k;
       thread \<leftarrow> get_current_thread k;
       k \<leftarrow> set_errno ERR_OK k;
       (c, k) \<leftarrow> list_suspend thread (suspend_list x) k;
       k \<leftarrow> upd_sem this (suspend_list_update (\<lambda>_. c)) k;
       k \<leftarrow> start_wait_timer thread time k;
       k \<leftarrow> process e k;
       th \<leftarrow> threads k thread;
       if th_error th \<noteq> ERR_OK then Some (th_error th, k)
       else Some (ERR_OK, k) } }"

definition Semaphore_trytake :: "env \<Rightarrow> nat \<Rightarrow> kernel \<Rightarrow> (err_t \<times> kernel) option" where
  "Semaphore_trytake e this k = Semaphore_take e this 0 k"

definition Semaphore_release :: "env \<Rightarrow> nat \<Rightarrow> kernel \<Rightarrow> (err_t \<times> kernel) option" where
  "Semaphore_release e this k = do {
     x \<leftarrow> sems k this;
     (r, c, k) \<leftarrow> list_resume (suspend_list x) k;
     k \<leftarrow> upd_sem this (suspend_list_update (\<lambda>_. c)) k;
     if r = ERR_OK then do {
       k \<leftarrow> process e k;
       Some (ERR_OK, k) }
     else do {
       k \<leftarrow> upd_sem this (sem_value_update (\<lambda>v. v + 1)) k;
       Some (ERR_OK, k) } }"

definition Semaphore_control :: "env \<Rightarrow> nat \<Rightarrow> u8 \<Rightarrow> u32 \<Rightarrow> kernel \<Rightarrow> (err_t \<times> kernel) option" where
  "Semaphore_control e this cmd arg k =
     (if cmd = IPC_CMD_RESET then do {
        x \<leftarrow> sems k this;
        (c, k) \<leftarrow> list_resume_all (suspend_list x) k;
        k \<leftarrow> upd_sem this (suspend_list_update (\<lambda>_. c)) k;
        k \<leftarrow> upd_sem this (sem_value_update (\<lambda>_. ucast arg)) k;
        k \<leftarrow> process e k;
        Some (ERR_OK, k) }
      else Some (- ERR_ERROR, k))"

end
