(* ===== verification/Cos_Semaphore_Correct.thy ===== *)
theory Cos_Semaphore_Correct
  imports Cos_Thread_Correct Cos_Semaphore
begin

text \<open>
  Semaphores: counting without waiting, and how a thread that waits leaves and enters the ready lists.
\<close>

section \<open>Counting\<close>

datatype sem_op = Trytake | Release

text \<open>The reference: a natural number.\<close>

fun count_run :: "sem_op list \<Rightarrow> nat \<Rightarrow> err_t list \<times> nat" where
  "count_run [] v = ([], v)"
| "count_run (Release # cs) v = (let (rs, w) = count_run cs (v + 1) in (ERR_OK # rs, w))"
| "count_run (Trytake # cs) v =
     (if v = 0 then let (rs, w) = count_run cs v in (- ERR_TIMEOUT # rs, w)
      else let (rs, w) = count_run cs (v - 1) in (ERR_OK # rs, w))"

fun sem_run :: "env \<Rightarrow> nat \<Rightarrow> sem_op list \<Rightarrow> kernel \<Rightarrow> (err_t list \<times> kernel) option" where
  "sem_run e s [] k = Some ([], k)"
| "sem_run e s (c # cs) k = do {
     (r, k) \<leftarrow> (case c of Trytake \<Rightarrow> Semaphore_trytake e s k | Release \<Rightarrow> Semaphore_release e s k);
     (rs, k) \<leftarrow> sem_run e s cs k;
     Some (r # rs, k) }"

text \<open>A semaphore with value \<open>v\<close> that no thread waits for.\<close>

definition sem_idle :: "nat \<Rightarrow> kernel \<Rightarrow> nat \<Rightarrow> bool" where
  "sem_idle s k v \<longleftrightarrow> (\<exists>x. sems k s = Some x \<and> List_empty (suspend_list x) \<and> unat (sem_value x) = v)"

lemma sem_trytake_idle:
  assumes "sem_idle s k v"
  shows "if v = 0 then Semaphore_trytake e s k = Some (- ERR_TIMEOUT, k)
    else \<exists>k'. Semaphore_trytake e s k = Some (ERR_OK, k') \<and> sem_idle s k' (v - 1)"
proof -
  obtain x where x: "sems k s = Some x" "List_empty (suspend_list x)" "unat (sem_value x) = v"
    using assms by (auto simp: sem_idle_def)
  have "0 < sem_value x \<longleftrightarrow> v \<noteq> 0" using x(3) by (auto simp: word_less_nat_alt)
  moreover have "v \<noteq> 0 \<Longrightarrow> unat (sem_value x - 1) = v - 1" using unat_dec16 [of "sem_value x"] x(3) by simp
  ultimately show ?thesis using x by (simp add: Semaphore_trytake_def Semaphore_take_def sem_idle_def)
qed

lemma sem_release_idle:
  assumes "sem_idle s k v" "v < 65535"
  shows "\<exists>k'. Semaphore_release e s k = Some (ERR_OK, k') \<and> sem_idle s k' (v + 1)"
proof -
  obtain x where x: "sems k s = Some x" "List_empty (suspend_list x)" "unat (sem_value x) = v"
    using assms by (auto simp: sem_idle_def)
  have "unat (sem_value x + 1) = v + 1" using unat_inc16 [of "sem_value x"] x(3) assms(2) by simp
  moreover have "x\<lparr>suspend_list := suspend_list x\<rparr> = x" by simp
  ultimately show ?thesis
    using x by (simp add: Semaphore_release_def list_resume_none err_defs sem_idle_def)
qed

lemma sem_run_counts:
  assumes "sem_idle s k v" "v + length (filter ((=) Release) cs) \<le> 65535"
  shows "\<exists>k'. sem_run e s cs k = Some (fst (count_run cs v), k') \<and> sem_idle s k' (snd (count_run cs v))"
  using assms
proof (induction cs arbitrary: k v)
  case (Cons c cs)
  show ?case
  proof (cases c)
    case Trytake
    show ?thesis
    proof (cases "v = 0")
      case True
      then show ?thesis using sem_trytake_idle [OF Cons.prems(1), of e] Cons.IH [OF Cons.prems(1)] Cons.prems(2) Trytake
        by (auto simp: split_beta)
    next
      case False
      then obtain k1 where k1: "Semaphore_trytake e s k = Some (ERR_OK, k1)" "sem_idle s k1 (v - 1)"
        using sem_trytake_idle [OF Cons.prems(1), of e] by auto
      have "v - 1 + length (filter ((=) Release) cs) \<le> 65535" using Cons.prems(2) Trytake False by simp
      from Cons.IH [OF k1(2) this] show ?thesis using k1(1) Trytake False by (auto simp: split_beta)
    qed
  next
    case Release
    then obtain k1 where k1: "Semaphore_release e s k = Some (ERR_OK, k1)" "sem_idle s k1 (v + 1)"
      using sem_release_idle [OF Cons.prems(1), of e] Cons.prems(2) by auto
    show ?thesis using k1(1) Cons.IH [OF k1(2)] Cons.prems(2) Release by (auto simp: split_beta)
  qed
qed simp

section \<open>Waiting\<close>


section \<open>Properties\<close>

text \<open>C24: without waiting threads a semaphore counts: every sequence of \<open>trytake\<close> and \<open>release\<close> returns what it returns
  on a natural number, as long as this number stays below \<open>2 ^ 16\<close>; a \<open>trytake\<close> fails exactly when the number
  is zero.\<close>

theorem semaphore_counts:
  assumes "sem_idle s k v" and "v + length (filter ((=) Release) cs) \<le> 65535"
  shows "\<exists>k'. sem_run e s cs k = Some (fst (count_run cs v), k') \<and> sem_idle s k' (snd (count_run cs v))"
  by (rule sem_run_counts [OF assms])

definition sem_kernel :: "u32 \<Rightarrow> kernel" where
  "sem_kernel v = the (Semaphore_new ''sem'' v 0 5 empty_kernel)"

lemma sem_kernel_idle: "sem_idle 5 (sem_kernel 1) 1"
  by (simp add: sem_idle_def sem_kernel_def Semaphore_new_def Object_new_def empty_kernel_def CONFIG_NAME_MAX_def
      ipc.defs ipc_init_def object.defs object_init_def List_empty_def List_new_def)

theorem semaphore_counts_witness:
  "\<exists>k'. sem_run lone_env 5 [Trytake, Trytake, Release, Trytake] (sem_kernel 1) = Some ([0, 3, 0, 0], k') \<and> sem_idle 5 k' 0"
  using semaphore_counts [OF sem_kernel_idle, of "[Trytake, Trytake, Release, Trytake]" lone_env]
  by (simp add: err_defs)

text \<open>An empty semaphore.\<close>

definition wait_sem :: semaphore where
  "wait_sem = ipc.extend (ipc_init Object_Class_Semaphore ''sem'' 0) \<lparr>sem_value = 0\<rparr>"

lemma wait_sem_simps [simp]:
  "sem_value wait_sem = 0" "List_empty (suspend_list wait_sem)" "pHead (suspend_list wait_sem) = None"
  by (simp_all add: wait_sem_def ipc.defs ipc_init_def object.defs object_init_def List_new_def List_empty_def)







end
