(* ===== verification/Cos_Mutex.thy ===== *)
theory Cos_Mutex
  imports Cos_IPC
begin

text \<open>
  Mutexes with priority inheritance, \<^verbatim>\<open>kernel/ipc/mutex.cpp\<close>.
\<close>

section \<open>Operations\<close>

definition Mutex_new :: "string \<Rightarrow> u8 \<Rightarrow> nat \<Rightarrow> kernel \<Rightarrow> kernel option" where
  "Mutex_new name flag this k = do {
     k \<leftarrow> Object_new Object_Class_Mutex name this k;
     Some (k\<lparr>mutexes := (mutexes k)(this \<mapsto>
       ipc.extend (ipc_init Object_Class_Mutex name flag)
         \<lparr>mtx_value = 1, mtx_original_priority = 0xFF, mtx_hold = 0, mtx_owner = None\<rparr>)\<rparr>) }"

definition Mutex_delete :: "nat \<Rightarrow> kernel \<Rightarrow> kernel option" where
  "Mutex_delete this k = do {
     x \<leftarrow> mutexes k this;
     k \<leftarrow> IPC_delete (ipc.truncate x) k;
     Some (k\<lparr>mutexes := (mutexes k)(this := None)\<rparr>) }"

text \<open>The part of \<open>take\<close> that waits: lend the priority of the calling thread to the owner, suspend,
  and wait for the mutex.\<close>

definition mutex_wait :: "env \<Rightarrow> nat \<Rightarrow> nat \<Rightarrow> u32 \<Rightarrow> kernel \<Rightarrow> (err_t \<times> kernel) option" where
  "mutex_wait e this thread time k = do {
     x \<leftarrow> mutexes k this;
     th \<leftarrow> threads k thread;
     owner \<leftarrow> mtx_owner x;
     ow \<leftarrow> threads k owner;
     (_, k) \<leftarrow> (if th_current_priority th < th_current_priority ow
               then Thread_control e owner THREAD_CTRL_CHANGE_PRIORITY (th_current_priority th) k
               else Some (ERR_OK, k));
     (c, k) \<leftarrow> list_suspend thread (suspend_list x) k;
     k \<leftarrow> upd_mutex this (suspend_list_update (\<lambda>_. c)) k;
     k \<leftarrow> start_wait_timer thread time k;
     k \<leftarrow> process e k;
     th \<leftarrow> threads k thread;
     if th_error th \<noteq> ERR_OK then Some (th_error th, k)
     else Some (ERR_OK, k) }"

definition Mutex_take :: "env \<Rightarrow> nat \<Rightarrow> u32 \<Rightarrow> kernel \<Rightarrow> (err_t \<times> kernel) option" where
  "Mutex_take e this time k = do {
     debug_in_thread_context k;
     thread \<leftarrow> get_current_thread k;
     k \<leftarrow> upd_thread thread (th_error_update (\<lambda>_. ERR_OK)) k;
     x \<leftarrow> mutexes k this;
     if mtx_owner x = Some thread then do {
       k \<leftarrow> upd_mutex this (mtx_hold_update (\<lambda>h. h + 1)) k;
       Some (ERR_OK, k) }
     else if 0 < mtx_value x then do {
       th \<leftarrow> threads k thread;
       k \<leftarrow> upd_mutex this (\<lambda>x. x\<lparr>mtx_value := mtx_value x - 1, mtx_owner := Some thread,
              mtx_original_priority := th_current_priority th, mtx_hold := mtx_hold x + 1\<rparr>) k;
       Some (ERR_OK, k) }
     else if time = 0 then do {
       k \<leftarrow> upd_thread thread (th_error_update (\<lambda>_. - ERR_TIMEOUT)) k;
       Some (- ERR_TIMEOUT, k) }
     else mutex_wait e this thread time k }"

text \<open>The part of \<open>release\<close> after the last hold is given up: restore the priority of the owner, and hand the
  mutex to the first waiting thread, if there is one. The result tells whether to schedule.\<close>

definition mutex_handover :: "env \<Rightarrow> nat \<Rightarrow> kernel \<Rightarrow> (bool \<times> kernel) option" where
  "mutex_handover e this k = do {
     x \<leftarrow> mutexes k this;
     owner \<leftarrow> mtx_owner x;
     ow \<leftarrow> threads k owner;
     (_, k) \<leftarrow> (if mtx_original_priority x \<noteq> th_current_priority ow
               then Thread_control e owner THREAD_CTRL_CHANGE_PRIORITY (mtx_original_priority x) k
               else Some (ERR_OK, k));
     if \<not> List_empty (suspend_list x) then do {
       front \<leftarrow> List_front (lnodes k) (suspend_list x);
       thread \<leftarrow> front;
       th \<leftarrow> threads k thread;
       k \<leftarrow> upd_mutex this (\<lambda>x. x\<lparr>mtx_owner := Some thread,
              mtx_original_priority := th_current_priority th, mtx_hold := mtx_hold x + 1\<rparr>) k;
       (_, c, k) \<leftarrow> list_resume (suspend_list x) k;
       k \<leftarrow> upd_mutex this (suspend_list_update (\<lambda>_. c)) k;
       Some (True, k) }
     else do {
       k \<leftarrow> upd_mutex this (\<lambda>x. x\<lparr>mtx_value := mtx_value x + 1, mtx_owner := None,
              mtx_original_priority := 0xff\<rparr>) k;
       Some (False, k) } }"

definition Mutex_release :: "env \<Rightarrow> nat \<Rightarrow> kernel \<Rightarrow> (err_t \<times> kernel) option" where
  "Mutex_release e this k = do {
     debug_in_thread_context k;
     thread \<leftarrow> get_current_thread k;
     x \<leftarrow> mutexes k this;
     if mtx_owner x \<noteq> Some thread then do {
       k \<leftarrow> upd_thread thread (th_error_update (\<lambda>_. - ERR_ERROR)) k;
       Some (- ERR_ERROR, k) }
     else do {
       k \<leftarrow> upd_mutex this (mtx_hold_update (\<lambda>h. h - 1)) k;
       x \<leftarrow> mutexes k this;
       (need_schedule, k) \<leftarrow> (if mtx_hold x = 0 then mutex_handover e this k else Some (False, k));
       k \<leftarrow> (if need_schedule then process e k else Some k);
       Some (ERR_OK, k) } }"

definition Mutex_control :: "nat \<Rightarrow> u8 \<Rightarrow> kernel \<Rightarrow> (err_t \<times> kernel) option" where
  "Mutex_control this cmd k = Some (- ERR_ERROR, k)"

end
