(* ===== verification/Cos_Mutex_Correct.thy ===== *)
theory Cos_Mutex_Correct
  imports Cos_Thread_Correct Cos_Mutex
begin

text \<open>
  Mutexes: used without waiting, a mutex is a lock with an owner and a count; waiting for it lends the
  priority of the waiting thread to the owner.
\<close>

section \<open>The lock\<close>

datatype mtx_op = Take | Release

type_synonym lock = "(nat \<times> nat) option"

text \<open>The reference: nobody holds the lock, or its owner does, so many times.\<close>

fun lock_step :: "nat \<Rightarrow> mtx_op \<Rightarrow> lock \<Rightarrow> err_t \<times> lock" where
  "lock_step t Take None = (ERR_OK, Some (t, 1))"
| "lock_step t Take (Some (ow, n)) = (if ow = t then (ERR_OK, Some (ow, n + 1)) else (- ERR_TIMEOUT, Some (ow, n)))"
| "lock_step t Release None = (- ERR_ERROR, None)"
| "lock_step t Release (Some (ow, n)) =
     (if ow \<noteq> t then (- ERR_ERROR, Some (ow, n)) else (ERR_OK, if n = 1 then None else Some (ow, n - 1)))"

fun lock_run :: "(nat \<times> mtx_op) list \<Rightarrow> lock \<Rightarrow> err_t list \<times> lock" where
  "lock_run [] L = ([], L)"
| "lock_run ((t, c) # cs) L = (let (r, L) = lock_step t c L; (rs, L) = lock_run cs L in (r # rs, L))"

text \<open>Each call is made by some thread, which then is the current one.\<close>

fun mtx_run :: "env \<Rightarrow> nat \<Rightarrow> (nat \<times> mtx_op) list \<Rightarrow> kernel \<Rightarrow> (err_t list \<times> kernel) option" where
  "mtx_run e m [] k = Some ([], k)"
| "mtx_run e m ((t, c) # cs) k = do {
     (r, k) \<leftarrow> (case c of Take \<Rightarrow> Mutex_take e m 0 (k\<lparr>current_thread := Some t\<rparr>)
       | Release \<Rightarrow> Mutex_release e m (k\<lparr>current_thread := Some t\<rparr>));
     (rs, k) \<leftarrow> mtx_run e m cs k;
     Some (r # rs, k) }"

definition mtx_state :: "mutex \<Rightarrow> kernel \<Rightarrow> lock \<Rightarrow> bool" where
  "mtx_state x k L \<longleftrightarrow>
     (case L of
        None \<Rightarrow> mtx_owner x = None \<and> mtx_value x = 1 \<and> mtx_hold x = 0
      | Some (ow, n) \<Rightarrow> mtx_owner x = Some ow \<and> mtx_value x = 0 \<and> unat (mtx_hold x) = n \<and> 0 < n \<and>
          (\<exists>th. threads k ow = Some th \<and> mtx_original_priority x = th_current_priority th))"

text \<open>The mutex is in state \<open>L\<close>, no thread waits for it, and the threads of \<open>T\<close> exist.\<close>

definition mtx_idle :: "nat \<Rightarrow> nat set \<Rightarrow> kernel \<Rightarrow> lock \<Rightarrow> bool" where
  "mtx_idle m T k L \<longleftrightarrow> interrupt_nest k = 0 \<and> (\<forall>t\<in>T. threads k t \<noteq> None) \<and>
     (\<exists>x. mutexes k m = Some x \<and> List_empty (suspend_list x) \<and> mtx_state x k L)"

fun lock_depth :: "lock \<Rightarrow> nat" where
  "lock_depth None = 0"
| "lock_depth (Some (ow, n)) = n"

lemma unat_inc8: "unat (i :: u8) < 255 \<Longrightarrow> unat (i + 1) = unat i + 1"
  by (simp add: unat_word_ariths)

lemma unat_dec8: "0 < unat (i :: u8) \<Longrightarrow> unat (i - 1) = unat i - 1"
  by (simp add: unat_sub word_le_nat_alt)

text \<open>Writing the error number of a thread.\<close>

lemma mtx_state_error:
  "threads k t = Some th \<Longrightarrow> mtx_state x (k\<lparr>current_thread := c, threads := (threads k)(t \<mapsto> th\<lparr>th_error := er\<rparr>)\<rparr>) L = mtx_state x k L"
  by (auto simp: mtx_state_def split: option.splits)

lemma mtx_take_idle:
  assumes k: "mtx_idle m T k L" and t: "t \<in> T" and d: "lock_depth L < 255"
  shows "\<exists>k'. Mutex_take e m 0 (k\<lparr>current_thread := Some t\<rparr>) = Some (fst (lock_step t Take L), k') \<and>
    mtx_idle m T k' (snd (lock_step t Take L))"
proof -
  obtain x where x: "interrupt_nest k = 0" "\<forall>t\<in>T. threads k t \<noteq> None" "mutexes k m = Some x" "List_empty (suspend_list x)" "mtx_state x k L"
    using k by (auto simp: mtx_idle_def)
  obtain th where th: "threads k t = Some th" using x(2) t by blast
  note sd = Mutex_take_def debug_in_thread_context_def debug_not_in_interrupt_def interrupt_get_nest_def get_current_thread_def
  show ?thesis
  proof (cases L)
    case None
    let ?k = "k\<lparr>current_thread := Some t, threads := (threads k)(t \<mapsto> th\<lparr>th_error := ERR_OK\<rparr>),
      mutexes := (mutexes k)(m \<mapsto> x\<lparr>mtx_value := 0, mtx_owner := Some t, mtx_original_priority := th_current_priority th, mtx_hold := 1\<rparr>)\<rparr>"
    have "Mutex_take e m 0 (k\<lparr>current_thread := Some t\<rparr>) = Some (ERR_OK, ?k)"
      using None x th by (simp add: sd mtx_state_def)
    moreover have "mtx_idle m T ?k (Some (t, 1))" using x th by (auto simp: mtx_idle_def mtx_state_def)
    ultimately show ?thesis using None by simp
  next
    case (Some on)
    obtain ow n where on: "on = (ow, n)" by (cases on)
    have o: "mtx_owner x = Some ow" "mtx_value x = 0" "unat (mtx_hold x) = n" "0 < n" using x(5) Some on by (auto simp: mtx_state_def)
    show ?thesis
    proof (cases "ow = t")
      case True
      let ?k = "k\<lparr>current_thread := Some t, threads := (threads k)(t \<mapsto> th\<lparr>th_error := ERR_OK\<rparr>),
        mutexes := (mutexes k)(m \<mapsto> x\<lparr>mtx_hold := mtx_hold x + 1\<rparr>)\<rparr>"
      have h: "mtx_hold_update (\<lambda>h. h + 1) x = x\<lparr>mtx_hold := mtx_hold x + 1\<rparr>" by (cases x) simp
      have "Mutex_take e m 0 (k\<lparr>current_thread := Some t\<rparr>) = Some (ERR_OK, ?k)"
        using True o x th by (simp add: sd h)
      moreover have "unat (mtx_hold x + 1) = n + 1" using unat_inc8 [of "mtx_hold x"] o(3) d Some on by simp
      then have "mtx_state (x\<lparr>mtx_hold := mtx_hold x + 1\<rparr>) ?k (Some (ow, n + 1))"
        using True x(5) Some on th by (auto simp: mtx_state_def)
      then have "mtx_idle m T ?k (Some (ow, n + 1))" using x th by (auto simp: mtx_idle_def)
      ultimately show ?thesis using True Some on by simp
    next
      case False
      let ?k = "k\<lparr>current_thread := Some t, threads := (threads k)(t \<mapsto> th\<lparr>th_error := - ERR_TIMEOUT\<rparr>)\<rparr>"
      have "Mutex_take e m 0 (k\<lparr>current_thread := Some t\<rparr>) = Some (- ERR_TIMEOUT, ?k)"
        using False o x th by (simp add: sd)
      moreover have "mtx_idle m T ?k L" using x th by (auto simp: mtx_idle_def mtx_state_error [OF th])
      ultimately show ?thesis using False Some on by simp
    qed
  qed
qed

lemma mtx_release_idle:
  assumes k: "mtx_idle m T k L" and t: "t \<in> T" and d: "lock_depth L \<le> 255"
  shows "\<exists>k'. Mutex_release e m (k\<lparr>current_thread := Some t\<rparr>) = Some (fst (lock_step t Release L), k') \<and>
    mtx_idle m T k' (snd (lock_step t Release L))"
proof -
  obtain x where x: "interrupt_nest k = 0" "\<forall>t\<in>T. threads k t \<noteq> None" "mutexes k m = Some x" "List_empty (suspend_list x)" "mtx_state x k L"
    using k by (auto simp: mtx_idle_def)
  obtain th where th: "threads k t = Some th" using x(2) t by blast
  note sd = Mutex_release_def debug_in_thread_context_def debug_not_in_interrupt_def interrupt_get_nest_def get_current_thread_def
  show ?thesis
  proof (cases "mtx_owner x = Some t")
    case False
    let ?k = "k\<lparr>current_thread := Some t, threads := (threads k)(t \<mapsto> th\<lparr>th_error := - ERR_ERROR\<rparr>)\<rparr>"
    have "Mutex_release e m (k\<lparr>current_thread := Some t\<rparr>) = Some (- ERR_ERROR, ?k)" using False x th by (simp add: sd)
    moreover have "lock_step t Release L = (- ERR_ERROR, L)" using False x(5) by (cases L) (auto simp: mtx_state_def)
    moreover have "mtx_idle m T ?k L" using x th by (auto simp: mtx_idle_def mtx_state_error [OF th])
    ultimately show ?thesis by simp
  next
    case True
    then obtain n where L: "L = Some (t, n)" "mtx_value x = 0" "unat (mtx_hold x) = n" "0 < n" "mtx_original_priority x = th_current_priority th"
      using x(5) th by (auto simp: mtx_state_def split: option.splits)
    have h: "mtx_hold_update (\<lambda>h. h - 1) x = x\<lparr>mtx_hold := mtx_hold x - 1\<rparr>" by (cases x) simp
    have un: "unat (mtx_hold x - 1) = n - 1" using unat_dec8 [of "mtx_hold x"] L(3,4) by simp
    show ?thesis
    proof (cases "n = 1")
      case one: True
      have z: "mtx_hold x - 1 = 0" using un one by (simp add: unat_eq_0)
      let ?k = "k\<lparr>current_thread := Some t, mutexes := (mutexes k)(m \<mapsto> x\<lparr>mtx_hold := 0, mtx_value := 1, mtx_owner := None, mtx_original_priority := 0xff\<rparr>)\<rparr>"
      have "Mutex_release e m (k\<lparr>current_thread := Some t\<rparr>) = Some (ERR_OK, ?k)"
        using True L z x th by (simp add: sd h mutex_handover_def)
      moreover have "mtx_idle m T ?k None" using x by (simp add: mtx_idle_def mtx_state_def)
      ultimately show ?thesis using L(1) one by simp
    next
      case False
      then have z: "mtx_hold x - 1 \<noteq> 0" using un L(4) by auto
      let ?k = "k\<lparr>current_thread := Some t, mutexes := (mutexes k)(m \<mapsto> x\<lparr>mtx_hold := mtx_hold x - 1\<rparr>)\<rparr>"
      have "Mutex_release e m (k\<lparr>current_thread := Some t\<rparr>) = Some (ERR_OK, ?k)" using True z x th by (simp add: sd h)
      moreover have "mtx_idle m T ?k (Some (t, n - 1))" using x L un th True False by (simp add: mtx_idle_def mtx_state_def)
      ultimately show ?thesis using L(1) False by simp
    qed
  qed
qed

lemma lock_depth_step: "lock_depth (snd (lock_step t c L)) \<le> lock_depth L + (if c = Take then 1 else 0)"
  by (cases c; cases L) auto

lemma mtx_run_lock:
  assumes "mtx_idle m T k L" "fst ` set cs \<subseteq> T" "lock_depth L + length (filter (\<lambda>c. snd c = Take) cs) \<le> 255"
  shows "\<exists>k'. mtx_run e m cs k = Some (fst (lock_run cs L), k') \<and> mtx_idle m T k' (snd (lock_run cs L))"
  using assms
proof (induction cs arbitrary: k L)
  case (Cons tc cs)
  obtain t c where tc: "tc = (t, c)" by (cases tc)
  have t: "t \<in> T" "fst ` set cs \<subseteq> T" using Cons.prems(2) tc by auto
  let ?call = "case c of Take \<Rightarrow> Mutex_take e m 0 (k\<lparr>current_thread := Some t\<rparr>) | Release \<Rightarrow> Mutex_release e m (k\<lparr>current_thread := Some t\<rparr>)"
  have "\<exists>k1. ?call = Some (fst (lock_step t c L), k1) \<and> mtx_idle m T k1 (snd (lock_step t c L))"
  proof (cases c)
    case Take
    then have "lock_depth L < 255" using Cons.prems(3) tc by simp
    from mtx_take_idle [OF Cons.prems(1) t(1) this] show ?thesis using Take by simp
  next
    case Release
    then have "lock_depth L \<le> 255" using Cons.prems(3) by simp
    from mtx_release_idle [OF Cons.prems(1) t(1) this] show ?thesis using Release by simp
  qed
  then obtain k1 where k1: "?call = Some (fst (lock_step t c L), k1)" "mtx_idle m T k1 (snd (lock_step t c L))" by blast
  have "lock_depth (snd (lock_step t c L)) + length (filter (\<lambda>c. snd c = Take) cs) \<le> 255"
    using lock_depth_step [of t c L] Cons.prems(3) tc by (auto split: if_splits)
  from Cons.IH [OF k1(2) t(2) this] show ?case using k1(1) tc by (auto simp: split_beta)
qed simp

section \<open>Priority inheritance\<close>


section \<open>Properties\<close>

text \<open>C28: used without waiting, a mutex is a lock: every sequence of \<open>take\<close> and \<open>release\<close> calls, each by any thread,
  returns what it returns on a lock with an owner and a count. Only the owner can take it again or release it,
  and others get the mutex only after as many releases as takes, as long as the count stays below \<open>2 ^ 8\<close>.\<close>

theorem mutex_is_lock:
  assumes "mtx_idle m T k L" and "fst ` set cs \<subseteq> T" and "lock_depth L + length (filter (\<lambda>c. snd c = Take) cs) \<le> 255"
  shows "\<exists>k'. mtx_run e m cs k = Some (fst (lock_run cs L), k') \<and> mtx_idle m T k' (snd (lock_run cs L))"
  by (rule mtx_run_lock [OF assms])

text \<open>A mutex that is free, and two threads.\<close>

definition mtx_kernel :: kernel where
  "mtx_kernel = the (Mutex_new ''m'' 0 6 boot_kernel)"

lemma mtx_kernel_idle: "mtx_idle 6 {1, 2} mtx_kernel None"
  by (simp add: mtx_idle_def mtx_state_def mtx_kernel_def Mutex_new_def Object_new_def CONFIG_NAME_MAX_def boot_kernel_def
      Scheduler_init_def empty_kernel_def ipc.defs ipc_init_def object.defs object_init_def List_empty_def List_new_def)

theorem mutex_is_lock_witness:
  "\<exists>k'. mtx_run lone_env 6 [(1, Take), (1, Take), (2, Take), (2, Release), (1, Release), (1, Release), (2, Take)] mtx_kernel =
    Some ([0, 0, 3, -1, 0, 0, 0], k') \<and> mtx_idle 6 {1, 2} k' (Some (2, 1))"
  using mutex_is_lock [OF mtx_kernel_idle, of "[(1, Take), (1, Take), (2, Take), (2, Release), (1, Release), (1, Release), (2, Take)]" lone_env]
  by (simp add: err_defs)



end
