(* ===== verification/Cos_Event.thy ===== *)
theory Cos_Event
  imports Cos_IPC
begin

text \<open>
  Event sets, \<^verbatim>\<open>kernel/ipc/event.cpp\<close>.
\<close>

section \<open>Constants\<close>

definition EVENT_FLAG_AND :: u8 where "EVENT_FLAG_AND = 0x01"
definition EVENT_FLAG_OR :: u8 where "EVENT_FLAG_OR = 0x02"
definition EVENT_FLAG_CLEAR :: u8 where "EVENT_FLAG_CLEAR = 0x04"

lemmas event_defs = EVENT_FLAG_AND_def EVENT_FLAG_OR_def EVENT_FLAG_CLEAR_def

section \<open>Operations\<close>

definition Event_new :: "string \<Rightarrow> u8 \<Rightarrow> nat \<Rightarrow> kernel \<Rightarrow> kernel option" where
  "Event_new name flag this k = do {
     k \<leftarrow> Object_new Object_Class_Event name this k;
     Some (k\<lparr>events := (events k)(this \<mapsto>
       ipc.extend (ipc_init Object_Class_Event name flag) \<lparr>ev_set = 0\<rparr>)\<rparr>) }"

definition Event_delete :: "nat \<Rightarrow> kernel \<Rightarrow> kernel option" where
  "Event_delete this k = do {
     x \<leftarrow> events k this;
     k \<leftarrow> IPC_delete (ipc.truncate x) k;
     Some (k\<lparr>events := (events k)(this := None)\<rparr>) }"

text \<open>Whether the events \<open>have\<close> satisfy a request for \<open>want\<close>, and the thread the event set is tested for:
  an OR request that succeeds records which of its events arrived.\<close>

definition event_satisfied :: "u8 \<Rightarrow> u32 \<Rightarrow> u32 \<Rightarrow> bool" where
  "event_satisfied option want have \<longleftrightarrow>
     (if option AND EVENT_FLAG_AND \<noteq> 0 then want AND have = want
      else if option AND EVENT_FLAG_OR \<noteq> 0 then want AND have \<noteq> 0
      else False)"

definition event_received :: "thread \<Rightarrow> u32 \<Rightarrow> thread" where
  "event_received th have =
     (if th_event_info th AND EVENT_FLAG_AND = 0 \<and> th_event_info th AND EVENT_FLAG_OR \<noteq> 0
      then th\<lparr>th_event_set := th_event_set th AND have\<rparr> else th)"

text \<open>The loop of \<open>send\<close> over the waiting threads, with the result of \<open>need_schedule\<close>. The successor is read
  before the thread is taken out of the list.\<close>

partial_function (option) event_wake ::
  "nat \<Rightarrow> nat option \<Rightarrow> bool \<Rightarrow> kernel \<Rightarrow> (bool \<times> kernel) option" where
  "event_wake this node need_schedule k =
     (case node of
        None \<Rightarrow> Some (need_schedule, k)
      | Some a \<Rightarrow> do {
          n \<leftarrow> lnodes k a;
          let thread = ln_value n;
          th \<leftarrow> threads k thread;
          x \<leftarrow> events k this;
          if event_satisfied (th_event_info th) (th_event_set th) (ev_set x) then do {
            let th = event_received th (ev_set x);
            k \<leftarrow> upd_thread thread (\<lambda>_. th) k;
            k \<leftarrow> (if th_event_info th AND EVENT_FLAG_CLEAR \<noteq> 0
                 then upd_event this (ev_set_update (\<lambda>s. s AND NOT (th_event_set th))) k else Some k);
            (h, c) \<leftarrow> erase (lnodes k) (suspend_list x) (th_list_node th);
            k \<leftarrow> upd_event this (suspend_list_update (\<lambda>_. c)) (k\<lparr>lnodes := h\<rparr>);
            (_, k) \<leftarrow> Thread_resume thread k;
            event_wake this (ln_next n) True k }
          else event_wake this (ln_next n) need_schedule k })"

declare event_wake.simps [code]

definition Event_send :: "env \<Rightarrow> nat \<Rightarrow> u32 \<Rightarrow> kernel \<Rightarrow> (err_t \<times> kernel) option" where
  "Event_send e this evs k =
     (if evs = 0 then Some (- ERR_ERROR, k)
      else do {
        k \<leftarrow> upd_event this (ev_set_update (\<lambda>s. s OR evs)) k;
        x \<leftarrow> events k this;
        (need_schedule, k) \<leftarrow> (if \<not> List_empty (suspend_list x)
          then event_wake this (List_begin (suspend_list x)) False k else Some (False, k));
        k \<leftarrow> (if need_schedule then process e k else Some k);
        Some (ERR_OK, k) })"

text \<open>\<open>recv\<close>: \<open>recved\<close> is the value behind the pointer argument, the result has its new value.\<close>

definition event_wait :: "env \<Rightarrow> nat \<Rightarrow> nat \<Rightarrow> u32 \<Rightarrow> u8 \<Rightarrow> u32 \<Rightarrow> u32 \<Rightarrow> kernel \<Rightarrow> (err_t \<times> u32 \<times> kernel) option" where
  "event_wait e this thread evs option timeout recved k = do {
     k \<leftarrow> upd_thread thread (\<lambda>th. th\<lparr>th_event_set := evs, th_event_info := option\<rparr>) k;
     x \<leftarrow> events k this;
     (c, k) \<leftarrow> list_suspend thread (suspend_list x) k;
     k \<leftarrow> upd_event this (suspend_list_update (\<lambda>_. c)) k;
     k \<leftarrow> start_wait_timer thread timeout k;
     k \<leftarrow> process e k;
     th \<leftarrow> threads k thread;
     if th_error th \<noteq> ERR_OK then Some (th_error th, recved, k)
     else Some (th_error th, th_event_set th, k) }"

definition Event_recv ::
  "env \<Rightarrow> nat \<Rightarrow> u32 \<Rightarrow> u8 \<Rightarrow> u32 \<Rightarrow> u32 \<Rightarrow> kernel \<Rightarrow> (err_t \<times> u32 \<times> kernel) option" where
  "Event_recv e this evs option timeout recved k =
     (if evs = 0 then Some (- ERR_ERROR, recved, k)
      else do {
        thread \<leftarrow> get_current_thread k;
        k \<leftarrow> upd_thread thread (th_error_update (\<lambda>_. ERR_OK)) k;
        cos_assert (option AND EVENT_FLAG_AND \<noteq> 0 \<or> option AND EVENT_FLAG_OR \<noteq> 0);
        x \<leftarrow> events k this;
        if event_satisfied option evs (ev_set x) then do {
          k \<leftarrow> (if option AND EVENT_FLAG_CLEAR \<noteq> 0
               then upd_event this (ev_set_update (\<lambda>s. s AND NOT evs)) k else Some k);
          th \<leftarrow> threads k thread;
          Some (th_error th, ev_set x AND evs, k) }
        else if timeout = 0 then do {
          k \<leftarrow> upd_thread thread (th_error_update (\<lambda>_. - ERR_TIMEOUT)) k;
          th \<leftarrow> threads k thread;
          Some (th_error th, recved, k) }
        else event_wait e this thread evs option timeout recved k })"

definition Event_control :: "env \<Rightarrow> nat \<Rightarrow> u8 \<Rightarrow> kernel \<Rightarrow> (err_t \<times> kernel) option" where
  "Event_control e this cmd k =
     (if cmd = IPC_CMD_RESET then do {
        x \<leftarrow> events k this;
        (c, k) \<leftarrow> list_resume_all (suspend_list x) k;
        k \<leftarrow> upd_event this (\<lambda>x. x\<lparr>suspend_list := c, ev_set := 0\<rparr>) k;
        k \<leftarrow> process e k;
        Some (ERR_OK, k) }
      else Some (- ERR_ERROR, k))"

end
