(* ===== verification/Cos_Event_Correct.thy ===== *)
theory Cos_Event_Correct
  imports Cos_Thread_Correct Cos_Event
begin

text \<open>
  Event sets: without waiting threads they are sets of event numbers, and a send makes exactly the waiting
  threads ready whose request is satisfied when their turn comes.
\<close>

unbundle bit_operations_syntax

section \<open>Words as sets of event numbers\<close>

definition bits :: "u32 \<Rightarrow> nat set" where
  "bits w = set (filter (bit w) [0..<32])"

lemma bit_less32: "bit (w :: u32) i \<Longrightarrow> i < 32"
  using bit_imp_le_length [of w i] by simp

lemma in_bits [simp]: "i \<in> bits w \<longleftrightarrow> bit w i"
  using bit_less32 [of w i] by (auto simp: bits_def)

lemma bits_OR [simp]: "bits (a OR b) = bits a \<union> bits b"
  by (auto simp: bit_simps)

lemma bits_AND: "bits (a AND b) = bits a \<inter> bits b"
  by (auto simp: bit_simps)

lemma bits_AND_NOT [simp]: "bits (a AND NOT b) = bits a - bits b"
  by (auto simp: bit_simps bit_less32)

lemma bits_inject [simp]: "bits a = bits b \<longleftrightarrow> a = b"
  by (metis bit_eqI in_bits)

lemma bits_0 [simp]: "bits 0 = {}"
  by auto

lemma bits_empty [simp]: "bits a = {} \<longleftrightarrow> a = 0"
  using bits_inject [of a 0] by simp

lemma event_satisfied_bits:
  "event_satisfied opt want have \<longleftrightarrow>
     (if opt AND EVENT_FLAG_AND \<noteq> 0 then bits want \<subseteq> bits have
      else opt AND EVENT_FLAG_OR \<noteq> 0 \<and> bits want \<inter> bits have \<noteq> {})"
proof -
  have "want AND have = want \<longleftrightarrow> bits want \<subseteq> bits have"
    by (metis bits_AND bits_inject inf.absorb_iff1)
  moreover have "want AND have = 0 \<longleftrightarrow> bits want \<inter> bits have = {}"
    by (metis bits_AND bits_empty)
  ultimately show ?thesis by (simp add: event_satisfied_def)
qed

section \<open>An event set nobody waits for\<close>

datatype ev_op = Ev_send u32 | Ev_recv u32 u8

text \<open>The reference: a set of numbers. The result is the error code and the received events.\<close>

fun set_step :: "ev_op \<Rightarrow> nat set \<Rightarrow> (err_t \<times> nat set) \<times> nat set" where
  "set_step (Ev_send w) S = (if bits w = {} then ((- ERR_ERROR, {}), S) else ((ERR_OK, {}), S \<union> bits w))"
| "set_step (Ev_recv w opt) S =
     (if bits w = {} then ((- ERR_ERROR, {}), S)
      else if (if opt AND EVENT_FLAG_AND \<noteq> 0 then bits w \<subseteq> S else bits w \<inter> S \<noteq> {})
      then ((ERR_OK, S \<inter> bits w), if opt AND EVENT_FLAG_CLEAR \<noteq> 0 then S - bits w else S)
      else ((- ERR_TIMEOUT, {}), S))"

fun set_run :: "ev_op list \<Rightarrow> nat set \<Rightarrow> (err_t \<times> nat set) list \<times> nat set" where
  "set_run [] S = ([], S)"
| "set_run (c # cs) S = (let (r, S) = set_step c S; (rs, S) = set_run cs S in (r # rs, S))"

text \<open>The calls: a receive does not wait, and the word its result is stored in is zero before.\<close>

fun ev_call :: "env \<Rightarrow> nat \<Rightarrow> ev_op \<Rightarrow> kernel \<Rightarrow> ((err_t \<times> u32) \<times> kernel) option" where
  "ev_call e v (Ev_send w) k = do { (r, k) \<leftarrow> Event_send e v w k; Some ((r, 0), k) }"
| "ev_call e v (Ev_recv w opt) k = do { (r, w, k) \<leftarrow> Event_recv e v w opt 0 0 k; Some ((r, w), k) }"

fun ev_run :: "env \<Rightarrow> nat \<Rightarrow> ev_op list \<Rightarrow> kernel \<Rightarrow> ((err_t \<times> u32) list \<times> kernel) option" where
  "ev_run e v [] k = Some ([], k)"
| "ev_run e v (c # cs) k = do { (r, k) \<leftarrow> ev_call e v c k; (rs, k) \<leftarrow> ev_run e v cs k; Some (r # rs, k) }"

fun ev_allowed :: "ev_op \<Rightarrow> bool" where
  "ev_allowed (Ev_send w) = True"
| "ev_allowed (Ev_recv w opt) = (opt AND EVENT_FLAG_AND \<noteq> 0 \<or> opt AND EVENT_FLAG_OR \<noteq> 0)"

definition ev_idle :: "nat \<Rightarrow> kernel \<Rightarrow> nat set \<Rightarrow> bool" where
  "ev_idle v k S \<longleftrightarrow> (\<exists>x t th. events k v = Some x \<and> List_empty (suspend_list x) \<and> bits (ev_set x) = S \<and>
     current_thread k = Some t \<and> threads k t = Some th)"

lemma ev_call_idle:
  assumes "ev_idle v k S" and "ev_allowed c"
  shows "\<exists>r w k'. ev_call e v c k = Some ((r, w), k') \<and> (r, bits w) = fst (set_step c S) \<and> ev_idle v k' (snd (set_step c S))"
proof -
  obtain x t th where x: "events k v = Some x" "List_empty (suspend_list x)" "bits (ev_set x) = S"
    "current_thread k = Some t" "threads k t = Some th"
    using assms(1) by (auto simp: ev_idle_def)
  show ?thesis
  proof (cases c)
    case (Ev_send w)
    then show ?thesis using x assms(1) by (auto simp: Event_send_def ev_idle_def)
  next
    case (Ev_recv w opt)
    have s: "event_satisfied opt w (ev_set x) \<longleftrightarrow>
        (if opt AND EVENT_FLAG_AND \<noteq> 0 then bits w \<subseteq> S else bits w \<inter> S \<noteq> {})"
      using assms(2) Ev_recv x(3) by (simp add: event_satisfied_bits)
    show ?thesis
    proof (cases "w = 0")
      case True
      then show ?thesis using assms(1) Ev_recv by (simp add: Event_recv_def)
    next
      case False
      then show ?thesis using x assms Ev_recv s
        by (simp add: Event_recv_def ev_idle_def get_current_thread_def cos_assert_def bits_AND [of _ w])
    qed
  qed
qed

lemma ev_run_set:
  assumes "ev_idle v k S" and "list_all ev_allowed cs"
  shows "\<exists>rs k'. ev_run e v cs k = Some (rs, k') \<and> map (\<lambda>(r, w). (r, bits w)) rs = fst (set_run cs S) \<and>
    ev_idle v k' (snd (set_run cs S))"
  using assms
proof (induction cs arbitrary: k S)
  case (Cons c cs)
  obtain r w k1 where c: "ev_call e v c k = Some ((r, w), k1)" "(r, bits w) = fst (set_step c S)" "ev_idle v k1 (snd (set_step c S))"
    using ev_call_idle [OF Cons.prems(1), of c e] Cons.prems(2) by auto
  obtain rs k2 where "ev_run e v cs k1 = Some (rs, k2)" "map (\<lambda>(r, w). (r, bits w)) rs = fst (set_run cs (snd (set_step c S)))"
    "ev_idle v k2 (snd (set_run cs (snd (set_step c S))))"
    using Cons.IH [OF c(3)] Cons.prems(2) by auto
  then show ?case using c(1,2) by (cases "set_step c S") (simp add: case_prod_unfold Let_def)
qed simp

section \<open>Waking threads\<close>

text \<open>The reference for the loop of \<open>send\<close>: the waiting threads are served in their order; a thread whose
  request is satisfied is woken and takes its events out of the set if it asks for it.\<close>

fun ev_scan :: "(nat \<Rightarrow> thread) \<Rightarrow> nat list \<Rightarrow> u32 \<Rightarrow> nat list \<times> nat list \<times> u32" where
  "ev_scan ths [] S = ([], [], S)"
| "ev_scan ths (t # ts) S =
     (if event_satisfied (th_event_info (ths t)) (th_event_set (ths t)) S
      then let (woken, left, S) = ev_scan ths ts (if th_event_info (ths t) AND EVENT_FLAG_CLEAR \<noteq> 0
             then S AND NOT (th_event_set (ths t)) else S) in (t # woken, left, S)
      else let (woken, left, S) = ev_scan ths ts S in (woken, t # left, S))"

fun ready_all :: "(nat \<Rightarrow> thread) \<Rightarrow> nat list \<Rightarrow> (nat \<Rightarrow> nat list) \<Rightarrow> nat \<Rightarrow> nat list" where
  "ready_all ths [] rq = rq"
| "ready_all ths (t # ts) rq = (let p = unat (th_current_priority (ths t)) in ready_all ths ts (rq(p := rq p @ [t])))"

lemma ev_scan_cong: "(\<And>t. t \<in> set ts \<Longrightarrow> ths t = ths' t) \<Longrightarrow> ev_scan ths ts S = ev_scan ths' ts S"
  by (induction ts arbitrary: S) auto

lemma ready_all_cong: "(\<And>t. t \<in> set ts \<Longrightarrow> ths t = ths' t) \<Longrightarrow> ready_all ths ts rq = ready_all ths' ts rq"
  by (induction ts arbitrary: rq) auto

lemma ev_scan_subset: "set (fst (ev_scan ths ts S)) \<subseteq> set ts"
  by (induction ts arbitrary: S) (auto simp: split_beta Let_def)


lemma event_received_simps [simp]:
  "th_event_info (event_received th S) = th_event_info th" "th_stat (event_received th S) = th_stat th"
  "th_current_priority (event_received th S) = th_current_priority th" "th_list_node (event_received th S) = th_list_node th"
  "th_timer (event_received th S) = th_timer th"
  by (simp_all add: event_received_def)







section \<open>Properties\<close>

text \<open>C30: an event set nobody waits for is a set of event numbers: every sequence of \<open>send\<close> and non-waiting \<open>recv\<close>
  returns what it returns on such a set. A \<open>send\<close> adds its events; a \<open>recv\<close> succeeds when all (AND) or some (OR)
  of its events are in the set, returns those that are, and takes its events out of the set if it asks for it.\<close>

theorem event_is_set:
  assumes "ev_idle v k S" and "list_all ev_allowed cs"
  shows "\<exists>rs k'. ev_run e v cs k = Some (rs, k') \<and> map (\<lambda>(r, w). (r, bits w)) rs = fst (set_run cs S) \<and>
    ev_idle v k' (snd (set_run cs S))"
  by (rule ev_run_set [OF assms])

definition sample_event :: event where
  "sample_event = ipc.extend (ipc_init Object_Class_Event ''ev'' 0) \<lparr>ev_set = 0\<rparr>"

lemma sample_event_simps [simp]: "ev_set sample_event = 0" "pHead (suspend_list sample_event) = None"
  by (simp_all add: sample_event_def ipc.defs ipc_init_def object.defs object_init_def List_new_def)

theorem event_is_set_witness:
  "\<exists>rs k'. ev_run lone_env 7 [Ev_send 5, Ev_recv 3 1, Ev_recv 3 6, Ev_recv 0 1] ((pair_kernel 10 10)\<lparr>events := [7 \<mapsto> sample_event]\<rparr>) = Some (rs, k') \<and>
    map (\<lambda>(r, w). (r, bits w)) rs = [(0, {}), (3, {}), (0, {0}), (- 1, {})] \<and> ev_idle 7 k' {2}"
proof -
  have i: "ev_idle 7 ((pair_kernel 10 10)\<lparr>events := [7 \<mapsto> sample_event]\<rparr>) {}" by (simp add: ev_idle_def List_empty_def)
  have b: "bits 5 = {0, 2}" "bits 3 = {0, 1}" by (code_simp, code_simp)
  show ?thesis
    using event_is_set [OF i, of "[Ev_send 5, Ev_recv 3 1, Ev_recv 3 6, Ev_recv 0 1]" lone_env]
    by (simp add: b event_defs err_defs del: ev_run.simps)
qed



end
