(* ===== verification/Cos_MailBox.thy ===== *)
theory Cos_MailBox
  imports Cos_IPC
begin

text \<open>
  Mailboxes of 32-bit words, \<^verbatim>\<open>kernel/ipc/mailbox.cpp\<close>: a ring buffer, a list of waiting receivers
  (\<open>suspend_list_\<close>) and one of waiting senders. An access outside the words of the message buffer is \<open>None\<close>.
\<close>

section \<open>Construction\<close>

definition mailbox_init :: "string \<Rightarrow> u8 \<Rightarrow> nat option \<Rightarrow> (nat \<Rightarrow> u32 option) \<Rightarrow> u32 \<Rightarrow> bool \<Rightarrow> mailbox" where
  "mailbox_init name flag addr words sz del =
     ipc.extend (ipc_init Object_Class_Event name flag)
       \<lparr>mb_pool_addr = addr, mb_msg_pool = words, mb_size = ucast sz, mb_entry = 0, mb_in_offset = 0,
        mb_out_offset = 0, mb_delete_pool_flag = del, mb_suspend_sender = List_new\<rparr>"

text \<open>On the buffer at \<open>addr\<close> of the caller. \<open>delete_pool_flag_\<close> is not initialised: \<open>junk\<close> is the value it
  happens to have. The object is registered among the events.\<close>

definition MailBox_new :: "string \<Rightarrow> nat \<Rightarrow> (nat \<Rightarrow> u32 option) \<Rightarrow> u32 \<Rightarrow> u8 \<Rightarrow> bool \<Rightarrow> nat \<Rightarrow> kernel \<Rightarrow> kernel option" where
  "MailBox_new name addr words sz flag junk this k = do {
     k \<leftarrow> Object_new Object_Class_Event name this k;
     Some (k\<lparr>mboxes := (mboxes k)(this \<mapsto> mailbox_init name flag (Some addr) words sz junk)\<rparr>) }"

text \<open>The words in \<open>bytes\<close> bytes of memory, with contents \<open>fill\<close>.\<close>

definition words_of :: "nat \<Rightarrow> (nat \<Rightarrow> u32) \<Rightarrow> nat \<Rightarrow> u32 option" where
  "words_of bytes fill i = (if 4 * i + 4 \<le> bytes then Some (fill i) else None)"

text \<open>On a buffer from \<open>kmalloc(size)\<close>, which gives \<open>size\<close> bytes, not words, at \<open>mem\<close>. When there
  is no memory, the flag keeps the value \<open>junk\<close>.\<close>

definition MailBox_new_alloc ::
  "string \<Rightarrow> nat option \<Rightarrow> (nat \<Rightarrow> u32) \<Rightarrow> u32 \<Rightarrow> u8 \<Rightarrow> bool \<Rightarrow> nat \<Rightarrow> kernel \<Rightarrow> kernel option" where
  "MailBox_new_alloc name mem fill sz flag junk this k = do {
     k \<leftarrow> Object_new Object_Class_Event name this k;
     k \<leftarrow> (if mem = None then set_errno (- ERR_ERROR) k else Some k);
     Some (k\<lparr>mboxes := (mboxes k)(this \<mapsto>
       (if mem = None then mailbox_init name flag None (\<lambda>_. None) sz junk
        else mailbox_init name flag mem (words_of (unat sz) fill) sz True))\<rparr>) }"

section \<open>Waiting\<close>

partial_function (option) mb_resume_all :: "nat \<Rightarrow> kernel \<Rightarrow> kernel option" where
  "mb_resume_all this k = do {
     x \<leftarrow> mboxes k this;
     if List_empty (mb_suspend_sender x) then Some k
     else do {
       front \<leftarrow> List_front (lnodes k) (mb_suspend_sender x);
       t \<leftarrow> front;
       th \<leftarrow> threads k t;
       k \<leftarrow> upd_thread t (th_error_update (\<lambda>_. - ERR_ERROR)) k;
       (h, c) \<leftarrow> erase (lnodes k) (mb_suspend_sender x) (th_list_node th);
       k \<leftarrow> upd_mbox this (mb_suspend_sender_update (\<lambda>_. c)) (k\<lparr>lnodes := h\<rparr>);
       (_, k) \<leftarrow> Thread_resume t k;
       mb_resume_all this k } }"

declare mb_resume_all.simps [code]

text \<open>The loop of \<open>send_wait\<close> while the mailbox is full, and that of \<open>recv\<close> while it is empty. The first
  component of the result is the error the operation returns with, or \<open>None\<close> if it goes on.\<close>

partial_function (option) mb_wait_space ::
  "env \<Rightarrow> nat \<Rightarrow> nat option \<Rightarrow> u32 \<Rightarrow> kernel \<Rightarrow> (err_t option \<times> kernel) option" where
  "mb_wait_space e this thread timeout k = do {
     x \<leftarrow> mboxes k this;
     if mb_entry x \<noteq> mb_size x then Some (None, k)
     else do {
       t \<leftarrow> thread;
       k \<leftarrow> upd_thread t (th_error_update (\<lambda>_. ERR_OK)) k;
       if timeout = 0 then Some (Some (- ERR_FULL), k)
       else do {
         debug_in_thread_context k;
         (_, k) \<leftarrow> Thread_suspend t k;
         th \<leftarrow> threads k t;
         (h, c) \<leftarrow> push_back (lnodes k) (mb_suspend_sender x) (th_list_node th);
         k \<leftarrow> upd_mbox this (mb_suspend_sender_update (\<lambda>_. c)) (k\<lparr>lnodes := h\<rparr>);
         let tick_delta = tick_get k;
         k \<leftarrow> start_wait_timer t timeout k;
         k \<leftarrow> process e k;
         th \<leftarrow> threads k t;
         if th_error th \<noteq> ERR_OK then Some (Some (th_error th), k)
         else mb_wait_space e this thread (wait_left timeout tick_delta k) k } } }"

declare mb_wait_space.simps [code]

partial_function (option) mb_wait_mail ::
  "env \<Rightarrow> nat \<Rightarrow> nat option \<Rightarrow> u32 \<Rightarrow> kernel \<Rightarrow> (err_t option \<times> kernel) option" where
  "mb_wait_mail e this thread timeout k = do {
     x \<leftarrow> mboxes k this;
     if mb_entry x \<noteq> 0 then Some (None, k)
     else do {
       t \<leftarrow> thread;
       k \<leftarrow> upd_thread t (th_error_update (\<lambda>_. ERR_OK)) k;
       if timeout = 0 then do {
         k \<leftarrow> upd_thread t (th_error_update (\<lambda>_. - ERR_TIMEOUT)) k;
         Some (Some (- ERR_TIMEOUT), k) }
       else do {
         (c, k) \<leftarrow> list_suspend t (suspend_list x) k;
         k \<leftarrow> upd_mbox this (suspend_list_update (\<lambda>_. c)) k;
         let tick_delta = tick_get k;
         k \<leftarrow> start_wait_timer t timeout k;
         k \<leftarrow> process e k;
         th \<leftarrow> threads k t;
         if th_error th \<noteq> ERR_OK then Some (Some (th_error th), k)
         else mb_wait_mail e this thread (wait_left timeout tick_delta k) k } } }"

declare mb_wait_mail.simps [code]

section \<open>Sending and receiving\<close>

definition mb_next :: "u16 \<Rightarrow> u16 \<Rightarrow> u16" where
  "mb_next sz i = (if sz \<le> i + 1 then 0 else i + 1)"

text \<open>Lines 183 to 190: write the word and advance the input offset.\<close>

definition mb_put :: "u32 \<Rightarrow> mailbox \<Rightarrow> mailbox option" where
  "mb_put value x = do {
     pool \<leftarrow> heap_upd (mb_msg_pool x) (unat (mb_in_offset x)) (\<lambda>_. value);
     Some (x\<lparr>mb_msg_pool := pool, mb_in_offset := mb_next (mb_size x) (mb_in_offset x), mb_entry := mb_entry x + 1\<rparr>) }"

text \<open>Lines 315 to 323: read the word and advance the output offset.\<close>

definition mb_get :: "mailbox \<Rightarrow> (u32 \<times> mailbox) option" where
  "mb_get x = do {
     value \<leftarrow> mb_msg_pool x (unat (mb_out_offset x));
     Some (value, x\<lparr>mb_out_offset := mb_next (mb_size x) (mb_out_offset x), mb_entry := mb_entry x - 1\<rparr>) }"

definition MailBox_send_wait :: "env \<Rightarrow> nat \<Rightarrow> u32 \<Rightarrow> u32 \<Rightarrow> kernel \<Rightarrow> (err_t \<times> kernel) option" where
  "MailBox_send_wait e this value timeout k = do {
     x \<leftarrow> mboxes k this;
     if mb_entry x = mb_size x \<and> timeout = 0 then Some (- ERR_FULL, k)
     else do {
       (r, k) \<leftarrow> mb_wait_space e this (get_current_thread k) timeout k;
       (case r of
          Some er \<Rightarrow> Some (er, k)
        | None \<Rightarrow> do {
            x \<leftarrow> mboxes k this;
            x \<leftarrow> mb_put value x;
            k \<leftarrow> upd_mbox this (\<lambda>_. x) k;
            (r, c, k) \<leftarrow> list_resume (suspend_list x) k;
            k \<leftarrow> upd_mbox this (suspend_list_update (\<lambda>_. c)) k;
            k \<leftarrow> (if r = ERR_OK then process e k else Some k);
            Some (ERR_OK, k) }) } }"

definition MailBox_send :: "env \<Rightarrow> nat \<Rightarrow> u32 \<Rightarrow> kernel \<Rightarrow> (err_t \<times> kernel) option" where
  "MailBox_send e this value k = MailBox_send_wait e this value 0 k"

text \<open>The received word, or \<open>None\<close> where \<open>*value\<close> is not written.\<close>

definition MailBox_recv :: "env \<Rightarrow> nat \<Rightarrow> u32 \<Rightarrow> kernel \<Rightarrow> (err_t \<times> u32 option \<times> kernel) option" where
  "MailBox_recv e this timeout k = do {
     x \<leftarrow> mboxes k this;
     if mb_entry x = 0 \<and> timeout = 0 then Some (- ERR_TIMEOUT, None, k)
     else do {
       (r, k) \<leftarrow> mb_wait_mail e this (get_current_thread k) timeout k;
       (case r of
          Some er \<Rightarrow> Some (er, None, k)
        | None \<Rightarrow> do {
            x \<leftarrow> mboxes k this;
            (value, x) \<leftarrow> mb_get x;
            k \<leftarrow> upd_mbox this (\<lambda>_. x) k;
            if \<not> List_empty (mb_suspend_sender x) then do {
              front \<leftarrow> List_front (lnodes k) (mb_suspend_sender x);
              t \<leftarrow> front;
              th \<leftarrow> threads k t;
              (h, c) \<leftarrow> erase (lnodes k) (mb_suspend_sender x) (th_list_node th);
              k \<leftarrow> upd_mbox this (mb_suspend_sender_update (\<lambda>_. c)) (k\<lparr>lnodes := h\<rparr>);
              (_, k) \<leftarrow> Thread_resume t k;
              k \<leftarrow> process e k;
              Some (ERR_OK, Some value, k) }
            else Some (ERR_OK, Some value, k) }) } }"

definition MailBox_control :: "env \<Rightarrow> nat \<Rightarrow> u8 \<Rightarrow> kernel \<Rightarrow> (err_t \<times> kernel) option" where
  "MailBox_control e this cmd k =
     (if cmd = IPC_CMD_RESET then do {
        x \<leftarrow> mboxes k this;
        (c, k) \<leftarrow> list_resume_all (suspend_list x) k;
        k \<leftarrow> upd_mbox this (suspend_list_update (\<lambda>_. c)) k;
        k \<leftarrow> mb_resume_all this k;
        k \<leftarrow> upd_mbox this (\<lambda>x. x\<lparr>mb_entry := 0, mb_in_offset := 0, mb_out_offset := 0\<rparr>) k;
        k \<leftarrow> process e k;
        Some (ERR_OK, k) }
      else Some (- ERR_ERROR, k))"

text \<open>The destructor. \<open>kfree(NULL)\<close> does nothing.\<close>

definition MailBox_delete :: "nat \<Rightarrow> kernel \<Rightarrow> kernel option" where
  "MailBox_delete this k = do {
     k \<leftarrow> mb_resume_all this k;
     x \<leftarrow> mboxes k this;
     let k = (case mb_pool_addr x of
                Some a \<Rightarrow> (if mb_delete_pool_flag x then kfree_call a k else k)
              | None \<Rightarrow> k);
     k \<leftarrow> IPC_delete (ipc.truncate x) k;
     Some (k\<lparr>mboxes := (mboxes k)(this := None)\<rparr>) }"

end
