(* ===== verification/Cos_Channel.thy ===== *)
theory Cos_Channel
  imports Cos_IPC
begin

text \<open>
  The contract mailboxes and message queues share: a bounded first-in first-out channel that is used
  without waiting. \<open>fifo_run\<close> is the reference: what a sequence of calls returns when the
  channel is a list with a capacity. The message queue also has urgent messages, which go to the front.
\<close>

section \<open>The reference\<close>

datatype 'a chan_op = Send 'a | Urgent 'a | Recv

text \<open>What a call returns, the error number and the message received, and the contents afterwards.\<close>

fun fifo_step :: "nat \<Rightarrow> 'a chan_op \<Rightarrow> 'a list \<Rightarrow> (err_t \<times> 'a option) \<times> 'a list" where
  "fifo_step cap (Send v) q = (if length q < cap then ((ERR_OK, None), q @ [v]) else ((- ERR_FULL, None), q))"
| "fifo_step cap (Urgent v) q = (if length q < cap then ((ERR_OK, None), v # q) else ((- ERR_FULL, None), q))"
| "fifo_step cap Recv [] = ((- ERR_TIMEOUT, None), [])"
| "fifo_step cap Recv (v # q) = ((ERR_OK, Some v), q)"

fun fifo_run :: "nat \<Rightarrow> 'a chan_op list \<Rightarrow> 'a list \<Rightarrow> (err_t \<times> 'a option) list \<times> 'a list" where
  "fifo_run cap [] q = ([], q)"
| "fifo_run cap (c # cs) q =
     (let (r, q) = fifo_step cap c q; (rs, q) = fifo_run cap cs q in (r # rs, q))"

section \<open>The contract\<close>

text \<open>A sequence of calls on an implementation; each call yields the error number and the message.\<close>

fun chan_run :: "('a chan_op \<Rightarrow> 's \<Rightarrow> ((err_t \<times> 'a option) \<times> 's) option) \<Rightarrow>
    'a chan_op list \<Rightarrow> 's \<Rightarrow> ((err_t \<times> 'a option) list \<times> 's) option" where
  "chan_run step [] s = Some ([], s)"
| "chan_run step (c # cs) s = do {
     (r, s) \<leftarrow> step c s;
     (rs, s) \<leftarrow> chan_run step cs s;
     Some (r # rs, s) }"

locale channel =
  fixes holds :: "'s \<Rightarrow> 'a list \<Rightarrow> bool" and cap :: nat and allowed :: "'a chan_op \<Rightarrow> bool"
    and step :: "'a chan_op \<Rightarrow> 's \<Rightarrow> ((err_t \<times> 'a option) \<times> 's) option"
  assumes step_ok: "holds s q \<Longrightarrow> allowed c \<Longrightarrow>
    \<exists>s'. step c s = Some (fst (fifo_step cap c q), s') \<and> holds s' (snd (fifo_step cap c q))"
begin

lemma run_ok:
  assumes "holds s q" "list_all allowed cs"
  shows "\<exists>s'. chan_run step cs s = Some (fst (fifo_run cap cs q), s') \<and> holds s' (snd (fifo_run cap cs q))"
  using assms
proof (induction cs arbitrary: s q)
  case (Cons c cs)
  obtain s1 where s1: "step c s = Some (fst (fifo_step cap c q), s1)" "holds s1 (snd (fifo_step cap c q))"
    using step_ok [OF Cons.prems(1)] Cons.prems(2) by auto
  obtain s2 where "chan_run step cs s1 = Some (fst (fifo_run cap cs (snd (fifo_step cap c q))), s2)"
    "holds s2 (snd (fifo_run cap cs (snd (fifo_step cap c q))))"
    using Cons.IH [OF s1(2)] Cons.prems(2) by auto
  then show ?case using s1(1) by (simp add: split_beta)
qed simp

text \<open>Messages come out in the order they went in.\<close>

lemma send_all:
  assumes "holds s q" "length q + length vs \<le> cap" "\<And>v. v \<in> set vs \<Longrightarrow> allowed (Send v)"
  shows "\<exists>s'. chan_run step (map Send vs) s = Some (replicate (length vs) (ERR_OK, None), s') \<and> holds s' (q @ vs)"
  using assms
proof (induction vs arbitrary: s q)
  case (Cons v vs)
  obtain s1 where "step (Send v) s = Some ((ERR_OK, None), s1)" "holds s1 (q @ [v])"
    using step_ok [OF Cons.prems(1), of "Send v"] Cons.prems(2,3) by auto
  then show ?case using Cons.IH [of s1 "q @ [v]"] Cons.prems(2,3) by auto
qed simp

lemma recv_all:
  assumes "holds s q" "allowed Recv"
  shows "\<exists>s'. chan_run step (replicate (length q) Recv) s = Some (map (\<lambda>v. (ERR_OK, Some v)) q, s') \<and> holds s' []"
  using assms
proof (induction q arbitrary: s)
  case (Cons v q)
  obtain s1 where "step Recv s = Some ((ERR_OK, Some v), s1)" "holds s1 q"
    using step_ok [OF Cons.prems] by auto
  then show ?case using Cons.IH [of s1] Cons.prems(2) by auto
qed simp

end

end
