(* ===== verification/Cos_MailBox_Correct.thy ===== *)
theory Cos_MailBox_Correct
  imports Cos_MailBox Cos_Channel
begin

text \<open>
  The mailbox as a bounded queue: the ring buffer of \<^verbatim>\<open>kernel/ipc/mailbox.cpp\<close> against a list of words.
\<close>

section \<open>The ring buffer\<close>

text \<open>The words in the buffer are those of \<open>xs\<close>, from the output offset on.\<close>

definition mb_holds :: "mailbox \<Rightarrow> u32 list \<Rightarrow> bool" where
  "mb_holds x xs \<longleftrightarrow>
     unat (mb_out_offset x) < unat (mb_size x) \<and> length xs \<le> unat (mb_size x) \<and> unat (mb_entry x) = length xs \<and>
     unat (mb_in_offset x) = (unat (mb_out_offset x) + length xs) mod unat (mb_size x) \<and>
     (\<forall>i<unat (mb_size x). mb_msg_pool x i \<noteq> None) \<and>
     (\<forall>i<length xs. mb_msg_pool x ((unat (mb_out_offset x) + i) mod unat (mb_size x)) = Some (xs ! i))"

lemma mb_holdsD:
  assumes "mb_holds x xs"
  shows "unat (mb_out_offset x) < unat (mb_size x)" "length xs \<le> unat (mb_size x)" "unat (mb_entry x) = length xs"
    "unat (mb_in_offset x) = (unat (mb_out_offset x) + length xs) mod unat (mb_size x)"
    "i < unat (mb_size x) \<Longrightarrow> mb_msg_pool x i \<noteq> None"
    "i < length xs \<Longrightarrow> mb_msg_pool x ((unat (mb_out_offset x) + i) mod unat (mb_size x)) = Some (xs ! i)"
  using assms by (simp_all add: mb_holds_def)

lemma mb_next_mod:
  assumes "unat i < unat sz"
  shows "unat (mb_next sz i) = (unat i + 1) mod unat sz"
proof -
  have i: "unat (i + 1) = unat i + 1" using assms unat_less16 [of sz] by (intro unat_inc16) simp
  show ?thesis
  proof (cases "unat i + 1 = unat sz")
    case True
    then show ?thesis using i by (simp add: mb_next_def word_le_nat_alt)
  next
    case False
    then show ?thesis using i assms by (simp add: mb_next_def word_le_nat_alt)
  qed
qed

text \<open>Different positions of the queue are different words of the ring.\<close>

lemma ring_diff:
  assumes "i < j" "j < (s :: nat)"
  shows "(a + i) mod s \<noteq> (a + j) mod s"
proof
  assume "(a + i) mod s = (a + j) mod s"
  then have "(a + j) mod s = (a + i) mod s" by (rule sym)
  moreover have "a + i \<le> a + j" using assms(1) by simp
  ultimately have "s dvd a + j - (a + i)" using mod_eq_dvd_iff_nat [of "a + i" "a + j" s] by blast
  then have "s dvd j - i" by simp
  moreover have "0 < j - i" "j - i < s" using assms by simp_all
  ultimately show False using nat_dvd_not_less by blast
qed

lemma mb_put_holds:
  assumes h: "mb_holds x xs" and l: "length xs < unat (mb_size x)"
  shows "\<exists>x'. mb_put v x = Some x' \<and> mb_holds x' (xs @ [v]) \<and> mb_size x' = mb_size x \<and>
    suspend_list x' = suspend_list x \<and> mb_suspend_sender x' = mb_suspend_sender x"
proof -
  note d = mb_holdsD [OF h]
  let ?s = "unat (mb_size x)" and ?o = "unat (mb_out_offset x)"
  have "unat (mb_in_offset x) < ?s" using d(1,4) by simp
  moreover obtain w where "mb_msg_pool x (unat (mb_in_offset x)) = Some w" using d(5) calculation by blast
  moreover have "unat (mb_entry x + 1) = length xs + 1"
    using unat_inc16 [of "mb_entry x"] d(3) l unat_less16 [of "mb_size x"] by simp
  moreover have "(?o + i) mod ?s \<noteq> (?o + length xs) mod ?s" if "i < length xs" for i
    by (rule ring_diff [OF that l])
  moreover have "unat (mb_next (mb_size x) (mb_in_offset x)) = (?o + Suc (length xs)) mod ?s"
    using mb_next_mod [OF calculation(1)] d(4) by (simp add: mod_Suc_eq)
  ultimately show ?thesis
    using d(1,2,5,6) l by (simp add: mb_put_def mb_holds_def d(4) nth_append less_Suc_eq)
qed

lemma mb_get_holds:
  assumes h: "mb_holds x (v # xs)"
  shows "\<exists>x'. mb_get x = Some (v, x') \<and> mb_holds x' xs \<and> mb_size x' = mb_size x \<and>
    suspend_list x' = suspend_list x \<and> mb_suspend_sender x' = mb_suspend_sender x"
proof -
  note d = mb_holdsD [OF h]
  let ?s = "unat (mb_size x)" and ?o = "unat (mb_out_offset x)"
  have o: "mb_msg_pool x ?o = Some v" using d(6) [of 0] d(1) by simp
  have e: "unat (mb_entry x - 1) = length xs" using unat_dec16 [of "mb_entry x"] d(3) by simp
  have n: "unat (mb_next (mb_size x) (mb_out_offset x)) = (?o + 1) mod ?s" by (rule mb_next_mod [OF d(1)])
  have "((?o + 1) mod ?s + i) mod ?s = (?o + Suc i) mod ?s" for i by (simp add: mod_add_left_eq)
  moreover have "(?o + 1) mod ?s < ?s" using d(1) by (intro mod_less_divisor) simp
  ultimately have "mb_holds (x\<lparr>mb_out_offset := mb_next (mb_size x) (mb_out_offset x), mb_entry := mb_entry x - 1\<rparr>) xs"
    using d(2,4,5) d(6) [of "Suc _"] e n by (simp add: mb_holds_def)
  then show ?thesis using o by (simp add: mb_get_def)
qed

section \<open>The mailbox\<close>

text \<open>A mailbox for \<open>cap\<close> words, with the words \<open>xs\<close> and no thread waiting for it.\<close>

definition mb_idle :: "nat \<Rightarrow> nat \<Rightarrow> kernel \<Rightarrow> u32 list \<Rightarrow> bool" where
  "mb_idle this cap k xs \<longleftrightarrow> (\<exists>x. mboxes k this = Some x \<and> mb_holds x xs \<and> unat (mb_size x) = cap \<and>
     List_empty (suspend_list x) \<and> List_empty (mb_suspend_sender x))"

definition mb_step :: "env \<Rightarrow> nat \<Rightarrow> u32 chan_op \<Rightarrow> kernel \<Rightarrow> ((err_t \<times> u32 option) \<times> kernel) option" where
  "mb_step e this c k =
     (case c of
        Send v \<Rightarrow> do { (r, k) \<leftarrow> MailBox_send e this v k; Some ((r, None), k) }
      | Recv \<Rightarrow> do { (r, v, k) \<leftarrow> MailBox_recv e this 0 k; Some ((r, v), k) }
      | Urgent _ \<Rightarrow> None)"

definition mb_call :: "u32 chan_op \<Rightarrow> bool" where
  "mb_call c \<longleftrightarrow> (case c of Urgent _ \<Rightarrow> False | _ \<Rightarrow> True)"

lemma mb_idle_frame:
  assumes "mboxes k this = Some x" "mb_holds x' xs" "mb_size x' = mb_size x"
    "List_empty (suspend_list x')" "List_empty (mb_suspend_sender x')"
  shows "mb_idle this (unat (mb_size x)) (k\<lparr>mboxes := (mboxes k)(this \<mapsto> x')\<rparr>) xs"
  using assms by (simp add: mb_idle_def)

lemma mb_send_room:
  assumes "mb_idle this cap k xs" "length xs < cap"
  shows "\<exists>k'. MailBox_send e this v k = Some (ERR_OK, k') \<and> mb_idle this cap k' (xs @ [v])"
proof -
  obtain x where x: "mboxes k this = Some x" "mb_holds x xs" "unat (mb_size x) = cap"
    "List_empty (suspend_list x)" "List_empty (mb_suspend_sender x)"
    using assms(1) by (auto simp: mb_idle_def)
  obtain x' where x': "mb_put v x = Some x'" "mb_holds x' (xs @ [v])" "mb_size x' = mb_size x"
    "suspend_list x' = suspend_list x" "mb_suspend_sender x' = mb_suspend_sender x"
    using mb_put_holds [OF x(2), of v] assms(2) x(3) by auto
  have ne: "mb_entry x \<noteq> mb_size x" using mb_holdsD(3) [OF x(2)] assms(2) x(3) by auto
  have "mb_wait_space e this (get_current_thread k) 0 k = Some (None, k)"
    using x(1) ne by (subst mb_wait_space.simps) simp
  moreover have eq: "x'\<lparr>suspend_list := suspend_list x\<rparr> = x'" using x'(4) [symmetric] by simp
  ultimately have "MailBox_send e this v k = Some (ERR_OK, k\<lparr>mboxes := (mboxes k)(this \<mapsto> x')\<rparr>)"
    using x x' ne by (simp add: MailBox_send_def MailBox_send_wait_def list_resume_none err_defs eq)
  moreover have "mb_idle this cap (k\<lparr>mboxes := (mboxes k)(this \<mapsto> x')\<rparr>) (xs @ [v])"
    using mb_idle_frame [OF x(1) x'(2,3)] x x'(4,5) by simp
  ultimately show ?thesis by simp
qed

lemma mb_send_full:
  assumes "mb_idle this cap k xs" "\<not> length xs < cap"
  shows "MailBox_send e this v k = Some (- ERR_FULL, k)"
proof -
  obtain x where x: "mboxes k this = Some x" "mb_holds x xs" "unat (mb_size x) = cap"
    using assms(1) by (auto simp: mb_idle_def)
  have "unat (mb_entry x) = unat (mb_size x)" using mb_holdsD(2,3) [OF x(2)] x(3) assms(2) by simp
  then have "mb_entry x = mb_size x" by (simp only: unsigned_word_eqI)
  then show ?thesis using x(1) by (simp add: MailBox_send_def MailBox_send_wait_def)
qed

lemma mb_recv_empty:
  assumes "mb_idle this cap k []"
  shows "MailBox_recv e this 0 k = Some (- ERR_TIMEOUT, None, k)"
proof -
  obtain x where x: "mboxes k this = Some x" "mb_holds x []" using assms by (auto simp: mb_idle_def)
  have "mb_entry x = 0" using mb_holdsD(3) [OF x(2)] by (simp add: unat_eq_0)
  then show ?thesis using x(1) by (simp add: MailBox_recv_def)
qed

lemma mb_recv_some:
  assumes "mb_idle this cap k (v # xs)"
  shows "\<exists>k'. MailBox_recv e this 0 k = Some (ERR_OK, Some v, k') \<and> mb_idle this cap k' xs"
proof -
  obtain x where x: "mboxes k this = Some x" "mb_holds x (v # xs)" "unat (mb_size x) = cap"
    "List_empty (suspend_list x)" "List_empty (mb_suspend_sender x)"
    using assms by (auto simp: mb_idle_def)
  obtain x' where x': "mb_get x = Some (v, x')" "mb_holds x' xs" "mb_size x' = mb_size x"
    "suspend_list x' = suspend_list x" "mb_suspend_sender x' = mb_suspend_sender x"
    using mb_get_holds [OF x(2)] by auto
  have ne: "mb_entry x \<noteq> 0" using mb_holdsD(3) [OF x(2)] by auto
  have "mb_wait_mail e this (get_current_thread k) 0 k = Some (None, k)"
    using x(1) ne by (subst mb_wait_mail.simps) simp
  then have "MailBox_recv e this 0 k = Some (ERR_OK, Some v, k\<lparr>mboxes := (mboxes k)(this \<mapsto> x')\<rparr>)"
    using x x' ne by (simp add: MailBox_recv_def)
  moreover have "mb_idle this cap (k\<lparr>mboxes := (mboxes k)(this \<mapsto> x')\<rparr>) xs"
    using mb_idle_frame [OF x(1) x'(2,3)] x x'(4,5) by simp
  ultimately show ?thesis by simp
qed

lemma mb_step_ok:
  assumes k: "mb_idle this cap k q" and c: "mb_call c"
  shows "\<exists>k'. mb_step e this c k = Some (fst (fifo_step cap c q), k') \<and> mb_idle this cap k' (snd (fifo_step cap c q))"
proof (cases c)
  case (Send v)
  then show ?thesis
    using mb_send_room [OF k, of e v] mb_send_full [OF k, of e v] k
    by (cases "length q < cap") (auto simp: mb_step_def)
next
  case Recv
  show ?thesis
  proof (cases q)
    case Nil
    then show ?thesis using Recv mb_recv_empty [of this cap k e] k by (simp add: mb_step_def)
  next
    case (Cons v xs)
    then show ?thesis using Recv mb_recv_some [of this cap k v xs e] k by (auto simp: mb_step_def)
  qed
qed (use c in \<open>simp add: mb_call_def\<close>)

interpretation mb: channel "mb_idle this cap" cap mb_call "mb_step e this" for this cap e
  by unfold_locales (fact mb_step_ok)

section \<open>Properties\<close>

text \<open>C17: a mailbox that is used without waiting is a bounded first-in first-out queue. Every sequence of
  sends and receives returns what it returns on a list with the capacity of the mailbox, with
  the errors for a full and an empty one, and it leaves the words of the list in the buffer.\<close>

theorem mailbox_fifo:
  assumes "mb_idle this cap k q" and "list_all mb_call cs"
  shows "\<exists>k'. chan_run (mb_step e this) cs k = Some (fst (fifo_run cap cs q), k') \<and>
    mb_idle this cap k' (snd (fifo_run cap cs q))"
  by (rule mb.run_ok [OF assms])

text \<open>A mailbox for two words.\<close>

definition mb_kernel :: kernel where
  "mb_kernel = the (MailBox_new ''mb'' 4096 (words_of 8 (\<lambda>_. 0)) 2 0 False 1 empty_kernel)"

lemma mb_kernel_idle: "mb_idle 1 2 mb_kernel []"
  by (simp add: mb_idle_def mb_kernel_def MailBox_new_def Object_new_def empty_kernel_def mailbox_init_def
      ipc.defs ipc_init_def object.defs object_init_def CONFIG_NAME_MAX_def mb_holds_def words_of_def List_empty_def List_new_def)

theorem mailbox_fifo_witness:
  "\<exists>k'. chan_run (mb_step lone_env 1) [Send 7, Send 8, Send 9, Recv, Recv, Recv] mb_kernel =
      Some ([(0, None), (0, None), (-3, None), (0, Some 7), (0, Some 8), (3, None)], k') \<and> mb_idle 1 2 k' []"
  using mailbox_fifo [OF mb_kernel_idle, of "[Send 7, Send 8, Send 9, Recv, Recv, Recv]" lone_env]
  by (simp add: mb_call_def err_defs)

end
