(* ===== verification/Cos_MessageQueue.thy ===== *)
theory Cos_MessageQueue
  imports Cos_IPC
begin

text \<open>
  Message queues, \<^verbatim>\<open>kernel/ipc/messagequeue.cpp\<close>. A message is a link word followed by \<open>msg_size_\<close> bytes;
  the messages of the pool are in the queue or in the free list, both linked through the link
  words. A message is named by its index in the pool. An access outside the memory of the pool is \<open>None\<close>.
\<close>

section \<open>Memory\<close>

text \<open>\<open>sizeof(struct mq_message)\<close>\<close>

definition MQ_HEADER :: u32 where "MQ_HEADER = 4"

text \<open>\<open>memcpy\<close> of \<open>n\<close> bytes.\<close>

definition copy_bytes :: "nat \<Rightarrow> u8 list \<Rightarrow> u8 list \<Rightarrow> u8 list option" where
  "copy_bytes n dst src = (if n \<le> length dst \<and> n \<le> length src then Some (take n src @ drop n dst) else None)"

text \<open>The messages of size \<open>sz\<close> that \<open>bytes\<close> bytes of memory with contents \<open>fill\<close> have room for: a message
  whose link word is inside the memory has as many bytes as there are left, at most \<open>sz\<close>.\<close>

definition pool_of :: "nat \<Rightarrow> (nat \<Rightarrow> u8) \<Rightarrow> nat \<Rightarrow> nat \<Rightarrow> mq_message option" where
  "pool_of bytes fill sz i =
     (let start = i * (sz + 4) in
      if start + 4 \<le> bytes
      then Some \<lparr>mq_next = None, mq_bytes = map (\<lambda>j. fill (start + 4 + j)) [0..<min sz (bytes - (start + 4))]\<rparr>
      else None)"

section \<open>Construction\<close>

text \<open>The first \<open>n\<close> turns of the loop that links all messages into the free list.\<close>

primrec mq_build :: "nat \<Rightarrow> (nat \<Rightarrow> mq_message option) \<Rightarrow> ((nat \<Rightarrow> mq_message option) \<times> nat option) option" where
  "mq_build 0 pool = Some (pool, None)"
| "mq_build (Suc n) pool = do {
     (pool, free) \<leftarrow> mq_build n pool;
     pool \<leftarrow> heap_upd pool n (mq_next_update (\<lambda>_. free));
     Some (pool, Some n) }"

text \<open>The pool is \<open>kmalloc(msg_size)\<close>, at \<open>mem\<close>.\<close>

definition MessageQueue_new ::
  "string \<Rightarrow> nat option \<Rightarrow> (nat \<Rightarrow> u8) \<Rightarrow> u32 \<Rightarrow> u32 \<Rightarrow> u8 \<Rightarrow> nat \<Rightarrow> kernel \<Rightarrow> kernel option" where
  "MessageQueue_new name mem fill msg_size pool_size flag this k = do {
     k \<leftarrow> Object_new Object_Class_MessageQueue name this k;
     k \<leftarrow> (if mem = None then set_errno (- ERR_ERROR) k else Some k);
     let sz = (ucast (WIDTH_ALIGN msg_size CONFIG_ALIGN_SIZE) :: u16);
     let max_msgs = (ucast (pool_size div (ucast sz + MQ_HEADER)) :: u16);
     (pool, free) \<leftarrow> mq_build (unat max_msgs)
       (if mem = None then (\<lambda>_. None) else pool_of (unat msg_size) fill (unat sz));
     Some (k\<lparr>mqs := (mqs k)(this \<mapsto>
       ipc.extend (ipc_init Object_Class_MessageQueue name flag)
         \<lparr>mq_pool_addr = mem, mq_msg_pool = pool, mq_msg_size = sz, mq_max_msgs = max_msgs, mq_entry = 0,
          mq_queue_head = None, mq_queue_tail = None, mq_queue_free = free\<rparr>)\<rparr>) }"

definition MessageQueue_delete :: "nat \<Rightarrow> kernel \<Rightarrow> kernel option" where
  "MessageQueue_delete this k = do {
     x \<leftarrow> mqs k this;
     k \<leftarrow> IPC_delete (ipc.truncate x) (case mq_pool_addr x of Some a \<Rightarrow> kfree_call a k | None \<Rightarrow> k);
     Some (k\<lparr>mqs := (mqs k)(this := None)\<rparr>) }"

section \<open>The queue\<close>

text \<open>Taking a message from the free list, lines 90 to 101: \<open>None\<close> as the first component when there is none.\<close>

definition mq_alloc :: "msgqueue \<Rightarrow> (nat option \<times> msgqueue) option" where
  "mq_alloc x =
     (case mq_queue_free x of
        None \<Rightarrow> Some (None, x)
      | Some msg \<Rightarrow> do {
          m \<leftarrow> mq_msg_pool x msg;
          Some (Some msg, x\<lparr>mq_queue_free := mq_next m\<rparr>) })"

definition mq_upd_msg :: "nat \<Rightarrow> (mq_message \<Rightarrow> mq_message) \<Rightarrow> msgqueue \<Rightarrow> msgqueue option" where
  "mq_upd_msg i f x = do { pool \<leftarrow> heap_upd (mq_msg_pool x) i f; Some (x\<lparr>mq_msg_pool := pool\<rparr>) }"

definition mq_fill :: "nat \<Rightarrow> u8 list \<Rightarrow> nat \<Rightarrow> msgqueue \<Rightarrow> msgqueue option" where
  "mq_fill i buffer n x = do {
     m \<leftarrow> mq_msg_pool x i;
     bytes \<leftarrow> copy_bytes n (mq_bytes m) buffer;
     mq_upd_msg i (mq_bytes_update (\<lambda>_. bytes)) x }"

text \<open>Linking the message at the end of the queue (\<open>send\<close>, lines 106 to 127) or at its head (\<open>urgent\<close>, lines 191
  to 206).\<close>

definition mq_append :: "nat \<Rightarrow> u8 list \<Rightarrow> nat \<Rightarrow> msgqueue \<Rightarrow> msgqueue option" where
  "mq_append msg buffer n x = do {
     x \<leftarrow> mq_upd_msg msg (mq_next_update (\<lambda>_. None)) x;
     x \<leftarrow> mq_fill msg buffer n x;
     x \<leftarrow> (case mq_queue_tail x of
            Some t \<Rightarrow> mq_upd_msg t (mq_next_update (\<lambda>_. Some msg)) x
          | None \<Rightarrow> Some x);
     Some (x\<lparr>mq_queue_tail := Some msg,
             mq_queue_head := (if mq_queue_head x = None then Some msg else mq_queue_head x),
             mq_entry := mq_entry x + 1\<rparr>) }"

definition mq_prepend :: "nat \<Rightarrow> u8 list \<Rightarrow> nat \<Rightarrow> msgqueue \<Rightarrow> msgqueue option" where
  "mq_prepend msg buffer n x = do {
     x \<leftarrow> mq_fill msg buffer n x;
     x \<leftarrow> mq_upd_msg msg (mq_next_update (\<lambda>_. mq_queue_head x)) x;
     Some (x\<lparr>mq_queue_head := Some msg,
             mq_queue_tail := (if mq_queue_tail x = None then Some msg else mq_queue_tail x),
             mq_entry := mq_entry x + 1\<rparr>) }"

text \<open>Taking the first message off the queue and into the free list. The message is copied in between;
  its bytes are not changed.\<close>

definition mq_unlink :: "msgqueue \<Rightarrow> (nat \<times> msgqueue) option" where
  "mq_unlink x = do {
     msg \<leftarrow> mq_queue_head x;
     m \<leftarrow> mq_msg_pool x msg;
     Some (msg, x\<lparr>mq_queue_head := mq_next m,
                  mq_queue_tail := (if mq_queue_tail x = Some msg then None else mq_queue_tail x)\<rparr>) }"

definition mq_free :: "nat \<Rightarrow> msgqueue \<Rightarrow> msgqueue option" where
  "mq_free msg x = do {
     x \<leftarrow> mq_upd_msg msg (mq_next_update (\<lambda>_. mq_queue_free x)) x;
     Some (x\<lparr>mq_queue_free := Some msg\<rparr>) }"

section \<open>Operations\<close>

text \<open>The end of \<open>send\<close> and \<open>urgent\<close>: wake the first waiting thread up.\<close>

definition mq_wake :: "env \<Rightarrow> nat \<Rightarrow> kernel \<Rightarrow> (err_t \<times> kernel) option" where
  "mq_wake e this k = do {
     x \<leftarrow> mqs k this;
     if \<not> List_empty (suspend_list x) then do {
       (_, c, k) \<leftarrow> list_resume (suspend_list x) k;
       k \<leftarrow> upd_mq this (suspend_list_update (\<lambda>_. c)) k;
       k \<leftarrow> process e k;
       Some (ERR_OK, k) }
     else Some (ERR_OK, k) }"

text \<open>\<open>send\<close> and \<open>urgent\<close> differ in the way the message is linked.\<close>

definition mq_post ::
  "(nat \<Rightarrow> u8 list \<Rightarrow> nat \<Rightarrow> msgqueue \<Rightarrow> msgqueue option) \<Rightarrow>
    env \<Rightarrow> nat \<Rightarrow> u8 list option \<Rightarrow> u32 \<Rightarrow> kernel \<Rightarrow> (err_t \<times> kernel) option" where
  "mq_post link e this buffer n k = do {
     cos_assert (buffer \<noteq> None);
     cos_assert (n \<noteq> 0);
     src \<leftarrow> buffer;
     x \<leftarrow> mqs k this;
     if unat (mq_msg_size x) < unat n then Some (- ERR_ERROR, k)
     else do {
       (free, x) \<leftarrow> mq_alloc x;
       (case free of
          None \<Rightarrow> Some (- ERR_FULL, k)
        | Some msg \<Rightarrow> do {
            x \<leftarrow> link msg src (unat n) x;
            k \<leftarrow> upd_mq this (\<lambda>_. x) k;
            mq_wake e this k }) } }"

definition MessageQueue_send :: "env \<Rightarrow> nat \<Rightarrow> u8 list option \<Rightarrow> u32 \<Rightarrow> kernel \<Rightarrow> (err_t \<times> kernel) option" where
  "MessageQueue_send e this buffer n k = mq_post mq_append e this buffer n k"

definition MessageQueue_urgent :: "env \<Rightarrow> nat \<Rightarrow> u8 list option \<Rightarrow> u32 \<Rightarrow> kernel \<Rightarrow> (err_t \<times> kernel) option" where
  "MessageQueue_urgent e this buffer n k = mq_post mq_prepend e this buffer n k"

text \<open>The loop of \<open>recv\<close> while the queue is empty.\<close>

partial_function (option) mq_wait_msg ::
  "env \<Rightarrow> nat \<Rightarrow> nat option \<Rightarrow> u32 \<Rightarrow> kernel \<Rightarrow> (err_t option \<times> kernel) option" where
  "mq_wait_msg e this thread timeout k = do {
     x \<leftarrow> mqs k this;
     if mq_entry x \<noteq> 0 then Some (None, k)
     else do {
       debug_in_thread_context k;
       t \<leftarrow> thread;
       k \<leftarrow> upd_thread t (th_error_update (\<lambda>_. ERR_OK)) k;
       if timeout = 0 then do {
         k \<leftarrow> upd_thread t (th_error_update (\<lambda>_. - ERR_TIMEOUT)) k;
         Some (Some (- ERR_TIMEOUT), k) }
       else do {
         (c, k) \<leftarrow> list_suspend t (suspend_list x) k;
         k \<leftarrow> upd_mq this (suspend_list_update (\<lambda>_. c)) k;
         let tick_delta = tick_get k;
         k \<leftarrow> start_wait_timer t timeout k;
         k \<leftarrow> process e k;
         th \<leftarrow> threads k t;
         if th_error th \<noteq> ERR_OK then Some (Some (th_error th), k)
         else mq_wait_msg e this thread (wait_left timeout tick_delta k) k } } }"

declare mq_wait_msg.simps [code]

text \<open>\<open>recv\<close>: \<open>buffer\<close> is the memory the pointer argument refers to, the result has its new contents.\<close>

definition MessageQueue_recv ::
  "env \<Rightarrow> nat \<Rightarrow> u8 list option \<Rightarrow> u32 \<Rightarrow> u32 \<Rightarrow> kernel \<Rightarrow> (err_t \<times> u8 list \<times> kernel) option" where
  "MessageQueue_recv e this buffer n timeout k = do {
     cos_assert (buffer \<noteq> None);
     cos_assert (n \<noteq> 0);
     dst \<leftarrow> buffer;
     x \<leftarrow> mqs k this;
     if mq_entry x = 0 \<and> timeout = 0 then Some (- ERR_TIMEOUT, dst, k)
     else do {
       (r, k) \<leftarrow> mq_wait_msg e this (get_current_thread k) timeout k;
       (case r of
          Some er \<Rightarrow> Some (er, dst, k)
        | None \<Rightarrow> do {
            x \<leftarrow> mqs k this;
            (msg, x) \<leftarrow> mq_unlink x;
            let x = x\<lparr>mq_entry := mq_entry x - 1\<rparr>;
            m \<leftarrow> mq_msg_pool x msg;
            dst \<leftarrow> copy_bytes (if unat (mq_msg_size x) < unat n then unat (mq_msg_size x) else unat n) dst (mq_bytes m);
            x \<leftarrow> mq_free msg x;
            k \<leftarrow> upd_mq this (\<lambda>_. x) k;
            Some (ERR_OK, dst, k) }) } }"

text \<open>The loop of \<open>control\<close> that releases all messages.\<close>

partial_function (option) mq_drain :: "msgqueue \<Rightarrow> msgqueue option" where
  "mq_drain x =
     (if mq_queue_head x = None then Some x
      else do {
        (msg, x) \<leftarrow> mq_unlink x;
        x \<leftarrow> mq_free msg x;
        mq_drain x })"

declare mq_drain.simps [code]

definition MessageQueue_control :: "env \<Rightarrow> nat \<Rightarrow> u8 \<Rightarrow> kernel \<Rightarrow> (err_t \<times> kernel) option" where
  "MessageQueue_control e this cmd k =
     (if cmd = IPC_CMD_RESET then do {
        x \<leftarrow> mqs k this;
        (c, k) \<leftarrow> list_resume_all (suspend_list x) k;
        x \<leftarrow> mq_drain (x\<lparr>suspend_list := c\<rparr>);
        k \<leftarrow> upd_mq this (\<lambda>_. x\<lparr>mq_entry := 0\<rparr>) k;
        k \<leftarrow> process e k;
        Some (ERR_OK, k) }
      else Some (- ERR_ERROR, k))"

end
