(* ===== verification/Cos_MessageQueue_Correct.thy ===== *)
theory Cos_MessageQueue_Correct
  imports Cos_MessageQueue Cos_Channel
begin

text \<open>
  The message queue as a bounded queue with urgent messages: the two linked lists in the pool of
  \<^verbatim>\<open>kernel/ipc/messagequeue.cpp\<close> against a list of messages.
\<close>

section \<open>The linked lists\<close>

text \<open>The messages at \<open>as\<close> are linked in this order, starting at \<open>p\<close>.\<close>

fun mq_chain :: "(nat \<Rightarrow> mq_message option) \<Rightarrow> nat option \<Rightarrow> nat list \<Rightarrow> bool" where
  "mq_chain pool p [] = (p = None)"
| "mq_chain pool p (a # as) = (p = Some a \<and> (case pool a of None \<Rightarrow> False | Some m \<Rightarrow> mq_chain pool (mq_next m) as))"

lemma mq_chain_cong:
  "(\<And>a. a \<in> set as \<Longrightarrow> map_option mq_next (pool' a) = map_option mq_next (pool a)) \<Longrightarrow>
    mq_chain pool' p as = mq_chain pool p as"
proof (induction as arbitrary: p)
  case (Cons a as)
  have "map_option mq_next (pool' a) = map_option mq_next (pool a)" using Cons.prems by simp
  then show ?case using Cons by (cases "pool a"; cases "pool' a") auto
qed simp

lemma mq_chain_other [simp]: "b \<notin> set as \<Longrightarrow> mq_chain (pool(b := v)) p as = mq_chain pool p as"
  by (rule mq_chain_cong) auto







lemma copy_bytes_all: "length dst = n \<Longrightarrow> length v = n \<Longrightarrow> copy_bytes n dst v = Some v"
  by (simp add: copy_bytes_def)

lemma mq_fill_ok:
  assumes "mq_msg_pool x a = Some m" "length (mq_bytes m) = length v"
  shows "mq_fill a v (length v) x = Some (x\<lparr>mq_msg_pool := (mq_msg_pool x)(a \<mapsto> m\<lparr>mq_bytes := v\<rparr>)\<rparr>)"
  using assms by (simp add: mq_fill_def mq_upd_msg_def copy_bytes_all)





section \<open>The operations\<close>













section \<open>Reset\<close>




text \<open>The constructor needs the memory of every message.\<close>

lemma mq_build_none:
  assumes "pool 1 = None" "2 \<le> n"
  shows "mq_build n pool = None"
  using assms(2)
proof (induction n rule: nat_induct_at_least)
  case base
  then show ?case using assms(1) by (cases "pool 0") (simp_all add: numeral_2_eq_2)
qed simp

section \<open>Properties\<close>







text \<open>C20: the constructor allocates \<open>msg_size\<close> bytes where the pool has \<open>pool_size\<close>: whenever the pool should hold
  two messages or more, linking the second one writes outside the memory.\<close>

theorem mq_new_overflows:
  assumes "unat msg_size \<le> 65532" and "2 * (unat (WIDTH_ALIGN msg_size 4) + 4) \<le> unat pool_size" and "unat pool_size < 262144"
  shows "MessageQueue_new name mem fill msg_size pool_size flag this k = None"
proof -
  let ?al = "WIDTH_ALIGN msg_size CONFIG_ALIGN_SIZE"
  let ?sz = "ucast ?al :: u16"
  let ?q = "pool_size div (ucast ?sz + MQ_HEADER)"
  have "unat (msg_size + 3) = unat msg_size + 3" using assms(1) by (simp add: unat_word_ariths)
  moreover have "?al = (msg_size + 3) AND NOT (mask 2)"
    by (simp add: WIDTH_ALIGN_def CONFIG_ALIGN_SIZE_def mask_eq_exp_minus_1 add.commute)
  ultimately have "unat ?al = (unat msg_size + 3) div 4 * 4" by (simp add: unat_and_not_mask)
  moreover have "(unat msg_size + 3) div 4 * 4 + (unat msg_size + 3) mod 4 = unat msg_size + 3" by simp
  moreover have "(unat msg_size + 3) mod 4 < 4" by simp
  ultimately have al: "unat msg_size \<le> unat ?al" "unat ?al < 65536" using assms(1) by linarith+
  have sz: "unat ?sz = unat ?al" using al(2) by (simp add: unsigned_ucast_eq take_bit_nat_eq_self)
  have "unat (ucast w + MQ_HEADER :: u32) = unat w + 4" for w :: u16
    using unat_less16 [of w] by (simp add: MQ_HEADER_def unat_word_ariths unsigned_ucast_eq take_bit_nat_eq_self)
  then have "unat (ucast ?sz + MQ_HEADER :: u32) = unat ?al + 4" unfolding sz [symmetric] .
  then have q: "unat ?q = unat pool_size div (unat ?al + 4)" by (simp add: unat_div_distrib)
  have "unat pool_size < 65536 * (unat ?al + 4)" using assms(3) by simp
  then have "unat ?q < 65536" unfolding q by (rule less_mult_imp_div_less)
  then have "unat (ucast ?q :: u16) = unat ?q" by (simp add: unsigned_ucast_eq take_bit_nat_eq_self)
  moreover have "2 \<le> unat ?q" using assms(2) unfolding q by (simp add: CONFIG_ALIGN_SIZE_def less_eq_div_iff_mult_less_eq)
  ultimately have n: "2 \<le> unat (ucast ?q :: u16)" by simp
  have "pool_of (unat msg_size) fill (unat ?sz) 1 = None" using al(1) sz by (simp add: pool_of_def)
  then have "mq_build (unat (ucast ?q :: u16)) (if mem = None then (\<lambda>_. None) else pool_of (unat msg_size) fill (unat ?sz)) = None"
    by (intro mq_build_none [OF _ n]) simp
  then show ?thesis by (simp add: MessageQueue_new_def Let_def split: bind_split)
qed

theorem mq_new_overflows_witness:
  "MessageQueue_new ''mq'' (Some 4096) (\<lambda>_. 0) 4 16 0 1 empty_kernel = None"
  by (rule mq_new_overflows) (simp_all add: WIDTH_ALIGN_def)

end
