(* ===== verification/Cos_Slab.thy ===== *)
theory Cos_Slab
  imports Cos_Kernel
begin

text \<open>
  The memory allocator, \<^verbatim>\<open>kernel/slab.cpp\<close>: a page allocator with a sorted list of free runs of
  pages, and on top of it a slab allocator that divides zones of pages into chunks of equal size.

  Addresses are natural numbers (the heap lies inside the 32-bit address space, so sums of addresses in it do
  not wrap around); requested sizes and byte counters are 32-bit words. The structures the allocator writes
  into the memory it manages are kept in one map per type: \<open>pages\<close> for the headers of free runs, \<open>zones\<close>
  for zone headers, \<open>chunks\<close> for the links of free chunks. The contents of allocated memory are not
  represented. The lock \<open>heap_sem\<close> is the counter of the semaphore, which is used once the runtime
  is up (\<open>down_flag\<close>); \<open>take\<close> with counter 0 would wait for another thread, which is \<open>None\<close> here.
\<close>

section \<open>State\<close>

definition PAGE_SIZE :: nat where "PAGE_SIZE = 4096"
definition PAGE_BITS :: nat where "PAGE_BITS = 12"
definition ZALLOC_SLAB_MAGIC :: u32 where "ZALLOC_SLAB_MAGIC = 0x51ab51ab"
definition ZALLOC_ZONE_LIMIT :: u32 where "ZALLOC_ZONE_LIMIT = 16 * 1024"
definition ZALLOC_MIN_ZONE_SIZE :: u32 where "ZALLOC_MIN_ZONE_SIZE = 32 * 1024"
definition ZALLOC_MAX_ZONE_SIZE :: u32 where "ZALLOC_MAX_ZONE_SIZE = 128 * 1024"
definition NZONES :: int where "NZONES = 72"
definition ZONE_RELEASE_THRESH :: nat where "ZONE_RELEASE_THRESH = 2"

text \<open>\<open>sizeof(slab_zone)\<close> on the 32-bit target, and \<open>sizeof(struct memusage)\<close>.\<close>

definition SLAB_ZONE_BYTES :: u32 where "SLAB_ZONE_BYTES = 36"
definition MEMUSAGE_BYTES :: u32 where "MEMUSAGE_BYTES = 4"

record page_head =
  pg_next :: "nat option"
  pg_page :: nat

record slab_zone =
  z_magic :: u32
  z_nfree :: int
  z_nmax :: int
  z_next :: "nat option"
  z_baseptr :: nat
  z_uindex :: int
  z_chunksize :: u32
  z_zoneindex :: nat
  z_freechunk :: "nat option"

datatype page_type = PAGE_TYPE_FREE | PAGE_TYPE_SMALL | PAGE_TYPE_LARGE

record memusage =
  mu_type :: page_type
  mu_size :: nat

record heap =
  pages :: "nat \<Rightarrow> page_head option"
  zones :: "nat \<Rightarrow> slab_zone option"
  chunks :: "nat \<Rightarrow> nat option option"
  page_list :: "nat option"
  zone_array :: "nat \<Rightarrow> nat option"
  zone_free :: "nat option"
  zone_free_cnt :: nat
  zone_size :: u32
  zone_limit :: u32
  zone_page_cnt :: nat
  memusage :: "nat \<Rightarrow> memusage option"
  heap_start :: nat
  heap_end :: nat
  used_mem :: u32
  max_mem :: u32
  heap_sem :: u16
  down_flag :: bool

definition lock_heap :: "heap \<Rightarrow> heap option" where
  "lock_heap H =
     (if \<not> down_flag H then Some H
      else if heap_sem H = 0 then None
      else Some (H\<lparr>heap_sem := heap_sem H - 1\<rparr>))"

definition unlock_heap :: "heap \<Rightarrow> heap" where
  "unlock_heap H = (if down_flag H then H\<lparr>heap_sem := heap_sem H + 1\<rparr> else H)"

section \<open>Pages\<close>

text \<open>The pointer \<open>prev\<close> of the loops refers to \<open>page_list\<close> (\<open>None\<close>) or to the field \<open>next\<close> of a header.\<close>

definition read_prev :: "nat option \<Rightarrow> heap \<Rightarrow> nat option option" where
  "read_prev prev H = (case prev of None \<Rightarrow> Some (page_list H) | Some a \<Rightarrow> map_option pg_next (pages H a))"

definition write_prev :: "nat option \<Rightarrow> nat option \<Rightarrow> heap \<Rightarrow> heap option" where
  "write_prev prev v H = (case prev of
     None \<Rightarrow> Some (H\<lparr>page_list := v\<rparr>)
   | Some a \<Rightarrow> do { P \<leftarrow> heap_upd (pages H) a (pg_next_update (\<lambda>_. v)); Some (H\<lparr>pages := P\<rparr>) })"

partial_function (option) page_alloc_loop :: "nat \<Rightarrow> nat option \<Rightarrow> heap \<Rightarrow> (nat option \<times> heap) option" where
  "page_alloc_loop npages prev H = do {
     bo \<leftarrow> read_prev prev H;
     (case bo of
        None \<Rightarrow> Some (None, H)
      | Some b \<Rightarrow> do {
          p \<leftarrow> pages H b;
          if npages < pg_page p then do {
            let n = b + npages * PAGE_SIZE;
            H \<leftarrow> write_prev prev (Some n)
              (H\<lparr>pages := (pages H)(n \<mapsto> \<lparr>pg_next = pg_next p, pg_page = pg_page p - npages\<rparr>)\<rparr>);
            Some (Some b, H) }
          else if pg_page p = npages then do {
            H \<leftarrow> write_prev prev (pg_next p) H;
            Some (Some b, H) }
          else page_alloc_loop npages (Some b) H }) }"

declare page_alloc_loop.simps [code]

definition page_alloc :: "nat \<Rightarrow> heap \<Rightarrow> (nat option \<times> heap) option" where
  "page_alloc npages H =
     (if npages = 0 then Some (None, H)
      else do {
        H \<leftarrow> lock_heap H;
        (b, H) \<leftarrow> page_alloc_loop npages None H;
        Some (b, unlock_heap H) })"

partial_function (option) page_free_loop :: "nat \<Rightarrow> nat \<Rightarrow> nat option \<Rightarrow> heap \<Rightarrow> heap option" where
  "page_free_loop n npages prev H = do {
     bo \<leftarrow> read_prev prev H;
     (case bo of
        None \<Rightarrow> write_prev prev (Some n) (H\<lparr>pages := (pages H)(n \<mapsto> \<lparr>pg_next = None, pg_page = npages\<rparr>)\<rparr>)
      | Some b \<Rightarrow> do {
          p \<leftarrow> pages H b;
          cos_assert (0 < pg_page p);
          cos_assert (n < b \<or> b + pg_page p * PAGE_SIZE \<le> n);
          if b + pg_page p * PAGE_SIZE = n then
            (let pg = pg_page p + npages in
             if pg_next p = Some (b + pg * PAGE_SIZE) then do {
               q \<leftarrow> pages H (b + pg * PAGE_SIZE);
               Some (H\<lparr>pages := (pages H)(b \<mapsto> \<lparr>pg_next = pg_next q, pg_page = pg + pg_page q\<rparr>)\<rparr>) }
             else Some (H\<lparr>pages := (pages H)(b \<mapsto> p\<lparr>pg_page := pg\<rparr>)\<rparr>))
          else if b = n + npages * PAGE_SIZE then
            write_prev prev (Some n)
              (H\<lparr>pages := (pages H)(n \<mapsto> \<lparr>pg_next = pg_next p, pg_page = pg_page p + npages\<rparr>)\<rparr>)
          else if n + npages * PAGE_SIZE < b then
            write_prev prev (Some n) (H\<lparr>pages := (pages H)(n \<mapsto> \<lparr>pg_next = Some b, pg_page = npages\<rparr>)\<rparr>)
          else page_free_loop n npages (Some b) H }) }"

declare page_free_loop.simps [code]

text \<open>\<open>page_free\<close> of a pointer that is not \<open>NULL\<close>.\<close>

definition page_free :: "nat \<Rightarrow> nat \<Rightarrow> heap \<Rightarrow> heap option" where
  "page_free addr npages H = do {
     cos_assert (addr mod PAGE_SIZE = 0);
     cos_assert (npages \<noteq> 0);
     H \<leftarrow> lock_heap H;
     H \<leftarrow> page_free_loop addr npages None H;
     Some (unlock_heap H) }"

definition page_init :: "nat \<Rightarrow> nat \<Rightarrow> heap \<Rightarrow> heap option" where
  "page_init addr npages H = do {
     cos_assert (npages \<noteq> 0);
     page_free addr npages (H\<lparr>page_list := None\<rparr>) }"

section \<open>Zones\<close>

text \<open>The loop that chooses the zone size: \<open>limsize\<close> is the size of the heap in bytes. Two doublings reach
  the maximum, so the loop runs at most twice.\<close>

partial_function (option) zone_size_loop :: "u32 \<Rightarrow> u32 \<Rightarrow> u32 option" where
  "zone_size_loop limsize z =
     (if z < ZALLOC_MAX_ZONE_SIZE \<and> push_bit 1 z < limsize div 1024
      then zone_size_loop limsize (push_bit 1 z) else Some z)"

declare zone_size_loop.simps [code]

text \<open>\<open>system_heap_init\<close>: \<open>junk\<close> are the contents of the memory of the array \<open>memusage\<close>, which has an entry for
  every page. The array is accessible only if there were pages for it.\<close>

definition system_heap_init :: "u32 \<Rightarrow> u32 \<Rightarrow> (nat \<Rightarrow> memusage) \<Rightarrow> heap \<Rightarrow> heap option" where
  "system_heap_init begin_addr end_addr junk H = do {
     let hs = WIDTH_ALIGN begin_addr (of_nat PAGE_SIZE);
     let he = WIDTH_ALIGN_DOWN end_addr (of_nat PAGE_SIZE);
     let H = H\<lparr>heap_start := unat hs, heap_end := unat he\<rparr>;
     if he \<le> hs then Some H
     else do {
       let limsize = he - hs;
       let npages = limsize div of_nat PAGE_SIZE;
       cos_assert (hs \<noteq> 0);
       H \<leftarrow> page_init (unat hs) (unat npages) H;
       zs \<leftarrow> zone_size_loop limsize ZALLOC_MIN_ZONE_SIZE;
       let zl = (if ZALLOC_ZONE_LIMIT < zs div 4 then ZALLOC_ZONE_LIMIT else zs div 4);
       let H = H\<lparr>zone_size := zs, zone_limit := zl, zone_page_cnt := unat zs div PAGE_SIZE\<rparr>;
       let msize = WIDTH_ALIGN (npages * MEMUSAGE_BYTES) (of_nat PAGE_SIZE);
       (m, H) \<leftarrow> page_alloc (unat msize div PAGE_SIZE) H;
       Some (H\<lparr>memusage := (\<lambda>i. if m \<noteq> None \<and> i < unat npages then Some (junk i) else None)\<rparr>) } }"

text \<open>The zone index of a request and the chunk size it is rounded up to.\<close>

definition zoneindex :: "u32 \<Rightarrow> u32 \<times> u32" where
  "zoneindex n =
     (if n < 128 then let n = (n + 7) AND NOT 7 in (n div 8 - 1, n)
      else if n < 256 then let n = (n + 15) AND NOT 15 in (n div 16 + 7, n)
      else if n < 8192 then
        (if n < 512 then let n = (n + 31) AND NOT 31 in (n div 32 + 15, n)
         else if n < 1024 then let n = (n + 63) AND NOT 63 in (n div 64 + 23, n)
         else if n < 2048 then let n = (n + 127) AND NOT 127 in (n div 128 + 31, n)
         else if n < 4096 then let n = (n + 255) AND NOT 255 in (n div 256 + 39, n)
         else let n = (n + 511) AND NOT 511 in (n div 512 + 47, n))
      else if n < 16384 then let n = (n + 1023) AND NOT 1023 in (n div 1024 + 55, n)
      else (0, n))"

text \<open>\<open>btokup(addr)\<close>: the index of the descriptor of a page.\<close>

definition btokup :: "nat \<Rightarrow> heap \<Rightarrow> nat" where
  "btokup addr H = (addr - heap_start H) div PAGE_SIZE"

definition set_usage :: "nat \<Rightarrow> page_type \<Rightarrow> nat \<Rightarrow> heap \<Rightarrow> heap option" where
  "set_usage i t n H = do {
     M \<leftarrow> heap_upd (memusage H) i (\<lambda>_. \<lparr>mu_type = t, mu_size = n\<rparr>);
     Some (H\<lparr>memusage := M\<rparr>) }"

text \<open>The loops over the descriptors of a zone: the first \<open>n\<close> pages, numbered or free.\<close>

primrec usage_small :: "nat \<Rightarrow> nat \<Rightarrow> heap \<Rightarrow> heap option" where
  "usage_small 0 i H = Some H"
| "usage_small (Suc n) i H = do { H \<leftarrow> usage_small n i H; set_usage (i + n) PAGE_TYPE_SMALL n H }"

primrec usage_free :: "nat \<Rightarrow> nat \<Rightarrow> heap \<Rightarrow> heap option" where
  "usage_free 0 i H = Some H"
| "usage_free (Suc n) i H = do { H \<leftarrow> usage_free n i H; set_usage (i + n) PAGE_TYPE_FREE 0 H }"

definition upd_zone :: "nat \<Rightarrow> (slab_zone \<Rightarrow> slab_zone) \<Rightarrow> heap \<Rightarrow> heap option" where
  "upd_zone z f H = do { Z \<leftarrow> heap_upd (zones H) z f; Some (H\<lparr>zones := Z\<rparr>) }"

definition add_used :: "u32 \<Rightarrow> heap \<Rightarrow> heap" where
  "add_used n H = (let u = used_mem H + n in H\<lparr>used_mem := u, max_mem := (if max_mem H < u then u else max_mem H)\<rparr>)"

section \<open>Allocation\<close>

text \<open>Lines 409 to 441: a request of at least \<open>zone_limit\<close> bytes.\<close>

definition kmalloc_large :: "u32 \<Rightarrow> heap \<Rightarrow> (nat option \<times> heap) option" where
  "kmalloc_large sz H = do {
     let sz = WIDTH_ALIGN sz (of_nat PAGE_SIZE);
     let npages = unat (drop_bit PAGE_BITS sz);
     (chunk, H) \<leftarrow> page_alloc npages H;
     (case chunk of
        None \<Rightarrow> Some (None, H)
      | Some c \<Rightarrow> do {
          H \<leftarrow> set_usage (btokup c H) PAGE_TYPE_LARGE npages H;
          H \<leftarrow> lock_heap H;
          Some (Some c, unlock_heap (add_used sz H)) }) }"

text \<open>Lines 460 to 497: a chunk of the zone \<open>z\<close>, the first one of its list.\<close>

definition kmalloc_zone :: "nat \<Rightarrow> nat \<Rightarrow> u32 \<Rightarrow> heap \<Rightarrow> (nat \<times> heap) option" where
  "kmalloc_zone zi z sz H = do {
     zn \<leftarrow> zones H z;
     cos_assert (0 < z_nfree zn);
     let nfree = z_nfree zn - 1;
     H \<leftarrow> upd_zone z (z_nfree_update (\<lambda>_. nfree)) H;
     H \<leftarrow> (if nfree = 0 then do {
            let H = H\<lparr>zone_array := (zone_array H)(zi := z_next zn)\<rparr>;
            upd_zone z (z_next_update (\<lambda>_. None)) H }
          else Some H);
     (chunk, H) \<leftarrow> (if z_uindex zn + 1 \<noteq> z_nmax zn then do {
            H \<leftarrow> upd_zone z (z_uindex_update (\<lambda>u. u + 1)) H;
            Some (z_baseptr zn + nat (z_uindex zn + 1) * unat sz, H) }
          else do {
            c \<leftarrow> z_freechunk zn;
            c_next \<leftarrow> chunks H c;
            H \<leftarrow> upd_zone z (z_freechunk_update (\<lambda>_. c_next)) H;
            Some (c, H) });
     Some (chunk, add_used (z_chunksize zn) H) }"

text \<open>The offset of the chunks of a new zone, lines 547 to 557.\<close>

definition zone_offset :: "u32 \<Rightarrow> u32" where
  "zone_offset sz =
     (if (sz OR (sz - 1)) + 1 = push_bit 1 sz then (SLAB_ZONE_BYTES + sz - 1) AND NOT (sz - 1)
      else (SLAB_ZONE_BYTES + 7) AND NOT 7)"

text \<open>Lines 544 to 575: set up the zone at \<open>z\<close> and take its first chunk.\<close>

definition zone_setup :: "nat \<Rightarrow> nat \<Rightarrow> u32 \<Rightarrow> heap \<Rightarrow> nat \<times> heap" where
  "zone_setup zi z sz H =
     (let off = zone_offset sz;
          nmax = int (unat ((zone_size H - off) div sz));
          base = z + unat off
      in (base,
          add_used sz
            (H\<lparr>zones := (zones H)(z \<mapsto>
                 \<lparr>z_magic = ZALLOC_SLAB_MAGIC, z_nfree = nmax - 1, z_nmax = nmax, z_next = zone_array H zi,
                  z_baseptr = base, z_uindex = 0, z_chunksize = sz, z_zoneindex = zi, z_freechunk = None\<rparr>),
               zone_array := (zone_array H)(zi \<mapsto> z)\<rparr>)))"

text \<open>Lines 507 to 542 and 585 to 589: get a zone from the list of free zones or from the page allocator; when there
  are no pages, the lock, which was given back before, is released again.\<close>

definition kmalloc_new_zone :: "nat \<Rightarrow> u32 \<Rightarrow> heap \<Rightarrow> (nat option \<times> heap) option" where
  "kmalloc_new_zone zi sz H =
     (case zone_free H of
        Some z \<Rightarrow> do {
          zn \<leftarrow> zones H z;
          let (c, H) = zone_setup zi z sz (H\<lparr>zone_free := z_next zn, zone_free_cnt := zone_free_cnt H - 1\<rparr>);
          Some (Some c, unlock_heap H) }
      | None \<Rightarrow> do {
          let H = unlock_heap H;
          (zo, H) \<leftarrow> page_alloc (unat (zone_size H) div PAGE_SIZE) H;
          (case zo of
             None \<Rightarrow> Some (None, unlock_heap H)
           | Some z \<Rightarrow> do {
               H \<leftarrow> lock_heap H;
               H \<leftarrow> usage_small (zone_page_cnt H) (btokup z H) H;
               let (c, H) = zone_setup zi z sz H;
               Some (Some c, unlock_heap H) }) })"

definition kmalloc :: "u32 \<Rightarrow> heap \<Rightarrow> (nat option \<times> heap) option" where
  "kmalloc sz H =
     (if sz = 0 then Some (None, H)
      else if zone_limit H \<le> sz then kmalloc_large sz H
      else do {
        H \<leftarrow> lock_heap H;
        let (zi, sz) = zoneindex sz;
        cos_assert (sint zi < NZONES);
        (case zone_array H (unat zi) of
           Some z \<Rightarrow> do {
             (c, H) \<leftarrow> kmalloc_zone (unat zi) z sz H;
             Some (Some c, unlock_heap H) }
         | None \<Rightarrow> kmalloc_new_zone (unat zi) sz H) })"

text \<open>The product wraps around.\<close>

definition kcalloc :: "u32 \<Rightarrow> u32 \<Rightarrow> heap \<Rightarrow> (nat option \<times> heap) option" where
  "kcalloc cnt sz H = kmalloc (cnt * sz) H"

section \<open>Release\<close>

text \<open>The loop that takes the zone \<open>z\<close> out of the list of its index: \<open>pz\<close> refers to the entry of
  \<open>zone_array\<close> (\<open>None\<close>) or to the field \<open>z_next\<close> of a zone.\<close>

partial_function (option) zone_unlink :: "nat \<Rightarrow> nat \<Rightarrow> nat option \<Rightarrow> heap \<Rightarrow> heap option" where
  "zone_unlink zi z pz H = do {
     cur \<leftarrow> (case pz of None \<Rightarrow> Some (zone_array H zi) | Some a \<Rightarrow> map_option z_next (zones H a));
     if cur = Some z then do {
       zn \<leftarrow> zones H z;
       (case pz of
          None \<Rightarrow> Some (H\<lparr>zone_array := (zone_array H)(zi := z_next zn)\<rparr>)
        | Some a \<Rightarrow> upd_zone a (z_next_update (\<lambda>_. z_next zn)) H) }
     else do { a \<leftarrow> cur; zone_unlink zi z (Some a) H } }"

declare zone_unlink.simps [code]

text \<open>Lines 781 to 820: move the zone to the list of free zones, and give one back to the page allocator when
  there are too many.\<close>

definition zone_release :: "nat \<Rightarrow> heap \<Rightarrow> heap option" where
  "zone_release z H = do {
     zn \<leftarrow> zones H z;
     H \<leftarrow> zone_unlink (z_zoneindex zn) z None H;
     H \<leftarrow> upd_zone z (\<lambda>y. y\<lparr>z_magic := -1, z_next := zone_free H\<rparr>) H;
     let H = H\<lparr>zone_free := Some z, zone_free_cnt := zone_free_cnt H + 1\<rparr>;
     if ZONE_RELEASE_THRESH < zone_free_cnt H then do {
       zn \<leftarrow> zones H z;
       let H = H\<lparr>zone_free := z_next zn, zone_free_cnt := zone_free_cnt H - 1\<rparr>;
       H \<leftarrow> usage_free (zone_page_cnt H) (btokup z H) H;
       page_free z (unat (zone_size H) div PAGE_SIZE) (unlock_heap H) }
     else Some (unlock_heap H) }"

definition page_base :: "nat \<Rightarrow> nat" where
  "page_base a = a div PAGE_SIZE * PAGE_SIZE"

definition kfree :: "nat option \<Rightarrow> heap \<Rightarrow> heap option" where
  "kfree ptr H =
     (case ptr of
        None \<Rightarrow> Some H
      | Some a \<Rightarrow> do {
          let i = btokup (page_base a) H;
          kup \<leftarrow> memusage H i;
          if mu_type kup = PAGE_TYPE_LARGE then do {
            H \<leftarrow> lock_heap H;
            H \<leftarrow> set_usage i PAGE_TYPE_LARGE 0 H;
            let H = unlock_heap (H\<lparr>used_mem := used_mem H - of_nat (mu_size kup * PAGE_SIZE)\<rparr>);
            page_free a (mu_size kup) H }
          else do {
            H \<leftarrow> lock_heap H;
            let z = page_base a - mu_size kup * PAGE_SIZE;
            zn \<leftarrow> zones H z;
            cos_assert (z_magic zn = ZALLOC_SLAB_MAGIC);
            let H = H\<lparr>chunks := (chunks H)(a \<mapsto> z_freechunk zn), used_mem := used_mem H - z_chunksize zn\<rparr>;
            H \<leftarrow> upd_zone z (\<lambda>y. y\<lparr>z_freechunk := Some a, z_nfree := z_nfree y + 1\<rparr>) H;
            H \<leftarrow> (if z_nfree zn = 0 then do {
                   H \<leftarrow> upd_zone z (z_next_update (\<lambda>_. zone_array H (z_zoneindex zn))) H;
                   Some (H\<lparr>zone_array := (zone_array H)(z_zoneindex zn \<mapsto> z)\<rparr>) }
                 else Some H);
            zn \<leftarrow> zones H z;
            if z_nfree zn = z_nmax zn \<and> (z_next zn \<noteq> None \<or> zone_array H (z_zoneindex zn) \<noteq> Some z)
            then zone_release z H
            else Some (unlock_heap H) } })"

text \<open>\<open>krealloc\<close>: the copied bytes are not represented.\<close>

definition krealloc :: "nat option \<Rightarrow> u32 \<Rightarrow> heap \<Rightarrow> (nat option \<times> heap) option" where
  "krealloc ptr sz H =
     (case ptr of
        None \<Rightarrow> kmalloc sz H
      | Some a \<Rightarrow>
          if sz = 0 then do { H \<leftarrow> kfree ptr H; Some (None, H) }
          else do {
            kup \<leftarrow> memusage H (btokup (page_base a) H);
            (case mu_type kup of
               PAGE_TYPE_LARGE \<Rightarrow> do {
                 (nptr, H) \<leftarrow> kmalloc sz H;
                 if nptr = None then Some (None, H)
                 else do { H \<leftarrow> kfree ptr H; Some (nptr, H) } }
             | PAGE_TYPE_SMALL \<Rightarrow> do {
                 zn \<leftarrow> zones H (page_base a - mu_size kup * PAGE_SIZE);
                 cos_assert (z_magic zn = ZALLOC_SLAB_MAGIC);
                 let sz = snd (zoneindex sz);
                 if z_chunksize zn = sz then Some (ptr, H)
                 else do {
                   (nptr, H) \<leftarrow> kmalloc sz H;
                   if nptr = None then Some (None, H)
                   else do { H \<leftarrow> kfree ptr H; Some (nptr, H) } } }
             | PAGE_TYPE_FREE \<Rightarrow> Some (None, H)) })"

text \<open>\<open>memory_info\<close>: total, used and maximum.\<close>

definition memory_info :: "heap \<Rightarrow> nat \<times> u32 \<times> u32" where
  "memory_info H = (heap_end H - heap_start H, used_mem H, max_mem H)"

end
