(* ===== verification/Cos_Page_Correct.thy ===== *)
theory Cos_Page_Correct
  imports Cos_Slab
begin

text \<open>
  The page allocator keeps the free memory as a list of runs, sorted by address, of which no two touch.
  \<open>page_inv H xs\<close> says that the heap \<open>H\<close> has the list of free runs \<open>xs\<close>; allocation and
  release are shown to be set difference and union on the free addresses.
\<close>

section \<open>Runs of pages\<close>

type_synonym runs = "(nat \<times> nat) list"

definition block :: "nat \<Rightarrow> nat \<Rightarrow> nat set" where
  "block b n = {b..<b + n * PAGE_SIZE}"

definition free_mem :: "runs \<Rightarrow> nat set" where
  "free_mem xs = (\<Union>(b, n)\<in>set xs. block b n)"

fun runs_ok :: "runs \<Rightarrow> bool" where
  "runs_ok [] \<longleftrightarrow> True"
| "runs_ok ((b, n) # xs) \<longleftrightarrow>
     0 < n \<and> b mod PAGE_SIZE = 0 \<and> (\<forall>(c, m)\<in>set xs. b + n * PAGE_SIZE < c) \<and> runs_ok xs"

text \<open>First fit, and release with coalescing, on runs.\<close>

fun alloc_runs :: "nat \<Rightarrow> runs \<Rightarrow> nat option \<times> runs" where
  "alloc_runs k [] = (None, [])"
| "alloc_runs k ((b, n) # xs) =
     (if k < n then (Some b, (b + k * PAGE_SIZE, n - k) # xs)
      else if n = k then (Some b, xs)
      else let (r, ys) = alloc_runs k xs in (r, (b, n) # ys))"

fun free_runs :: "nat \<Rightarrow> nat \<Rightarrow> runs \<Rightarrow> runs" where
  "free_runs a k [] = [(a, k)]"
| "free_runs a k ((b, n) # xs) =
     (if b + n * PAGE_SIZE = a then
        (case xs of
           [] \<Rightarrow> [(b, n + k)]
         | (c, m) # ys \<Rightarrow> if c = b + (n + k) * PAGE_SIZE then (b, n + k + m) # ys else (b, n + k) # xs)
      else if b = a + k * PAGE_SIZE then (a, n + k) # xs
      else if a + k * PAGE_SIZE < b then (a, k) # (b, n) # xs
      else (b, n) # free_runs a k xs)"

lemma free_mem_simps [simp]:
  "free_mem [] = {}" "free_mem ((b, n) # xs) = block b n \<union> free_mem xs"
  by (auto simp: free_mem_def)

lemma free_mem_above:
  "\<forall>(c, m)\<in>set xs. a < c \<Longrightarrow> x \<in> free_mem xs \<Longrightarrow> a < x"
  by (auto simp: free_mem_def block_def)

lemma PAGE_SIZE_pos [simp]: "0 < PAGE_SIZE" "PAGE_SIZE \<noteq> 0"
  by (simp_all add: PAGE_SIZE_def)

lemma block_split: "k \<le> n \<Longrightarrow> block b n = block b k \<union> block (b + k * PAGE_SIZE) (n - k)"
proof -
  assume "k \<le> n"
  then obtain d where "n = k + d" using le_Suc_ex by blast
  then show ?thesis by (auto simp: block_def add_mult_distrib)
qed

lemma block_disjoint: "b + n * PAGE_SIZE \<le> c \<Longrightarrow> block b n \<inter> block c m = {}"
  by (auto simp: block_def)

lemma block_below_free: "\<forall>(c, m)\<in>set xs. b + n * PAGE_SIZE < c \<Longrightarrow> block b n \<inter> free_mem xs = {}"
  by (auto simp: free_mem_def block_def)

section \<open>First fit on runs\<close>

lemma alloc_runs_none: "fst (alloc_runs k xs) = None \<longleftrightarrow> (\<forall>(b, n)\<in>set xs. n < k)"
  by (induction k xs rule: alloc_runs.induct) (auto split: prod.splits)

lemma alloc_runs_none_same: "fst (alloc_runs k xs) = None \<Longrightarrow> snd (alloc_runs k xs) = xs"
  by (induction k xs rule: alloc_runs.induct) (auto split: prod.splits if_splits)

lemma alloc_runs_some:
  "fst (alloc_runs k xs) = Some r \<Longrightarrow> \<exists>n. (r, n) \<in> set xs \<and> k \<le> n"
  by (induction k xs rule: alloc_runs.induct) (auto split: prod.splits if_splits)

lemma alloc_runs_set:
  "(c, m) \<in> set (snd (alloc_runs k xs)) \<Longrightarrow> \<exists>b n. (b, n) \<in> set xs \<and> b \<le> c"
  by (induction k xs rule: alloc_runs.induct) (force split: prod.splits if_splits)+

lemma alloc_runs_ok:
  "runs_ok xs \<Longrightarrow> 0 < k \<Longrightarrow> runs_ok (snd (alloc_runs k xs))"
proof (induction k xs rule: alloc_runs.induct)
  case (2 k b n xs)
  have mod: "(b + k * PAGE_SIZE) mod PAGE_SIZE = 0" using 2 by simp
  have len: "k < n \<Longrightarrow> b + k * PAGE_SIZE + (n - k) * PAGE_SIZE = b + n * PAGE_SIZE"
    by (simp add: diff_mult_distrib)
  show ?case
  proof (cases "k < n \<or> n = k")
    case True
    then show ?thesis using 2 mod len by auto
  next
    case False
    have "\<forall>(c, m)\<in>set (snd (alloc_runs k xs)). b + n * PAGE_SIZE < c"
      using 2(2) alloc_runs_set [of _ _ k xs] by fastforce
    then show ?thesis using 2 False by (auto simp: Let_def case_prod_beta)
  qed
qed simp

lemma alloc_runs_mem:
  "runs_ok xs \<Longrightarrow> fst (alloc_runs k xs) = Some r \<Longrightarrow>
    block r k \<subseteq> free_mem xs \<and> free_mem (snd (alloc_runs k xs)) = free_mem xs - block r k"
proof (induction k xs rule: alloc_runs.induct)
  case (2 k b n xs)
  have below: "block b n \<inter> free_mem xs = {}" using 2(2) by (intro block_below_free) simp
  show ?case
  proof (cases "k \<le> n")
    case True
    have r: "r = b" using 2(3) True by (auto split: if_splits)
    have "n = k \<Longrightarrow> block (b + k * PAGE_SIZE) (n - k) = {}" by (simp add: block_def)
    then have res: "free_mem (snd (alloc_runs k ((b, n) # xs))) = block (b + k * PAGE_SIZE) (n - k) \<union> free_mem xs"
      using True by (cases "k < n") simp_all
    show ?thesis
      unfolding r res free_mem_simps
      using block_split [OF True, of b] block_disjoint [of b k "b + k * PAGE_SIZE" "n - k"] below by blast
  next
    case False
    then have "block r k \<subseteq> free_mem xs" "free_mem (snd (alloc_runs k xs)) = free_mem xs - block r k"
      using 2 by (auto simp: Let_def case_prod_beta)
    then show ?thesis using below False by (auto simp: Let_def case_prod_beta)
  qed
qed simp

section \<open>Release on runs\<close>

lemma free_runs_mem:
  "free_mem (free_runs a k xs) = free_mem xs \<union> block a k"
proof (induction a k xs rule: free_runs.induct)
  case (2 a k b n xs)
  have join: "block b (n + k) = block b n \<union> block (b + n * PAGE_SIZE) k" for b n k
    using block_split [of n "n + k" b] by simp
  show ?case
  proof (cases "b + n * PAGE_SIZE = a")
    case True
    have 1: "block b (n + k) = block b n \<union> block a k" using join [of b n k] True by simp
    have 2: "block b (n + k + m) = block b n \<union> block a k \<union> block (b + (n + k) * PAGE_SIZE) m" for m
      using join [of b "n + k" m] 1 by simp
    show ?thesis using True by (cases xs) (auto simp: 1 2 split: if_splits)
  next
    case False
    then show ?thesis using 2 join [of a k n] by (auto simp: add.commute)
  qed
qed simp

lemma free_runs_set:
  "(c, m) \<in> set (free_runs a k xs) \<Longrightarrow> c = a \<or> (\<exists>n. (c, n) \<in> set xs)"
  by (induction a k xs rule: free_runs.induct) (auto split: if_splits list.splits)

lemma free_runs_ok:
  "runs_ok xs \<Longrightarrow> 0 < k \<Longrightarrow> a mod PAGE_SIZE = 0 \<Longrightarrow>
    \<forall>(b, n)\<in>set xs. a + k * PAGE_SIZE \<le> b \<or> b + n * PAGE_SIZE \<le> a \<Longrightarrow> runs_ok (free_runs a k xs)"
proof (induction a k xs rule: free_runs.induct)
  case (2 a k b n xs)
  consider "b + n * PAGE_SIZE = a" | "b = a + k * PAGE_SIZE" | "a + k * PAGE_SIZE < b"
    | "b + n * PAGE_SIZE < a" using 2(5) by fastforce
  then show ?case
  proof cases
    case 1
    have len: "b + (n + k) * PAGE_SIZE = a + k * PAGE_SIZE" using 1 by (simp add: add_mult_distrib)
    have above: "a + k * PAGE_SIZE \<le> c" if "(c, m) \<in> set xs" for c m using 2(2,5) 1 that by fastforce
    show ?thesis
    proof (cases xs)
      case Nil
      then show ?thesis using 2(2,3) 1 by simp
    next
      case (Cons x ys)
      obtain c m where x: "x = (c, m)" by fastforce
      have ys: "\<forall>(d, l)\<in>set ys. c + m * PAGE_SIZE < d" "runs_ok ys" "0 < m" "c mod PAGE_SIZE = 0"
        using 2(2) by (simp_all add: Cons x)
      have c: "a + k * PAGE_SIZE \<le> c" using above [of c m] by (simp add: Cons x)
      show ?thesis
      proof (cases "c = b + (n + k) * PAGE_SIZE")
        case True
        then have "b + (n + k + m) * PAGE_SIZE = c + m * PAGE_SIZE" by (simp add: add_mult_distrib)
        then show ?thesis using 2(2) 1 True ys by (simp add: Cons x add.assoc)
      next
        case False
        then have "\<forall>(d, l)\<in>set xs. b + (n + k) * PAGE_SIZE < d" using c ys len by (auto simp: Cons x)
        then show ?thesis using 2(2) 1 False by (simp add: Cons x)
      qed
    qed
  next
    case 2
    then have "a + (n + k) * PAGE_SIZE = b + n * PAGE_SIZE" by (simp add: add_mult_distrib)
    then show ?thesis using "2.prems" 2 by (simp add: add.assoc)
  next
    case 3
    then show ?thesis using "2.prems" by auto
  next
    case 4
    have "b + n * PAGE_SIZE < c" if "(c, m) \<in> set (free_runs a k xs)" for c m
      using free_runs_set [OF that] 4 2(2) by auto
    moreover have "runs_ok (free_runs a k xs)" using 2 4 by auto
    ultimately show ?thesis using 2(2,3) 4 by auto
  qed
qed simp

text \<open>Releasing a block right after its allocation restores the runs.\<close>

lemma free_alloc_runs:
  "runs_ok xs \<Longrightarrow> 0 < k \<Longrightarrow> fst (alloc_runs k xs) = Some r \<Longrightarrow> free_runs r k (snd (alloc_runs k xs)) = xs"
proof (induction k xs rule: alloc_runs.induct)
  case (2 k b n xs)
  show ?case
  proof (cases "k < n \<or> n = k")
    case True
    then show ?thesis
      using 2 by (cases xs) (auto simp: diff_mult_distrib split: if_splits)
  next
    case False
    then have r: "fst (alloc_runs k xs) = Some r" using 2 by (auto simp: Let_def case_prod_beta)
    then obtain m where "(r, m) \<in> set xs" using alloc_runs_some by blast
    then have "b + n * PAGE_SIZE < r" using 2(2) by auto
    then show ?thesis using 2 False r by (auto simp: Let_def case_prod_beta)
  qed
qed simp

section \<open>The list of runs in the heap\<close>

fun list_at :: "(nat \<Rightarrow> page_head option) \<Rightarrow> nat option \<Rightarrow> runs \<Rightarrow> bool" where
  "list_at P a [] \<longleftrightarrow> a = None"
| "list_at P a ((b, n) # xs) \<longleftrightarrow>
     a = Some b \<and> (\<exists>nx. P b = Some \<lparr>pg_next = nx, pg_page = n\<rparr> \<and> list_at P nx xs)"

lemma list_at_frame:
  "list_at P a xs \<Longrightarrow> \<forall>(b, n)\<in>set xs. P' b = P b \<Longrightarrow> list_at P' a xs"
  by (induction P a xs rule: list_at.induct) auto

text \<open>What the loops leave alone: the other fields of the heap, the cells before the runs \<open>xs\<close> except
  for the link \<open>prev\<close> refers to.\<close>

definition below :: "nat \<Rightarrow> runs \<Rightarrow> bool" where
  "below c xs \<longleftrightarrow> (\<forall>(d, m)\<in>set xs. c < d)"

definition kept :: "nat option \<Rightarrow> (nat \<Rightarrow> bool) \<Rightarrow> heap \<Rightarrow> heap \<Rightarrow> bool" where
  "kept prev A H H' \<longleftrightarrow>
     H\<lparr>pages := pages H', page_list := page_list H'\<rparr> = H' \<and>
     (prev \<noteq> None \<longrightarrow> page_list H' = page_list H) \<and>
     (\<forall>c. A c \<and> Some c \<noteq> prev \<longrightarrow> pages H' c = pages H c) \<and>
     (\<forall>p. prev = Some p \<longrightarrow> map_option pg_page (pages H' p) = map_option pg_page (pages H p))"

lemma kept_refl [simp]: "kept prev A H H"
  by (simp add: kept_def)

lemma write_prev_ok:
  assumes "read_prev prev H = Some a" and "\<And>p. prev = Some p \<Longrightarrow> p \<noteq> c"
  shows "\<exists>H'. write_prev prev v (H\<lparr>pages := (pages H)(c \<mapsto> q)\<rparr>) = Some H' \<and> read_prev prev H' = Some v \<and>
    pages H' c = Some q \<and> (\<forall>d. d \<noteq> c \<and> Some d \<noteq> prev \<longrightarrow> pages H' d = pages H d) \<and>
    (\<not> A c \<longrightarrow> kept prev A H H')"
  using assms by (cases prev) (auto simp: read_prev_def write_prev_def kept_def heap_upd_def)

lemma write_prev_ok0:
  assumes "read_prev prev H = Some a"
  shows "\<exists>H'. write_prev prev v H = Some H' \<and> read_prev prev H' = Some v \<and>
    (\<forall>d. Some d \<noteq> prev \<longrightarrow> pages H' d = pages H d) \<and> kept prev A H H'"
  using assms by (cases prev) (auto simp: read_prev_def write_prev_def kept_def heap_upd_def)

lemma runs_ok_below: "runs_ok ((b, n) # xs) \<Longrightarrow> c \<le> b + n * PAGE_SIZE \<Longrightarrow> below c xs"
  by (auto simp: below_def)

lemma below_Cons [simp]: "below c ((b, n) # xs) \<longleftrightarrow> c < b \<and> below c xs"
  by (auto simp: below_def)

lemma kept_step:
  assumes kept: "kept (Some b) A H H'" and prev: "\<And>p. prev = Some p \<Longrightarrow> p \<noteq> b \<and> A p"
    and A': "\<And>c. A' c \<Longrightarrow> A c \<and> c \<noteq> b"
    and b: "pages H b = Some \<lparr>pg_next = nx, pg_page = n\<rparr>" "read_prev (Some b) H' = Some a'" "list_at (pages H') a' ys"
  shows "kept prev A' H H'" and "read_prev prev H' = read_prev prev H"
    and "list_at (pages H') (Some b) ((b, n) # ys)"
proof -
  have eq: "pages H' p = pages H p" if "prev = Some p" for p
    using kept prev [OF that] by (auto simp: kept_def)
  show "kept prev A' H H'" using kept eq A' by (auto simp: kept_def)
  show "read_prev prev H' = read_prev prev H" using kept eq by (cases prev) (auto simp: kept_def read_prev_def)
  obtain q where q: "pages H' b = Some q" "pg_next q = a'" using b(2) by (auto simp: read_prev_def)
  moreover have "pg_page q = n" using kept b(1) q(1) by (auto simp: kept_def)
  ultimately show "list_at (pages H') (Some b) ((b, n) # ys)" using b(3) by (cases q) simp
qed

lemma page_alloc_loop_ok:
  assumes "read_prev prev H = Some a" "list_at (pages H) a xs" "runs_ok xs" "0 < k"
    and "\<And>p. prev = Some p \<Longrightarrow> below p xs"
  shows "\<exists>H' a'. page_alloc_loop k prev H = Some (fst (alloc_runs k xs), H') \<and> read_prev prev H' = Some a' \<and>
    list_at (pages H') a' (snd (alloc_runs k xs)) \<and> kept prev (\<lambda>c. below c xs) H H'"
  using assms
proof (induction xs arbitrary: prev a)
  case Nil
  then show ?case by (subst page_alloc_loop.simps) simp
next
  case (Cons x xs)
  obtain b n where x: "x = (b, n)" by fastforce
  obtain nx where b: "a = Some b" "pages H b = Some \<lparr>pg_next = nx, pg_page = n\<rparr>" "list_at (pages H) nx xs"
    using Cons.prems(2) by (auto simp: x)
  have prev: "p < b \<and> below p xs" if "prev = Some p" for p using Cons.prems(5) [OF that] by (simp add: x)
  have above: "below (b + n * PAGE_SIZE) xs" using Cons.prems(3) by (auto simp: x below_def)
  have other: "Some d \<noteq> prev" "b + n * PAGE_SIZE < d" if "(d, m) \<in> set xs" for d m
    using prev [of d] above that by (auto simp: below_def)
  note unf = page_alloc_loop.simps [of k prev H]
  consider "k < n" | "k = n" | "n < k" by linarith
  then show ?case
  proof cases
    case 1
    let ?c = "b + k * PAGE_SIZE" and ?q = "\<lparr>pg_next = nx, pg_page = n - k\<rparr>"
    have c: "?c < b + n * PAGE_SIZE" using 1 by simp
    have "p \<noteq> ?c" if "prev = Some p" for p using prev [OF that] by auto
    from write_prev_ok [OF Cons.prems(1) this, where v = "Some ?c" and q = ?q and A = "\<lambda>c. below c (x # xs)"]
    obtain H' where H': "write_prev prev (Some ?c) (H\<lparr>pages := (pages H)(?c \<mapsto> ?q)\<rparr>) = Some H'"
      "read_prev prev H' = Some (Some ?c)" "pages H' ?c = Some ?q"
      "\<forall>d. d \<noteq> ?c \<and> Some d \<noteq> prev \<longrightarrow> pages H' d = pages H d"
      "\<not> below ?c (x # xs) \<longrightarrow> kept prev (\<lambda>c. below c (x # xs)) H H'" by blast
    have "pages H' d = pages H d" if "(d, m) \<in> set xs" for d m
    proof -
      have "?c < d" using c other(2) [OF that] by (rule less_trans)
      then show ?thesis using H'(4) other(1) [OF that] by auto
    qed
    then have "\<forall>(d, m)\<in>set xs. pages H' d = pages H d" by blast
    with b(3) have "list_at (pages H') nx xs" by (rule list_at_frame)
    then show ?thesis using 1 H' b Cons.prems(1) by (simp add: unf x Let_def)
  next
    case 2
    from write_prev_ok0 [OF Cons.prems(1), where v = nx and A = "\<lambda>c. below c (x # xs)"]
    obtain H' where H': "write_prev prev nx H = Some H'" "read_prev prev H' = Some nx"
      "\<forall>d. Some d \<noteq> prev \<longrightarrow> pages H' d = pages H d" "kept prev (\<lambda>c. below c (x # xs)) H H'" by blast
    have "\<forall>(d, m)\<in>set xs. pages H' d = pages H d" using H'(3) other(1) by auto
    with b(3) have "list_at (pages H') nx xs" by (rule list_at_frame)
    then show ?thesis using 2 H' b Cons.prems(1) by (simp add: page_alloc_loop.simps [of n prev H] x)
  next
    case 3
    have "\<exists>H' a'. page_alloc_loop k (Some b) H = Some (fst (alloc_runs k xs), H') \<and> read_prev (Some b) H' = Some a' \<and>
      list_at (pages H') a' (snd (alloc_runs k xs)) \<and> kept (Some b) (\<lambda>c. below c xs) H H'"
      using Cons.prems(3,4) b by (intro Cons.IH) (auto simp: x read_prev_def below_def)
    then obtain H' a' where H': "page_alloc_loop k (Some b) H = Some (fst (alloc_runs k xs), H')"
      "read_prev (Some b) H' = Some a'" "list_at (pages H') a' (snd (alloc_runs k xs))"
      "kept (Some b) (\<lambda>c. below c xs) H H'" by blast
    have 1: "p \<noteq> b \<and> below p xs" if "prev = Some p" for p using prev [OF that] by auto
    have 2: "below c xs \<and> c \<noteq> b" if "below c (x # xs)" for c using that by (auto simp: x)
    note step = kept_step [OF H'(4) 1 2 b(2) H'(2,3)]
    show ?thesis
      using 3 H'(1) b(1,2) Cons.prems(1) step by (auto simp: unf x Let_def case_prod_beta)
  qed
qed

lemma page_free_loop_ok:
  assumes "0 < k" "read_prev prev H = Some a" "list_at (pages H) a xs" "runs_ok xs"
    and "\<And>p. prev = Some p \<Longrightarrow> below p xs \<and> p < n"
    and "\<forall>(b, m)\<in>set xs. n + k * PAGE_SIZE \<le> b \<or> b + m * PAGE_SIZE \<le> n"
  shows "\<exists>H' a'. page_free_loop n k prev H = Some H' \<and> read_prev prev H' = Some a' \<and>
    list_at (pages H') a' (free_runs n k xs) \<and> kept prev (\<lambda>c. below c xs \<and> c < n) H H'"
  using assms(2-)
proof (induction xs arbitrary: prev a)
  case Nil
  let ?q = "\<lparr>pg_next = None, pg_page = k\<rparr>"
  have "p \<noteq> n" if "prev = Some p" for p using Nil.prems(4) [OF that] by auto
  from write_prev_ok [OF Nil.prems(1) this, where v = "Some n" and q = ?q and A = "\<lambda>c. below c [] \<and> c < n"]
  show ?case using Nil.prems by (subst page_free_loop.simps) auto
next
  case (Cons x xs)
  obtain b m where x: "x = (b, m)" by fastforce
  obtain nx where b: "a = Some b" "pages H b = Some \<lparr>pg_next = nx, pg_page = m\<rparr>" "list_at (pages H) nx xs"
    using Cons.prems(2) by (auto simp: x)
  have m: "0 < m" using Cons.prems(3) by (simp add: x)
  have prev: "p < b \<and> below p xs \<and> p < n" if "prev = Some p" for p using Cons.prems(4) [OF that] by (simp add: x)
  have other: "Some d \<noteq> prev" "b + m * PAGE_SIZE < d" if "(d, l) \<in> set xs" for d l
    using prev [of d] Cons.prems(3) that by (auto simp: below_def x)
  have rd: "read_prev prev (H\<lparr>pages := (pages H)(b \<mapsto> q)\<rparr>) = Some a" for q
    using Cons.prems(1) prev by (cases prev) (auto simp: read_prev_def)
  have kp: "kept prev (\<lambda>c. below c (x # xs) \<and> c < n) H (H\<lparr>pages := (pages H)(b \<mapsto> q)\<rparr>)" for q
    using prev by (auto simp: kept_def x)
  have fr: "list_at ((pages H)(b \<mapsto> q)) u ys" if "list_at (pages H) u ys" "set ys \<subseteq> set xs" for q u ys
    using that other(2) by (fastforce intro: list_at_frame)
  note unf = page_free_loop.simps [of n k prev H]
  note pre = Cons.prems(1) b(1,2) m \<open>0 < k\<close>
  consider "b + m * PAGE_SIZE = n" | "b = n + k * PAGE_SIZE" "b + m * PAGE_SIZE \<noteq> n"
    | "n + k * PAGE_SIZE < b" | "b + m * PAGE_SIZE < n"
    using Cons.prems(5) by (fastforce simp: x)
  then show ?case
  proof cases
    case 1
    let ?e = "b + (m + k) * PAGE_SIZE"
    show ?thesis
    proof (cases xs)
      case Nil
      then show ?thesis using 1 pre b(3) rd kp by (simp add: unf x Let_def)
    next
      case (Cons y ys)
      obtain c l where y: "y = (c, l)" by fastforce
      obtain nx' where c: "nx = Some c" "pages H c = Some \<lparr>pg_next = nx', pg_page = l\<rparr>" "list_at (pages H) nx' ys"
        using b(3) by (auto simp: Cons y)
      have "list_at ((pages H)(b \<mapsto> q)) nx' ys" "list_at ((pages H)(b \<mapsto> q)) nx xs" for q
        using fr [of nx' ys q] fr [of nx xs q] c(3) b(3) by (auto simp: Cons)
      then show ?thesis using 1 pre c rd kp by (cases "c = ?e") (simp_all add: unf x y Cons Let_def)
    qed
  next
    case 2
    let ?q = "\<lparr>pg_next = nx, pg_page = m + k\<rparr>"
    have "p \<noteq> n" if "prev = Some p" for p using prev [OF that] by auto
    from write_prev_ok [OF Cons.prems(1) this, where v = "Some n" and q = ?q and A = "\<lambda>c. below c (x # xs) \<and> c < n"]
    obtain H' where H': "write_prev prev (Some n) (H\<lparr>pages := (pages H)(n \<mapsto> ?q)\<rparr>) = Some H'"
      "read_prev prev H' = Some (Some n)" "pages H' n = Some ?q"
      "\<forall>d. d \<noteq> n \<and> Some d \<noteq> prev \<longrightarrow> pages H' d = pages H d" "kept prev (\<lambda>c. below c (x # xs) \<and> c < n) H H'" by blast
    have "pages H' d = pages H d" if "(d, l) \<in> set xs" for d l
      using H'(4) other [OF that] 2 by simp
    then have "\<forall>(d, l)\<in>set xs. pages H' d = pages H d" by blast
    with b(3) have "list_at (pages H') nx xs" by (rule list_at_frame)
    then show ?thesis using 2 H' pre by (auto simp: unf x)
  next
    case 3
    let ?q = "\<lparr>pg_next = Some b, pg_page = k\<rparr>"
    have "p \<noteq> n" if "prev = Some p" for p using prev [OF that] by auto
    from write_prev_ok [OF Cons.prems(1) this, where v = "Some n" and q = ?q and A = "\<lambda>c. below c (x # xs) \<and> c < n"]
    obtain H' where H': "write_prev prev (Some n) (H\<lparr>pages := (pages H)(n \<mapsto> ?q)\<rparr>) = Some H'"
      "read_prev prev H' = Some (Some n)" "pages H' n = Some ?q"
      "\<forall>d. d \<noteq> n \<and> Some d \<noteq> prev \<longrightarrow> pages H' d = pages H d" "kept prev (\<lambda>c. below c (x # xs) \<and> c < n) H H'" by blast
    have "pages H' d = pages H d" if "(d, l) \<in> set (x # xs)" for d l
    proof -
      have "Some d \<noteq> prev" using other(1) [of d l] prev [of d] that by (auto simp: x)
      moreover have "d \<noteq> n" using other(2) [of d l] that 3 by (auto simp: x)
      ultimately show ?thesis using H'(4) by blast
    qed
    then have "\<forall>(d, l)\<in>set (x # xs). pages H' d = pages H d" by blast
    with Cons.prems(2) have "list_at (pages H') a (x # xs)" by (rule list_at_frame)
    then show ?thesis using 3 H' pre by (auto simp: unf x)
  next
    case 4
    have "\<exists>H' a'. page_free_loop n k (Some b) H = Some H' \<and> read_prev (Some b) H' = Some a' \<and>
      list_at (pages H') a' (free_runs n k xs) \<and> kept (Some b) (\<lambda>c. below c xs \<and> c < n) H H'"
    proof (rule Cons.IH)
      show "read_prev (Some b) H = Some nx" using b by (simp add: read_prev_def)
      show "below p xs \<and> p < n" if "Some b = Some p" for p
        using that other(2) 4 by (fastforce simp: below_def)
    qed (use b Cons.prems(3,5) in \<open>auto simp: x\<close>)
    then obtain H' a' where H': "page_free_loop n k (Some b) H = Some H'" "read_prev (Some b) H' = Some a'"
      "list_at (pages H') a' (free_runs n k xs)" "kept (Some b) (\<lambda>c. below c xs \<and> c < n) H H'" by blast
    have 1: "p \<noteq> b \<and> below p xs \<and> p < n" if "prev = Some p" for p using prev [OF that] by auto
    have 2: "(below c xs \<and> c < n) \<and> c \<noteq> b" if "below c (x # xs) \<and> c < n" for c using that by (auto simp: x)
    note step = kept_step [OF H'(4) 1 2 b(2) H'(2,3)]
    show ?thesis using 4 H'(1) pre step by (auto simp: unf x)
  qed
qed

section \<open>Runs are determined by the free memory\<close>

lemma block_empty [simp]: "block b n = {} \<longleftrightarrow> n = 0"
  by (auto simp: block_def)

lemma block_in: "0 < n \<Longrightarrow> b \<in> block b n"
  by (simp add: block_def)

lemma runs_ok_min:
  assumes "runs_ok ((b, n) # xs)" "x \<in> free_mem ((b, n) # xs)"
  shows "b \<le> x"
  using assms free_mem_above [of xs "b + n * PAGE_SIZE" x] by (auto simp: block_def)

lemma runs_ok_gap:
  assumes "runs_ok ((b, n) # xs)"
  shows "b + n * PAGE_SIZE \<notin> free_mem ((b, n) # xs)"
  using assms free_mem_above [of xs "b + n * PAGE_SIZE" "b + n * PAGE_SIZE"] by (auto simp: block_def)

lemma runs_ok_unique:
  "runs_ok xs \<Longrightarrow> runs_ok ys \<Longrightarrow> free_mem xs = free_mem ys \<Longrightarrow> xs = ys"
proof (induction xs arbitrary: ys)
  case Nil
  then show ?case by (cases ys) (auto dest: block_in)
next
  case (Cons x xs)
  obtain b n where x: "x = (b, n)" by fastforce
  obtain y ys' where "ys = y # ys'" using Cons.prems by (cases ys) (auto simp: x dest: block_in)
  moreover obtain c m where "y = (c, m)" by fastforce
  ultimately have ys: "ys = (c, m) # ys'" by simp
  have nm: "0 < n" "0 < m" using Cons.prems by (simp_all add: x ys)
  have "b \<in> free_mem ys" "c \<in> free_mem (x # xs)"
    using Cons.prems(3) nm by (auto simp: x ys intro: block_in)
  then have bc: "b = c" using runs_ok_min Cons.prems by (metis x ys le_antisym)
  have "\<not> n < m" "\<not> m < n"
    using runs_ok_gap [of b n xs] runs_ok_gap [of c m ys'] Cons.prems bc by (auto simp: x ys block_def)
  then have "n = m" by simp
  moreover have "block b n \<inter> free_mem xs = {}" "block c m \<inter> free_mem ys' = {}"
    using Cons.prems by (auto simp: x ys intro!: block_below_free)
  then have "free_mem xs = free_mem ys'" using Cons.prems(3) bc \<open>n = m\<close> by (auto simp: x ys)
  ultimately show ?case using Cons.IH [of ys'] Cons.prems bc by (simp add: x ys)
qed

lemma disjoint_runs:
  assumes "block a k \<inter> free_mem xs = {}" "runs_ok xs" "0 < k" "(b, n) \<in> set xs"
  shows "a + k * PAGE_SIZE \<le> b \<or> b + n * PAGE_SIZE \<le> a"
proof (rule ccontr)
  assume "\<not> ?thesis"
  moreover have "0 < n" using assms(2,4) by (induction xs rule: runs_ok.induct) auto
  ultimately have "max a b \<in> block a k \<inter> block b n" using assms(3) by (auto simp: block_def)
  then show False using assms(1,4) by (auto simp: free_mem_def)
qed

section \<open>The page allocator\<close>

definition page_inv :: "heap \<Rightarrow> runs \<Rightarrow> bool" where
  "page_inv H xs \<longleftrightarrow> list_at (pages H) (page_list H) xs \<and> runs_ok xs \<and> (down_flag H \<longrightarrow> 0 < heap_sem H)"

lemma lock_unlock:
  assumes "down_flag H \<longrightarrow> 0 < heap_sem H"
  obtains H1 where "lock_heap H = Some H1" "pages H1 = pages H" "page_list H1 = page_list H"
    "\<And>P l. unlock_heap (H1\<lparr>pages := P, page_list := l\<rparr>) = H\<lparr>pages := P, page_list := l\<rparr>"
proof (cases "down_flag H")
  case True
  have "H\<lparr>heap_sem := heap_sem H - 1, pages := P, page_list := l, heap_sem := heap_sem H\<rparr> = H\<lparr>pages := P, page_list := l\<rparr>" for P l
    by (cases H) simp
  then show ?thesis using that [of "H\<lparr>heap_sem := heap_sem H - 1\<rparr>"] assms True by (auto simp: lock_heap_def unlock_heap_def)
next
  case False
  then show ?thesis using that [of H] by (simp add: lock_heap_def unlock_heap_def)
qed

lemma page_alloc_inv:
  assumes "page_inv H xs" "0 < k"
  shows "\<exists>H'. page_alloc k H = Some (fst (alloc_runs k xs), H') \<and> page_inv H' (snd (alloc_runs k xs)) \<and>
    H\<lparr>pages := pages H', page_list := page_list H'\<rparr> = H'"
proof -
  obtain H1 where H1: "lock_heap H = Some H1" "pages H1 = pages H" "page_list H1 = page_list H"
    "\<And>P l. unlock_heap (H1\<lparr>pages := P, page_list := l\<rparr>) = H\<lparr>pages := P, page_list := l\<rparr>"
    using assms(1) by (auto simp: page_inv_def intro: lock_unlock [of H])
  obtain H2 a' where H2: "page_alloc_loop k None H1 = Some (fst (alloc_runs k xs), H2)"
    "read_prev None H2 = Some a'" "list_at (pages H2) a' (snd (alloc_runs k xs))" "kept None (\<lambda>c. below c xs) H1 H2"
    using page_alloc_loop_ok [of None H1 "page_list H" xs k] assms H1 by (auto simp: page_inv_def read_prev_def)
  have un: "unlock_heap H2 = H\<lparr>pages := pages H2, page_list := page_list H2\<rparr>"
    using H2(4) H1(4) [of "page_list H2" "pages H2"] by (simp add: kept_def)
  show ?thesis
    using H1(1) H2 assms alloc_runs_ok [of xs k] by (simp add: page_alloc_def un page_inv_def read_prev_def)
qed

lemma page_free_inv:
  assumes "page_inv H xs" "0 < k" "b mod PAGE_SIZE = 0" "block b k \<inter> free_mem xs = {}"
  shows "\<exists>H'. page_free b k H = Some H' \<and> page_inv H' (free_runs b k xs) \<and>
    H\<lparr>pages := pages H', page_list := page_list H'\<rparr> = H'"
proof -
  obtain H1 where H1: "lock_heap H = Some H1" "pages H1 = pages H" "page_list H1 = page_list H"
    "\<And>P l. unlock_heap (H1\<lparr>pages := P, page_list := l\<rparr>) = H\<lparr>pages := P, page_list := l\<rparr>"
    using assms(1) by (auto simp: page_inv_def intro: lock_unlock [of H])
  have ok: "runs_ok xs" using assms(1) by (simp add: page_inv_def)
  have dis: "\<forall>(c, m)\<in>set xs. b + k * PAGE_SIZE \<le> c \<or> c + m * PAGE_SIZE \<le> b"
    using disjoint_runs [OF assms(4) ok assms(2)] by blast
  obtain H2 a' where H2: "page_free_loop b k None H1 = Some H2" "read_prev None H2 = Some a'"
    "list_at (pages H2) a' (free_runs b k xs)" "kept None (\<lambda>c. below c xs \<and> c < b) H1 H2"
    using page_free_loop_ok [of k None H1 "page_list H" xs b] assms H1 dis by (auto simp: page_inv_def read_prev_def)
  have un: "unlock_heap H2 = H\<lparr>pages := pages H2, page_list := page_list H2\<rparr>"
    using H2(4) H1(4) [of "page_list H2" "pages H2"] by (simp add: kept_def)
  show ?thesis
    using H1(1) H2 assms free_runs_ok [OF ok assms(2,3) dis] by (simp add: page_free_def un page_inv_def read_prev_def)
qed

section \<open>The page allocator as an interface\<close>

locale page_allocator =
  fixes inv :: "'s \<Rightarrow> runs \<Rightarrow> bool" and alloc :: "nat \<Rightarrow> 's \<Rightarrow> (nat option \<times> 's) option"
    and free :: "nat \<Rightarrow> nat \<Rightarrow> 's \<Rightarrow> 's option"
  assumes inv_ok: "inv s xs \<Longrightarrow> runs_ok xs"
    and alloc_inv: "inv s xs \<Longrightarrow> 0 < k \<Longrightarrow> \<exists>r s' ys. alloc k s = Some (r, s') \<and> inv s' ys \<and>
      (case r of None \<Rightarrow> ys = xs \<and> (\<forall>(b, n)\<in>set xs. n < k)
       | Some b \<Rightarrow> b mod PAGE_SIZE = 0 \<and> block b k \<subseteq> free_mem xs \<and> free_mem ys = free_mem xs - block b k)"
    and free_inv: "inv s xs \<Longrightarrow> 0 < k \<Longrightarrow> b mod PAGE_SIZE = 0 \<Longrightarrow> block b k \<inter> free_mem xs = {} \<Longrightarrow>
      \<exists>s' ys. free b k s = Some s' \<and> inv s' ys \<and> free_mem ys = free_mem xs \<union> block b k"
begin

lemma alloc_some:
  assumes "inv s xs" "0 < k" "alloc k s = Some (Some b, s')"
  obtains ys where "inv s' ys" "b mod PAGE_SIZE = 0" "block b k \<subseteq> free_mem xs" "free_mem ys = free_mem xs - block b k"
  using alloc_inv [OF assms(1,2)] assms(3) by auto

lemma alloc_disjoint:
  assumes "inv s xs" "0 < k" "0 < l" "alloc k s = Some (Some b, s1)" "alloc l s1 = Some (Some c, s2)"
  shows "block b k \<inter> block c l = {}"
proof -
  obtain ys where "inv s1 ys" "free_mem ys = free_mem xs - block b k"
    using alloc_some [OF assms(1,2,4)] by blast
  moreover from this obtain zs where "block c l \<subseteq> free_mem ys"
    using alloc_some [OF _ assms(3,5)] by blast
  ultimately show ?thesis by blast
qed

lemma alloc_free:
  assumes "inv s xs" "0 < k" "alloc k s = Some (Some b, s1)"
  shows "\<exists>s2. free b k s1 = Some s2 \<and> inv s2 xs"
proof -
  obtain ys where ys: "inv s1 ys" "b mod PAGE_SIZE = 0" "block b k \<subseteq> free_mem xs" "free_mem ys = free_mem xs - block b k"
    using alloc_some [OF assms] by blast
  obtain s2 zs where s2: "free b k s1 = Some s2" "inv s2 zs" "free_mem zs = free_mem ys \<union> block b k"
    using free_inv [OF ys(1) assms(2) ys(2)] ys(4) by blast
  have "zs = xs" using runs_ok_unique [OF inv_ok [OF s2(2)] inv_ok [OF assms(1)]] s2(3) ys(3,4) by blast
  then show ?thesis using s2 by blast
qed

text \<open>Two blocks may be given back in the order in which they were allocated.\<close>

lemma alloc_free_fifo:
  assumes "inv s xs" "0 < k" "0 < l" "alloc k s = Some (Some b, s1)" "alloc l s1 = Some (Some c, s2)"
  shows "\<exists>s3 s4. free b k s2 = Some s3 \<and> free c l s3 = Some s4 \<and> inv s4 xs"
proof -
  obtain ys where ys: "inv s1 ys" "b mod PAGE_SIZE = 0" "block b k \<subseteq> free_mem xs" "free_mem ys = free_mem xs - block b k"
    using alloc_some [OF assms(1,2,4)] by blast
  obtain zs where zs: "inv s2 zs" "c mod PAGE_SIZE = 0" "block c l \<subseteq> free_mem ys" "free_mem zs = free_mem ys - block c l"
    using alloc_some [OF ys(1) assms(3,5)] by blast
  have xs: "free_mem xs = free_mem ys \<union> block b k" and ys': "free_mem ys = free_mem zs \<union> block c l"
    using ys(3,4) zs(3,4) by blast+
  have dis: "block b k \<inter> free_mem zs = {}" "block b k \<inter> block c l = {}" "block c l \<inter> free_mem zs = {}"
    using ys(4) zs(3,4) by blast+
  obtain s3 us where us: "free b k s2 = Some s3" "inv s3 us" "free_mem us = free_mem zs \<union> block b k"
    using free_inv [OF zs(1) assms(2) ys(2) dis(1)] by metis
  have "block c l \<inter> free_mem us = {}" using us(3) dis(2,3) by blast
  then obtain s4 vs where vs: "free c l s3 = Some s4" "inv s4 vs" "free_mem vs = free_mem us \<union> block c l"
    using free_inv [OF us(2) assms(3) zs(2)] by metis
  have "free_mem vs = free_mem xs" by (simp add: vs(3) us(3) xs ys' Un_ac)
  then have "vs = xs" by (rule runs_ok_unique [OF inv_ok [OF vs(2)] inv_ok [OF assms(1)]])
  then show ?thesis using us vs by blast
qed

end

lemma runs_ok_mod: "runs_ok xs \<Longrightarrow> (b, n) \<in> set xs \<Longrightarrow> b mod PAGE_SIZE = 0"
  by (induction xs rule: runs_ok.induct) auto

interpretation pg: page_allocator page_inv page_alloc page_free
proof
  show "runs_ok xs" if "page_inv s xs" for s xs using that by (simp add: page_inv_def)
next
  fix s xs and k :: nat
  assume inv: "page_inv s xs" and k: "0 < k"
  have ok: "runs_ok xs" using inv by (simp add: page_inv_def)
  obtain H' where H': "page_alloc k s = Some (fst (alloc_runs k xs), H')" "page_inv H' (snd (alloc_runs k xs))"
    using page_alloc_inv [OF inv k] by blast
  show "\<exists>r s' ys. page_alloc k s = Some (r, s') \<and> page_inv s' ys \<and>
    (case r of None \<Rightarrow> ys = xs \<and> (\<forall>(b, n)\<in>set xs. n < k)
     | Some b \<Rightarrow> b mod PAGE_SIZE = 0 \<and> block b k \<subseteq> free_mem xs \<and> free_mem ys = free_mem xs - block b k)"
  proof (cases "fst (alloc_runs k xs)")
    case None
    then show ?thesis using H' alloc_runs_none [of k xs] alloc_runs_none_same [of k xs] by simp
  next
    case (Some b)
    then have "b mod PAGE_SIZE = 0" using alloc_runs_some runs_ok_mod [OF ok] by blast
    then show ?thesis using H' alloc_runs_mem [OF ok Some] Some by auto
  qed
next
  fix s xs k b
  assume "page_inv s xs" "0 < k" "b mod PAGE_SIZE = 0" "block b k \<inter> free_mem xs = {}"
  from page_free_inv [OF this] show "\<exists>s' ys. page_free b k s = Some s' \<and> page_inv s' ys \<and> free_mem ys = free_mem xs \<union> block b k"
    using free_runs_mem [of b k xs] by blast
qed

section \<open>Properties\<close>

text \<open>A heap of eight free pages from address 4096 on, before the runtime is up.\<close>

definition empty_heap :: heap where
  "empty_heap = \<lparr>pages = (\<lambda>_. None), zones = (\<lambda>_. None), chunks = (\<lambda>_. None), page_list = None, zone_array = (\<lambda>_. None),
     zone_free = None, zone_free_cnt = 0, zone_size = 0, zone_limit = 0, zone_page_cnt = 0, memusage = (\<lambda>_. None),
     heap_start = 0, heap_end = 0, used_mem = 0, max_mem = 0, heap_sem = 1, down_flag = False\<rparr>"

definition sample_pages :: heap where
  "sample_pages = empty_heap\<lparr>pages := [4096 \<mapsto> \<lparr>pg_next = None, pg_page = 8\<rparr>], page_list := Some 4096\<rparr>"

lemma sample_pages_inv: "page_inv sample_pages [(4096, 8)]"
  by (simp add: page_inv_def sample_pages_def empty_heap_def PAGE_SIZE_def)

text \<open>C10: \<open>page_alloc\<close> on a well-formed list of free runs succeeds exactly when there is a run of the requested
  length; the block it returns is page-aligned, was free and is not free afterwards, all other memory
  keeps its state, and the list stays sorted and coalesced.\<close>

theorem page_alloc_correct:
  assumes "page_inv H xs" and "0 < k"
  shows "\<exists>r H' ys. page_alloc k H = Some (r, H') \<and> page_inv H' ys \<and>
    (case r of None \<Rightarrow> ys = xs \<and> (\<forall>(b, n)\<in>set xs. n < k)
     | Some b \<Rightarrow> b mod PAGE_SIZE = 0 \<and> block b k \<subseteq> free_mem xs \<and> free_mem ys = free_mem xs - block b k)"
  by (rule pg.alloc_inv [OF assms])

theorem page_alloc_correct_witness:
  "\<exists>r H' ys. page_alloc 3 sample_pages = Some (r, H') \<and> page_inv H' ys \<and>
    (case r of None \<Rightarrow> ys = [(4096, 8)] \<and> (\<forall>(b, n)\<in>set [(4096 :: nat, 8 :: nat)]. n < 3)
     | Some b \<Rightarrow> b mod PAGE_SIZE = 0 \<and> block b 3 \<subseteq> free_mem [(4096, 8)] \<and>
         free_mem ys = free_mem [(4096, 8)] - block b 3)"
  by (rule page_alloc_correct [OF sample_pages_inv]) simp



text \<open>Blocks allocated one after the other do not overlap, and giving them back in the order of their
  allocation restores the list of free runs.\<close>

lemma page_blocks_roundtrip:
  assumes "page_inv H xs" and "0 < k" and "0 < l"
    and "page_alloc k H = Some (Some b, H1)" and "page_alloc l H1 = Some (Some c, H2)"
  shows "block b k \<inter> block c l = {} \<and>
    (\<exists>H3 H4. page_free b k H2 = Some H3 \<and> page_free c l H3 = Some H4 \<and> page_inv H4 xs)"
  using pg.alloc_disjoint [OF assms] pg.alloc_free_fifo [OF assms] by blast

end
