(* ===== verification/Cos_Slab_Correct.thy ===== *)
theory Cos_Slab_Correct
  imports Cos_Page_Correct
begin

text \<open>
  The slab allocator on top of the page allocator: the classes of chunk sizes, the chunks of a zone, and
  large blocks.
\<close>

section \<open>Chunk sizes\<close>

definition round_up :: "nat \<Rightarrow> nat \<Rightarrow> nat" where
  "round_up g m = (m + (g - 1)) div g * g"

lemma unat_round:
  fixes n :: u32
  assumes "unat n < 16384" "k < 12" "c = mask k" "unat c = 2 ^ k - 1"
  shows "unat ((n + c) AND NOT c) = round_up (2 ^ k) (unat n)"
proof -
  have "(2::nat) ^ k < 2 ^ 12" using assms(2) by (rule power_strict_increasing) simp
  then have "unat (n + c) = unat n + (2 ^ k - 1)" using assms(1,4) by (simp add: unat_word_ariths)
  then show ?thesis by (simp add: assms(3) unat_and_not_mask round_up_def)
qed

lemma round_up_bounds: "0 < g \<Longrightarrow> m \<le> round_up g m" "0 < g \<Longrightarrow> round_up g m < m + g" "g dvd round_up g m"
proof -
  assume g: "0 < g"
  have "(m + (g - 1)) div g * g + (m + (g - 1)) mod g = m + (g - 1)" by simp
  moreover have "(m + (g - 1)) mod g < g" using g by simp
  ultimately show "m \<le> round_up g m" "round_up g m < m + g" unfolding round_up_def by linarith+
qed (simp add: round_up_def)

text \<open>The granularity of a request and the offset of its zone indices, as natural numbers.\<close>

definition grain :: "nat \<Rightarrow> nat \<times> nat" where
  "grain m =
     (if m < 128 then (3, 0) else if m < 256 then (4, 8) else if m < 512 then (5, 16) else if m < 1024 then (6, 24)
      else if m < 2048 then (7, 32) else if m < 4096 then (8, 40) else if m < 8192 then (9, 48) else (10, 56))"

lemma zoneindex_nat:
  assumes "0 < n" "unat n < 16384" "grain (unat n) = (k, d)"
  shows "unat (snd (zoneindex n)) = round_up (2 ^ k) (unat n)"
    "unat (fst (zoneindex n)) = round_up (2 ^ k) (unat n) div 2 ^ k + d - 1"
proof -
  have n: "0 < unat n" using assms(1) by (simp add: word_less_nat_alt)
  have r: "unat ((n + 7) AND NOT 7) = round_up (2 ^ 3) (unat n)" "unat ((n + 15) AND NOT 15) = round_up (2 ^ 4) (unat n)"
    "unat ((n + 31) AND NOT 31) = round_up (2 ^ 5) (unat n)" "unat ((n + 63) AND NOT 63) = round_up (2 ^ 6) (unat n)"
    "unat ((n + 127) AND NOT 127) = round_up (2 ^ 7) (unat n)" "unat ((n + 255) AND NOT 255) = round_up (2 ^ 8) (unat n)"
    "unat ((n + 511) AND NOT 511) = round_up (2 ^ 9) (unat n)" "unat ((n + 1023) AND NOT 1023) = round_up (2 ^ 10) (unat n)"
    by (rule unat_round [OF assms(2)]; simp add: mask_eq_exp_minus_1)+
  have b: "round_up (2 ^ k) (unat n) div 2 ^ k + d < 100"
    using assms(2,3) round_up_bounds(2) [of "2 ^ k" "unat n"] by (auto simp: grain_def split: if_splits)
  have lt: "n < numeral w \<longleftrightarrow> unat n < unat (numeral w :: u32)" for w by (simp add: word_less_nat_alt)
  have g8: "8 \<le> round_up 8 (unat n)" using round_up_bounds(1) [of 8 "unat n"] round_up_bounds(3) [of 8 "unat n"] n
    by (auto dest: dvd_imp_le)
  show "unat (snd (zoneindex n)) = round_up (2 ^ k) (unat n)"
    using assms(2,3) r by (auto simp: zoneindex_def grain_def lt Let_def split: if_splits)
  show "unat (fst (zoneindex n)) = round_up (2 ^ k) (unat n) div 2 ^ k + d - 1"
    using assms(2,3) r b g8
    by (auto simp: zoneindex_def grain_def lt Let_def unat_word_ariths unat_div_distrib unat_sub_if' split: if_splits)
qed

text \<open>The chunk size of each zone index.\<close>

definition class_size :: "nat \<Rightarrow> nat" where
  "class_size i =
     (if i < 16 then 8 * (i + 1) else if i < 24 then 16 * (i - 7) else if i < 32 then 32 * (i - 15)
      else if i < 40 then 64 * (i - 23) else if i < 48 then 128 * (i - 31) else if i < 56 then 256 * (i - 39)
      else if i < 64 then 512 * (i - 47) else 1024 * (i - 55))"

lemma zoneindex_class:
  assumes "0 < n" "unat n < 16384"
  shows "unat (snd (zoneindex n)) = class_size (unat (fst (zoneindex n)))"
    "unat (fst (zoneindex n)) < 72" "8 dvd unat (snd (zoneindex n))"
    "unat n \<le> unat (snd (zoneindex n))" "unat (snd (zoneindex n)) - unat n \<le> max 7 (unat n div 8)"
proof -
  obtain k d where g: "grain (unat n) = (k, d)" by fastforce
  obtain q where q: "round_up (2 ^ k) (unat n) = 2 ^ k * q" using round_up_bounds(3) by blast
  have b: "unat n \<le> 2 ^ k * q" "2 ^ k * q < unat n + 2 ^ k"
    using round_up_bounds(1,2) [of "2 ^ k" "unat n"] by (simp_all add: q)
  have n: "0 < unat n" using assms(1) by (simp add: word_less_nat_alt)
  have v: "unat (snd (zoneindex n)) = 2 ^ k * q" "unat (fst (zoneindex n)) = q + d - 1"
    using zoneindex_nat [OF assms g] by (simp_all add: q)
  consider "k = 3" "d = 0" "1 \<le> q" "q \<le> 16" | "k = 4" "d = 8" "8 \<le> q" "q \<le> 16" "128 \<le> unat n"
    | "k = 5" "d = 16" "8 \<le> q" "q \<le> 16" "256 \<le> unat n" | "k = 6" "d = 24" "8 \<le> q" "q \<le> 16" "512 \<le> unat n"
    | "k = 7" "d = 32" "8 \<le> q" "q \<le> 16" "1024 \<le> unat n" | "k = 8" "d = 40" "8 \<le> q" "q \<le> 16" "2048 \<le> unat n"
    | "k = 9" "d = 48" "8 \<le> q" "q \<le> 16" "4096 \<le> unat n" | "k = 10" "d = 56" "8 \<le> q" "q \<le> 16" "8192 \<le> unat n"
    using g b n assms(2) by (auto simp: grain_def split: if_splits)
  note cs = this
  show "unat (snd (zoneindex n)) = class_size (unat (fst (zoneindex n)))"
    unfolding v by (rule cs) (simp_all add: class_size_def)
  show "unat (fst (zoneindex n)) < 72" unfolding v by (rule cs) simp_all
  show "8 dvd unat (snd (zoneindex n))" unfolding v by (rule cs) simp_all
  show "unat n \<le> unat (snd (zoneindex n))" unfolding v by (rule b(1))
  show "unat (snd (zoneindex n)) - unat n \<le> max 7 (unat n div 8)"
    unfolding v using b(2) by - (rule cs; simp)
qed

section \<open>The chunks of a zone\<close>

fun chunk_list :: "(nat \<Rightarrow> nat option option) \<Rightarrow> nat option \<Rightarrow> nat list \<Rightarrow> bool" where
  "chunk_list C a [] \<longleftrightarrow> a = None"
| "chunk_list C a (c # cs) \<longleftrightarrow> a = Some c \<and> (\<exists>nx. C c = Some nx \<and> chunk_list C nx cs)"

lemma chunk_list_frame: "chunk_list C a cs \<Longrightarrow> x \<notin> set cs \<Longrightarrow> chunk_list (C(x := v)) a cs"
  by (induction C a cs rule: chunk_list.induct) auto

definition chunk_at :: "slab_zone \<Rightarrow> nat \<Rightarrow> nat" where
  "chunk_at zn i = z_baseptr zn + i * unat (z_chunksize zn)"

text \<open>The zone at \<open>z\<close> with header \<open>zn\<close> and free chunks \<open>fl\<close>: the chunks up to \<open>z_uindex\<close> have been handed out
  before, and those of them that are not in the free list are in use.\<close>

definition zone_ok :: "heap \<Rightarrow> nat \<Rightarrow> slab_zone \<Rightarrow> nat list \<Rightarrow> bool" where
  "zone_ok H z zn fl \<longleftrightarrow>
     zones H z = Some zn \<and> z_magic zn = ZALLOC_SLAB_MAGIC \<and> 0 < z_chunksize zn \<and>
     0 \<le> z_uindex zn \<and> z_uindex zn < z_nmax zn \<and>
     chunk_list (chunks H) (z_freechunk zn) fl \<and> distinct fl \<and>
     set fl \<subseteq> chunk_at zn ` {..nat (z_uindex zn)} \<and>
     z_nfree zn = int (length fl) + (z_nmax zn - 1 - z_uindex zn)"

definition live :: "slab_zone \<Rightarrow> nat list \<Rightarrow> nat set" where
  "live zn fl = chunk_at zn ` {..nat (z_uindex zn)} - set fl"

lemma chunk_at_inj: "0 < z_chunksize zn \<Longrightarrow> chunk_at zn i = chunk_at zn j \<longleftrightarrow> i = j"
  by (auto simp: chunk_at_def word_less_nat_alt)

lemma chunk_at_disjoint:
  assumes "i \<noteq> j"
  shows "{chunk_at zn i..<chunk_at zn i + unat (z_chunksize zn)} \<inter>
    {chunk_at zn j..<chunk_at zn j + unat (z_chunksize zn)} = {}"
proof -
  have *: "chunk_at zn i + unat (z_chunksize zn) \<le> chunk_at zn j" if "i < j" for i j
  proof -
    have "Suc i * unat (z_chunksize zn) \<le> j * unat (z_chunksize zn)" using that by (intro mult_le_mono1) simp
    then show ?thesis by (simp add: chunk_at_def)
  qed
  from assms consider "i < j" | "j < i" by linarith
  then show ?thesis by cases (use * in fastforce)+
qed

lemma chunk_at_update [simp]:
  "chunk_at (zn\<lparr>z_nfree := a\<rparr>) = chunk_at zn" "chunk_at (zn\<lparr>z_next := b\<rparr>) = chunk_at zn"
  "chunk_at (zn\<lparr>z_uindex := c\<rparr>) = chunk_at zn" "chunk_at (zn\<lparr>z_freechunk := d\<rparr>) = chunk_at zn"
  by (auto simp: chunk_at_def)

lemma add_used_simps [simp]:
  "zones (add_used n H) = zones H" "chunks (add_used n H) = chunks H" "zone_array (add_used n H) = zone_array H"
  "heap_sem (add_used n H) = heap_sem H" "down_flag (add_used n H) = down_flag H" "memusage (add_used n H) = memusage H"
  "page_list (add_used n H) = page_list H" "pages (add_used n H) = pages H" "used_mem (add_used n H) = used_mem H + n"
  "heap_start (add_used n H) = heap_start H"
  by (simp_all add: add_used_def Let_def)

lemma z_uindex_inc: 
  "z_uindex_update (\<lambda>u. u + 1) y = y\<lparr>z_uindex := z_uindex y + 1\<rparr>"
  by (cases y) simp

lemma kmalloc_zone_fresh:
  assumes False: "z_uindex zn + 1 \<noteq> z_nmax zn" and free: "0 < z_nfree zn" and z: "zones H z = Some zn" and sz: "z_chunksize zn = sz" 
  shows "\<exists>H'. kmalloc_zone zi z sz H = Some (z_baseptr zn + nat (z_uindex zn + 1) * unat sz, H') \<and>
      zones H' = (zones H)(z \<mapsto> zn\<lparr>z_nfree := z_nfree zn - 1,
        z_next := (if z_nfree zn = 1 then None else z_next zn), z_uindex := z_uindex zn + 1\<rparr>) \<and>
      chunks H' = chunks H \<and>
      zone_array H' = (if z_nfree zn = 1 then (zone_array H)(zi := z_next zn) else zone_array H) \<and>
      heap_sem H' = heap_sem H \<and>
      down_flag H' = down_flag H"
  using assms
  apply (cases "z_nfree zn = 1")
   apply (simp add: kmalloc_zone_def cos_assert_def upd_zone_def Let_def)
   apply (simp only: z_uindex_inc)
   apply simp
  apply (simp add: kmalloc_zone_def cos_assert_def upd_zone_def Let_def)
  apply (simp only: z_uindex_inc)
  apply simp
  done

lemma kmalloc_zone_reuse:
  assumes "z_uindex zn + 1 = z_nmax zn" "0 < z_nfree zn" "zones H z = Some zn" "z_chunksize zn = sz"
    "z_freechunk zn = Some c" "chunks H c = Some c_next"
  shows "\<exists>H'. kmalloc_zone zi z sz H = Some (c, H') \<and>
      zones H' = (zones H)(z \<mapsto> zn\<lparr>z_nfree := z_nfree zn - 1,
        z_next := (if z_nfree zn = 1 then None else z_next zn), z_freechunk := c_next\<rparr>) \<and>
      chunks H' = chunks H \<and>
      zone_array H' = (if z_nfree zn = 1 then (zone_array H)(zi := z_next zn) else zone_array H) \<and>
      heap_sem H' = heap_sem H \<and> down_flag H' = down_flag H"
  using assms by (cases "z_nfree zn = 1") (simp_all add: kmalloc_zone_def cos_assert_def upd_zone_def Let_def)

lemma kmalloc_zone_ok:
  assumes ok: "zone_ok H z zn fl" and free: "0 < z_nfree zn" and sz: "z_chunksize zn = sz"
  shows "\<exists>i c H' zn' fl'. kmalloc_zone zi z sz H = Some (c, H') \<and> zone_ok H' z zn' fl' \<and>
    c = chunk_at zn i \<and> int i < z_nmax zn \<and> c \<notin> live zn fl \<and> live zn' fl' = insert c (live zn fl) \<and>
    z_chunksize zn' = sz \<and> z_baseptr zn' = z_baseptr zn \<and> z_nfree zn' = z_nfree zn - 1 \<and>
    zone_array H' = (if z_nfree zn = 1 then (zone_array H)(zi := z_next zn) else zone_array H) \<and>
    heap_sem H' = heap_sem H \<and> down_flag H' = down_flag H"
proof -
  have z: "zones H z = Some zn" and u: "0 \<le> z_uindex zn" "z_uindex zn < z_nmax zn"
    and fl: "chunk_list (chunks H) (z_freechunk zn) fl" "distinct fl" "set fl \<subseteq> chunk_at zn ` {..nat (z_uindex zn)}"
    and nfree: "z_nfree zn = int (length fl) + (z_nmax zn - 1 - z_uindex zn)" and pos: "0 < z_chunksize zn"
    using ok by (simp_all add: zone_ok_def)
  define nx where "nx = (if z_nfree zn = 1 then None else z_next zn)"
  define A where "A = (if z_nfree zn = 1 then (zone_array H)(zi := z_next zn) else zone_array H)"
  show ?thesis
  proof (cases "z_uindex zn + 1 = z_nmax zn")
    case False
    define i where "i = nat (z_uindex zn + 1)"
    have at: "{..nat (z_uindex zn + 1)} = insert i {..nat (z_uindex zn)}" "i \<notin> {..nat (z_uindex zn)}"
      using u by (auto simp: i_def)
    let ?zn = "zn\<lparr>z_nfree := z_nfree zn - 1, z_next := nx, z_uindex := z_uindex zn + 1\<rparr>"
    have new: "chunk_at zn i \<notin> chunk_at zn ` {..nat (z_uindex zn)}" using at(2) by (auto simp: chunk_at_inj [OF pos])
    obtain H' where H': "kmalloc_zone zi z sz H = Some (chunk_at zn i, H')" "zones H' = (zones H)(z \<mapsto> ?zn)"
      "chunks H' = chunks H" "zone_array H' = A" "heap_sem H' = heap_sem H" "down_flag H' = down_flag H"
      using kmalloc_zone_fresh [OF False free z sz] unfolding chunk_at_def i_def sz nx_def A_def by blast
    have "set fl \<subseteq> chunk_at zn ` {..nat (z_uindex zn + 1)}" unfolding at(1) using fl(3) by blast
    then have "zone_ok H' z ?zn fl" using ok u nfree False H'(2,3) by (simp add: zone_ok_def)
    moreover have "live ?zn fl = insert (chunk_at zn i) (live zn fl)"
      using new fl(3) by (auto simp: live_def at(1))
    moreover have "int i < z_nmax zn" using u False by (simp add: i_def)
    ultimately show ?thesis using H' new sz
      by (intro exI [of _ i] exI [of _ "chunk_at zn i"] exI [of _ H'] exI [of _ ?zn] exI [of _ fl]) (simp add: live_def A_def)
  next
    case True
    obtain c cs where fls: "fl = c # cs" using nfree free True by (cases fl) auto
    then obtain c_next where c: "z_freechunk zn = Some c" "chunks H c = Some c_next" "chunk_list (chunks H) c_next cs"
      using fl(1) by auto
    obtain i where i: "i \<le> nat (z_uindex zn)" "c = chunk_at zn i" using fl(3) fls by auto
    let ?zn = "zn\<lparr>z_nfree := z_nfree zn - 1, z_next := nx, z_freechunk := c_next\<rparr>"
    obtain H' where H': "kmalloc_zone zi z sz H = Some (c, H')" "zones H' = (zones H)(z \<mapsto> ?zn)"
      "chunks H' = chunks H" "zone_array H' = A" "heap_sem H' = heap_sem H" "down_flag H' = down_flag H"
      using kmalloc_zone_reuse [OF True free z sz c(1,2)] unfolding nx_def A_def by blast
    have "zone_ok H' z ?zn cs" using ok nfree fls c(3) H'(2,3) by (simp add: zone_ok_def)
    moreover have "live ?zn cs = insert c (live zn fl)" "c \<notin> live zn fl"
      using fl(2,3) fls i by (auto simp: live_def)
    moreover have "int i < z_nmax zn" using u i by linarith
    ultimately show ?thesis using H' i sz
      by (intro exI [of _ i] exI [of _ c] exI [of _ H'] exI [of _ ?zn] exI [of _ cs]) (simp add: A_def)
  qed
qed

lemma lock_heap_ok:
  assumes "down_flag H \<longrightarrow> 0 < heap_sem H"
  shows "lock_heap H = Some (if down_flag H then H\<lparr>heap_sem := heap_sem H - 1\<rparr> else H)"
  using assms by (simp add: lock_heap_def word_gt_0)

lemma zone_ok_sem [simp]: "zone_ok (H\<lparr>heap_sem := s\<rparr>) z zn fl = zone_ok H z zn fl"
  by (simp add: zone_ok_def)

lemma unlock_simps [simp]:
  "zones (unlock_heap H) = zones H" "chunks (unlock_heap H) = chunks H" "zone_array (unlock_heap H) = zone_array H"
  "down_flag (unlock_heap H) = down_flag H" "used_mem (unlock_heap H) = used_mem H"
  "heap_sem (unlock_heap H) = (if down_flag H then heap_sem H + 1 else heap_sem H)"
  "zone_ok (unlock_heap H) z zn fl = zone_ok H z zn fl"
  by (simp_all add: unlock_heap_def zone_ok_def)

lemma heap_locked:
  assumes "down_flag H \<longrightarrow> 0 < heap_sem H"
  shows "\<exists>H1. lock_heap H = Some H1 \<and> zones H1 = zones H \<and> chunks H1 = chunks H \<and> zone_array H1 = zone_array H \<and>
    used_mem H1 = used_mem H \<and>
    (\<forall>H'. heap_sem H' = heap_sem H1 \<longrightarrow> down_flag H' = down_flag H1 \<longrightarrow> heap_sem (unlock_heap H') = heap_sem H)"
  by (cases "down_flag H") (simp_all add: lock_heap_ok [OF assms])

lemma zone_ok_cong: "zones H1 = zones H \<Longrightarrow> chunks H1 = chunks H \<Longrightarrow> zone_ok H1 z zn fl = zone_ok H z zn fl"
  by (simp add: zone_ok_def)

lemma kmalloc_small:
  assumes lock: "down_flag H \<longrightarrow> 0 < heap_sem H" and n: "0 < n" "n < zone_limit H"
    and zi: "zoneindex n = (zi, sz)" "sint zi < NZONES" and z: "zone_array H (unat zi) = Some z"
    and ok: "zone_ok H z zn fl" "z_chunksize zn = sz" "0 < z_nfree zn"
  shows "\<exists>i c H' zn' fl'. kmalloc n H = Some (Some c, H') \<and> zone_ok H' z zn' fl' \<and>
    c = chunk_at zn i \<and> int i < z_nmax zn \<and> c \<notin> live zn fl \<and> live zn' fl' = insert c (live zn fl) \<and>
    z_chunksize zn' = sz \<and> z_baseptr zn' = z_baseptr zn \<and> z_nfree zn' = z_nfree zn - 1 \<and>
    zone_array H' = (if z_nfree zn = 1 then (zone_array H)(unat zi := z_next zn) else zone_array H) \<and>
    heap_sem H' = heap_sem H"
proof -
  have n0: "n \<noteq> 0" "\<not> zone_limit H \<le> n" using n by auto
  obtain H1 where H1: "lock_heap H = Some H1" "zones H1 = zones H" "chunks H1 = chunks H" "zone_array H1 = zone_array H"
    "\<forall>H'. heap_sem H' = heap_sem H1 \<longrightarrow> down_flag H' = down_flag H1 \<longrightarrow> heap_sem (unlock_heap H') = heap_sem H"
    using heap_locked [OF lock] by blast
  have ok1: "zone_ok H1 z zn fl" using ok(1) zone_ok_cong [OF H1(2,3)] by simp
  obtain i c H' zn' fl' where *: "kmalloc_zone (unat zi) z sz H1 = Some (c, H')" "zone_ok H' z zn' fl'"
    "c = chunk_at zn i" "int i < z_nmax zn" "c \<notin> live zn fl" "live zn' fl' = insert c (live zn fl)"
    "z_chunksize zn' = sz" "z_baseptr zn' = z_baseptr zn" "z_nfree zn' = z_nfree zn - 1"
    "zone_array H' = (if z_nfree zn = 1 then (zone_array H1)(unat zi := z_next zn) else zone_array H1)"
    "heap_sem H' = heap_sem H1" "down_flag H' = down_flag H1"
    using kmalloc_zone_ok [OF ok1 ok(3,2), of "unat zi"] by blast
  have "kmalloc n H = Some (Some c, unlock_heap H')"
    using n0 H1(1,4) zi z *(1) by (simp add: kmalloc_def cos_assert_def)
  moreover have "zone_ok (unlock_heap H') z zn' fl'" using *(2) by simp
  moreover have "heap_sem (unlock_heap H') = heap_sem H" by (rule H1(5) [rule_format, OF *(11,12)])
  moreover have "zone_array (unlock_heap H') = (if z_nfree zn = 1 then (zone_array H)(unat zi := z_next zn) else zone_array H)"
    using *(10) H1(4) by simp
  ultimately show ?thesis using *(3-9) by blast
qed

lemma kfree_small:
  assumes lock: "down_flag H \<longrightarrow> 0 < heap_sem H"
    and kup: "memusage H (btokup (page_base c) H) = Some kup" "mu_type kup = PAGE_TYPE_SMALL"
      "page_base c - mu_size kup * PAGE_SIZE = z"
    and ok: "zone_ok H z zn fl" and c: "c \<in> live zn fl" and stay: "z_nfree zn + 1 < z_nmax zn"
  shows "\<exists>H' zn'. kfree (Some c) H = Some H' \<and> zone_ok H' z zn' (c # fl) \<and>
    live zn' (c # fl) = live zn fl - {c} \<and> z_nfree zn' = z_nfree zn + 1 \<and>
    zone_array H' = (if z_nfree zn = 0 then (zone_array H)(z_zoneindex zn \<mapsto> z) else zone_array H) \<and>
    used_mem H' = used_mem H - z_chunksize zn \<and> heap_sem H' = heap_sem H"
proof -
  obtain H1 where H1: "lock_heap H = Some H1" "zones H1 = zones H" "chunks H1 = chunks H" "zone_array H1 = zone_array H"
    "used_mem H1 = used_mem H"
    "\<forall>H'. heap_sem H' = heap_sem H1 \<longrightarrow> down_flag H' = down_flag H1 \<longrightarrow> heap_sem (unlock_heap H') = heap_sem H"
    using heap_locked [OF lock] by blast
  have z: "zones H1 z = Some zn" "z_magic zn = ZALLOC_SLAB_MAGIC" using ok H1(2) by (simp_all add: zone_ok_def)
  have fl: "c \<notin> set fl" "c \<in> chunk_at zn ` {..nat (z_uindex zn)}" using c by (auto simp: live_def)
  define zn1 where "zn1 = zn\<lparr>z_freechunk := Some c, z_nfree := z_nfree zn + 1\<rparr>"
  define H2 where "H2 = H1\<lparr>chunks := (chunks H1)(c \<mapsto> z_freechunk zn), used_mem := used_mem H1 - z_chunksize zn,
    zones := (zones H1)(z \<mapsto> zn1)\<rparr>"
  define zn' where "zn' = (if z_nfree zn = 0 then zn1\<lparr>z_next := zone_array H (z_zoneindex zn)\<rparr> else zn1)"
  define H' where "H' = (if z_nfree zn = 0 then H2\<lparr>zones := (zones H2)(z \<mapsto> zn'), zone_array := (zone_array H)(z_zoneindex zn \<mapsto> z)\<rparr> else H2)"
  have H': "zones H' = (zones H)(z \<mapsto> zn')" "chunks H' = (chunks H)(c \<mapsto> z_freechunk zn)"
    "used_mem H' = used_mem H - z_chunksize zn" "heap_sem H' = heap_sem H1" "down_flag H' = down_flag H1"
    "zone_array H' = (if z_nfree zn = 0 then (zone_array H)(z_zoneindex zn \<mapsto> z) else zone_array H)"
    using H1 by (auto simp: H'_def H2_def zn'_def)
  have zn': "z_nfree zn' = z_nfree zn + 1" "z_nmax zn' = z_nmax zn" "z_freechunk zn' = Some c" "z_uindex zn' = z_uindex zn"
    "z_magic zn' = z_magic zn" "z_chunksize zn' = z_chunksize zn" "chunk_at zn' = chunk_at zn"
    by (auto simp: zn'_def zn1_def)
  have "kfree (Some c) H = Some (unlock_heap H')"
    using H1(1,4) kup z stay
    by (cases "z_nfree zn = 0")
      (simp_all add: kfree_def Let_def cos_assert_def upd_zone_def zn'_def H'_def H2_def zn1_def)
  moreover have "zone_ok (unlock_heap H') z zn' (c # fl)"
    using ok fl by (auto simp: zone_ok_def H' zn' chunk_list_frame)
  moreover have "live zn' (c # fl) = live zn fl - {c}" by (auto simp: live_def zn')
  moreover have "heap_sem (unlock_heap H') = heap_sem H" by (rule H1(6) [rule_format, OF H'(4,5)])
  ultimately show ?thesis using H'(3,6) zn'(1) by (intro exI [of _ "unlock_heap H'"] exI [of _ zn']) simp
qed

end
