(* ===== verification/Cos_Slab_Props.thy ===== *)
theory Cos_Slab_Props
  imports Cos_Slab_Correct
begin

text \<open>
  New zones and large blocks, and the properties of the memory allocator.
\<close>

section \<open>New zones\<close>

text \<open>Behind the header of a zone there is room for the chunks, for every size class.\<close>

definition class_room :: "nat \<Rightarrow> bool" where
  "class_room i \<longleftrightarrow> (let off = unat (zone_offset (of_nat (class_size i))) in
     36 \<le> off \<and> off \<le> 36 + class_size i \<and> class_size i \<le> 16384 \<and> 8 \<le> class_size i)"

lemma class_room_all: "list_all class_room [0..<72]"
  by (simp add: upt_conv_Cons class_room_def class_size_def zone_offset_def SLAB_ZONE_BYTES_def)

lemma class_room: "i < 72 \<Longrightarrow> class_room i"
  using class_room_all by (simp add: list_all_iff)

lemma class_offsetD:
  assumes "i < 72"
  shows "36 \<le> unat (zone_offset (of_nat (class_size i)))" "unat (zone_offset (of_nat (class_size i))) \<le> 36 + class_size i"
    "class_size i \<le> 16384" "8 \<le> class_size i"
  using class_room [OF assms] by (simp_all add: class_room_def Let_def)

text \<open>The configuration \<open>system_heap_init\<close> leaves.\<close>

definition heap_cfg :: "heap \<Rightarrow> bool" where
  "heap_cfg H \<longleftrightarrow> (\<exists>j\<le>2. zone_size H = 32768 * 2 ^ j) \<and> unat (zone_limit H) = min 16384 (unat (zone_size H) div 4) \<and>
     zone_page_cnt H = unat (zone_size H) div PAGE_SIZE"

lemma heap_cfgD:
  assumes "heap_cfg H"
  shows "unat (zone_size H) \<in> {32768, 65536, 131072}" "unat (zone_limit H) \<le> 16384" "unat (zone_limit H) * 4 \<le> unat (zone_size H)"
    "zone_page_cnt H * PAGE_SIZE = unat (zone_size H)" "0 < zone_page_cnt H"
proof -
  obtain j :: nat where j: "j \<le> 2" "zone_size H = 32768 * 2 ^ j" using assms by (auto simp: heap_cfg_def)
  then have "j = 0 \<or> j = 1 \<or> j = 2" by auto
  then show 1: "unat (zone_size H) \<in> {32768, 65536, 131072}" using j(2) by auto
  show "unat (zone_limit H) \<le> 16384" "unat (zone_limit H) * 4 \<le> unat (zone_size H)"
    using assms by (auto simp: heap_cfg_def)
  show "zone_page_cnt H * PAGE_SIZE = unat (zone_size H)" "0 < zone_page_cnt H"
    using assms 1 by (auto simp: heap_cfg_def PAGE_SIZE_def)
qed

lemma lock_unlock_same: "lock_heap H = Some H1 \<Longrightarrow> unlock_heap H1 = H"
  by (cases H) (auto simp: lock_heap_def unlock_heap_def split: if_splits)

lemma usage_small_ok:
  assumes "\<forall>j<n. memusage H (i + j) \<noteq> None"
  shows "\<exists>M. usage_small n i H = Some (H\<lparr>memusage := M\<rparr>) \<and>
    (\<forall>j<n. M (i + j) = Some \<lparr>mu_type = PAGE_TYPE_SMALL, mu_size = j\<rparr>) \<and>
    (\<forall>a. (\<forall>j<n. a \<noteq> i + j) \<longrightarrow> M a = memusage H a)"
  using assms
proof (induction n)
  case 0
  show ?case by (rule exI [of _ "memusage H"]) simp
next
  case (Suc n)
  then obtain M where M: "usage_small n i H = Some (H\<lparr>memusage := M\<rparr>)"
    "\<forall>j<n. M (i + j) = Some \<lparr>mu_type = PAGE_TYPE_SMALL, mu_size = j\<rparr>"
    "\<forall>a. (\<forall>j<n. a \<noteq> i + j) \<longrightarrow> M a = memusage H a" by auto
  have "M (i + n) = memusage H (i + n)" using M(3) by auto
  then obtain y where "M (i + n) = Some y" using Suc.prems by auto
  then show ?case
    using M by (intro exI [of _ "M(i + n \<mapsto> \<lparr>mu_type = PAGE_TYPE_SMALL, mu_size = n\<rparr>)"])
      (auto simp: set_usage_def less_Suc_eq fun_upd_def)
qed

text \<open>Every page of the zone at \<open>z\<close> leads to its header.\<close>

definition zone_mapped :: "heap \<Rightarrow> nat \<Rightarrow> bool" where
  "zone_mapped H z \<longleftrightarrow>
     (\<forall>a. z \<le> a \<and> a < z + unat (zone_size H) \<longrightarrow>
       (\<exists>kup. memusage H (btokup (page_base a) H) = Some kup \<and> mu_type kup = PAGE_TYPE_SMALL \<and>
         page_base a - mu_size kup * PAGE_SIZE = z))"

lemma page_base_offset:
  assumes "z mod PAGE_SIZE = 0" "z \<le> a"
  obtains j where "page_base a = z + j * PAGE_SIZE" "j * PAGE_SIZE \<le> a - z"
proof -
  obtain q where q: "z = q * PAGE_SIZE" using assms(1) by (metis mod_0_imp_dvd dvd_div_mult_self)
  obtain d where d: "a = q * PAGE_SIZE + d" using assms(2) q le_Suc_ex by blast
  have "page_base a = z + d div PAGE_SIZE * PAGE_SIZE" by (simp add: page_base_def d q add_mult_distrib)
  moreover have "d div PAGE_SIZE * PAGE_SIZE \<le> a - z" by (simp add: d q)
  ultimately show ?thesis by (rule that)
qed

lemma zone_mappedI:
  assumes z: "z mod PAGE_SIZE = 0" "heap_start H mod PAGE_SIZE = 0" "heap_start H \<le> z"
    and n: "n * PAGE_SIZE = unat (zone_size H)"
    and M: "\<forall>j<n. memusage H (btokup z H + j) = Some \<lparr>mu_type = PAGE_TYPE_SMALL, mu_size = j\<rparr>"
  shows "zone_mapped H z"
  unfolding zone_mapped_def
proof (intro allI impI)
  fix a assume a: "z \<le> a \<and> a < z + unat (zone_size H)"
  obtain j where j: "page_base a = z + j * PAGE_SIZE" "j * PAGE_SIZE \<le> a - z"
    using page_base_offset [OF z(1)] a by blast
  have "j * PAGE_SIZE < n * PAGE_SIZE" using j(2) a n by linarith
  then have "j < n" by simp
  moreover have "btokup (page_base a) H = btokup z H + j"
  proof -
    have "z + j * PAGE_SIZE - heap_start H = (z - heap_start H) + j * PAGE_SIZE" using z(3) by simp
    then show ?thesis by (simp add: btokup_def j(1))
  qed
  ultimately show "\<exists>kup. memusage H (btokup (page_base a) H) = Some kup \<and> mu_type kup = PAGE_TYPE_SMALL \<and>
    page_base a - mu_size kup * PAGE_SIZE = z"
    using M j(1) by simp
qed

lemma zone_setup_ok:
  assumes zi: "zi < 72" "unat sz = class_size zi" and room: "unat sz * 3 + 36 \<le> unat (zone_size H)"
  shows "\<exists>zn H'. zone_setup zi z sz H = (chunk_at zn 0, H') \<and> zone_ok H' z zn [] \<and> live zn [] = {chunk_at zn 0} \<and>
    z_chunksize zn = sz \<and> z_zoneindex zn = zi \<and> 0 < z_nfree zn \<and> z_next zn = zone_array H zi \<and>
    (\<forall>i. int i < z_nmax zn \<longrightarrow> z + 36 \<le> chunk_at zn i \<and> chunk_at zn i + unat sz \<le> z + unat (zone_size H)) \<and>
    H' = add_used sz (H\<lparr>zones := (zones H)(z \<mapsto> zn), zone_array := (zone_array H)(zi \<mapsto> z)\<rparr>)"
proof -
  have sz: "sz = of_nat (class_size zi)" by (simp flip: zi(2))
  have off: "36 \<le> unat (zone_offset sz)" "unat (zone_offset sz) \<le> 36 + unat sz" and pos: "8 \<le> unat sz"
    using class_offsetD [OF zi(1)] zi(2) by (simp_all add: sz)
  define off where "off = zone_offset sz"
  define m where "m = (unat (zone_size H) - unat off) div unat sz"
  have le: "off \<le> zone_size H" using off room by (simp add: off_def word_le_nat_alt)
  have m: "unat ((zone_size H - off) div sz) = m" using le by (simp add: m_def unat_div_distrib unat_sub)
  have "2 * unat sz \<le> unat (zone_size H) - unat off" using off room by (simp add: off_def)
  then have "2 \<le> m" using pos by (simp add: m_def less_eq_div_iff_mult_less_eq)
  define zn where "zn = \<lparr>z_magic = ZALLOC_SLAB_MAGIC, z_nfree = int m - 1, z_nmax = int m, z_next = zone_array H zi,
    z_baseptr = z + unat off, z_uindex = 0, z_chunksize = sz, z_zoneindex = zi, z_freechunk = None\<rparr>"
  have chunk: "chunk_at zn i = z + unat off + i * unat sz" for i by (simp add: chunk_at_def zn_def)
  have "z + 36 \<le> chunk_at zn i \<and> chunk_at zn i + unat sz \<le> z + unat (zone_size H)" if "i < m" for i
  proof -
    have "Suc i * unat sz \<le> m * unat sz" using that by (intro mult_le_mono1) simp
    also have "\<dots> \<le> unat (zone_size H) - unat off" by (simp add: m_def)
    finally show ?thesis using off(1) le by (simp add: chunk off_def word_le_nat_alt)
  qed
  moreover have "zone_setup zi z sz H = (chunk_at zn 0, add_used sz (H\<lparr>zones := (zones H)(z \<mapsto> zn), zone_array := (zone_array H)(zi \<mapsto> z)\<rparr>))"
    by (simp add: zone_setup_def Let_def zn_def chunk_at_def m [symmetric] flip: off_def)
  moreover have "zone_ok (add_used sz (H\<lparr>zones := (zones H)(z \<mapsto> zn), zone_array := (zone_array H)(zi \<mapsto> z)\<rparr>)) z zn []"
    using pos \<open>2 \<le> m\<close> by (simp add: zone_ok_def zn_def word_less_nat_alt)
  moreover have "live zn [] = {chunk_at zn 0}" by (simp add: live_def zn_def)
  ultimately show ?thesis using \<open>2 \<le> m\<close> by (intro exI [of _ zn] exI) (simp add: zn_def)
qed

text \<open>The fields the slab allocator does not share with the page allocator.\<close>

lemma page_fields:
  assumes "H\<lparr>pages := pages H', page_list := page_list H'\<rparr> = H'"
  shows "zones H' = zones H" "chunks H' = chunks H" "zone_array H' = zone_array H" "zone_size H' = zone_size H"
    "memusage H' = memusage H" "heap_start H' = heap_start H" "zone_page_cnt H' = zone_page_cnt H"
    "used_mem H' = used_mem H" "heap_sem H' = heap_sem H" "down_flag H' = down_flag H"
  by (subst assms [symmetric]; simp)+

lemma page_inv_cong:
  "pages H' = pages H \<Longrightarrow> page_list H' = page_list H \<Longrightarrow> heap_sem H' = heap_sem H \<Longrightarrow> down_flag H' = down_flag H \<Longrightarrow>
    page_inv H' xs = page_inv H xs"
  by (simp add: page_inv_def)

lemma zoneindex_in_range:
  assumes "0 < n" "unat n < 16384"
  shows "sint (fst (zoneindex n)) < NZONES"
proof -
  have z: "unat (fst (zoneindex n)) < 72" by (rule zoneindex_class(2) [OF assms])
  then have "int (unat (fst (zoneindex n))) < int 72" by (simp only: of_nat_less_iff)
  moreover have "sint (fst (zoneindex n)) = int (unat (fst (zoneindex n)))" using z by (intro sint_small32) simp
  ultimately show ?thesis by (simp only: NZONES_def of_nat_numeral)
qed

lemma kmalloc_fresh:
  assumes inv: "page_inv H xs" and cfg: "heap_cfg H" and n: "0 < n" "n < zone_limit H"
    and zi: "zoneindex n = (zi, sz)" "zone_array H (unat zi) = None" "zone_free H = None"
    and z: "fst (alloc_runs (zone_page_cnt H) xs) = Some z"
    and start: "heap_start H mod PAGE_SIZE = 0" "heap_start H \<le> z"
    and mem: "\<forall>j<zone_page_cnt H. memusage H (btokup z H + j) \<noteq> None"
  shows "\<exists>zn H'. kmalloc n H = Some (Some (chunk_at zn 0), H') \<and> zone_ok H' z zn [] \<and> live zn [] = {chunk_at zn 0} \<and>
    z_chunksize zn = sz \<and> zone_array H' (unat zi) = Some z \<and> zone_mapped H' z \<and>
    (\<forall>i. int i < z_nmax zn \<longrightarrow> z + 36 \<le> chunk_at zn i \<and> chunk_at zn i + unat sz \<le> z + unat (zone_size H)) \<and>
    page_inv H' (snd (alloc_runs (zone_page_cnt H) xs)) \<and> heap_sem H' = heap_sem H"
proof -
  define k where "k = zone_page_cnt H"
  note cfgD = heap_cfgD [OF cfg]
  have n0: "n \<noteq> 0" "\<not> zone_limit H \<le> n" using n by auto
  have nlim: "unat n < unat (zone_limit H)" using n(2) by (simp add: word_less_nat_alt)
  then have n14: "unat n < 16384" using cfgD(2) by simp
  have idx: "unat zi < 72" "unat sz = class_size (unat zi)" "unat sz - unat n \<le> max 7 (unat n div 8)"
    using zoneindex_class [OF n(1) n14] zi(1) by simp_all
  have zi72: "sint zi < NZONES" using zoneindex_in_range [OF n(1) n14] zi(1) by simp
  have room: "unat sz * 3 + 36 \<le> unat (zone_size H)" using idx(3) nlim cfgD(1,3) by (auto simp: max_def split: if_splits)
  have mod: "z mod PAGE_SIZE = 0" and ok: "runs_ok xs"
    using inv z alloc_runs_some [of k xs z] runs_ok_mod by (auto simp: page_inv_def k_def)
  have lk: "down_flag H \<longrightarrow> 0 < heap_sem H" using inv by (simp add: page_inv_def)
  obtain H1 where H1: "lock_heap H = Some H1" "zone_array H1 = zone_array H" using heap_locked [OF lk] by blast
  have un1: "unlock_heap H1 = H" by (rule lock_unlock_same [OF H1(1)])
  have zf: "zone_free H1 = None" using zi(3) H1(1) by (auto simp: lock_heap_def split: if_splits)
  obtain H2 where H2: "page_alloc k H = Some (Some z, H2)" "page_inv H2 (snd (alloc_runs k xs))"
    "H\<lparr>pages := pages H2, page_list := page_list H2\<rparr> = H2"
    using page_alloc_inv [OF inv, of k] cfgD(5) z by (auto simp: k_def)
  note f2 = page_fields [OF H2(3)]
  have lk2: "down_flag H2 \<longrightarrow> 0 < heap_sem H2" using lk by (simp add: f2)
  obtain H3 where H3: "lock_heap H2 = Some H3" using heap_locked [OF lk2] by blast
  have f3: "memusage H3 = memusage H" "zone_page_cnt H3 = k" "heap_start H3 = heap_start H" "zone_size H3 = zone_size H"
    "zone_array H3 = zone_array H" "pages H3 = pages H2" "page_list H3 = page_list H2"
    using H3 f2 by (auto simp: lock_heap_def k_def split: if_splits)
  have bt: "btokup z H3 = btokup z H" by (simp add: btokup_def f3)
  obtain M where M: "usage_small k (btokup z H3) H3 = Some (H3\<lparr>memusage := M\<rparr>)"
    "\<forall>j<k. M (btokup z H3 + j) = Some \<lparr>mu_type = PAGE_TYPE_SMALL, mu_size = j\<rparr>"
    using usage_small_ok [of k H3 "btokup z H3"] mem by (auto simp: f3 bt k_def)
  let ?H4 = "H3\<lparr>memusage := M\<rparr>"
  obtain zn H5 where H5: "zone_setup (unat zi) z sz ?H4 = (chunk_at zn 0, H5)" "zone_ok H5 z zn []" "live zn [] = {chunk_at zn 0}"
    "z_chunksize zn = sz"
    "\<forall>i. int i < z_nmax zn \<longrightarrow> z + 36 \<le> chunk_at zn i \<and> chunk_at zn i + unat sz \<le> z + unat (zone_size ?H4)"
    "H5 = add_used sz (?H4\<lparr>zones := (zones ?H4)(z \<mapsto> zn), zone_array := (zone_array ?H4)(unat zi \<mapsto> z)\<rparr>)"
    using zone_setup_ok [OF idx(1,2), of ?H4 z] room f3(4) by auto
  have "unat (zone_size H) div PAGE_SIZE = k" using cfg by (simp add: heap_cfg_def k_def)
  then have "kmalloc n H = Some (Some (chunk_at zn 0), unlock_heap H5)"
    using n0 H1 zi(1,2) zi72 zf un1 H2(1) H3 f3(2) M(1) H5(1)
    by (simp add: kmalloc_def kmalloc_new_zone_def cos_assert_def)
  moreover have "zone_mapped (unlock_heap H5) z"
    by (rule zone_mappedI [of _ _ k])
      (use mod start cfgD(4) M(2) in \<open>simp_all add: H5(6) unlock_heap_def add_used_def Let_def f3 btokup_def k_def\<close>)
  moreover have "heap_sem (unlock_heap H5) = heap_sem H" "page_inv (unlock_heap H5) (snd (alloc_runs k xs))"
  proof -
    have "unlock_heap H3 = H2" by (rule lock_unlock_same [OF H3])
    then have u: "heap_sem (unlock_heap H3) = heap_sem H2" "down_flag (unlock_heap H3) = down_flag H2" by simp_all
    have e: "heap_sem (unlock_heap H5) = heap_sem (unlock_heap H3)" "down_flag (unlock_heap H5) = down_flag (unlock_heap H3)"
      by (simp_all add: H5(6))
    show "heap_sem (unlock_heap H5) = heap_sem H" unfolding e u by (rule f2)
    have "pages (unlock_heap H5) = pages H2" "page_list (unlock_heap H5) = page_list H2"
      by (simp_all add: H5(6) unlock_heap_def f3)
    then show "page_inv (unlock_heap H5) (snd (alloc_runs k xs))"
      using H2(2) e u page_inv_cong [of "unlock_heap H5" H2] by metis
  qed
  moreover have "zone_array (unlock_heap H5) (unat zi) = Some z" by (simp add: H5(6))
  ultimately show ?thesis
    using H5(2-5) f3(4) unfolding k_def [symmetric]
    by (intro exI [of _ zn] exI [of _ "unlock_heap H5"]) simp
qed

lemma kmalloc_no_pages:
  assumes inv: "page_inv H xs" and cfg: "heap_cfg H" and n: "0 < n" "n < zone_limit H"
    and zi: "zone_array H (unat (fst (zoneindex n))) = None" "zone_free H = None"
    and none: "\<forall>(b, m)\<in>set xs. m < zone_page_cnt H"
  shows "\<exists>H'. kmalloc n H = Some (None, H') \<and> heap_sem H' = (if down_flag H then heap_sem H + 1 else heap_sem H)"
proof -
  note cfgD = heap_cfgD [OF cfg]
  obtain z sz where z: "zoneindex n = (z, sz)" by fastforce
  have n0: "n \<noteq> 0" "\<not> zone_limit H \<le> n" using n by auto
  have "unat n < 16384" using n(2) cfgD(2) by (simp add: word_less_nat_alt)
  then have z72: "sint z < NZONES" using zoneindex_in_range [OF n(1)] z by simp
  have lk: "down_flag H \<longrightarrow> 0 < heap_sem H" using inv by (simp add: page_inv_def)
  obtain H1 where H1: "lock_heap H = Some H1" "zone_array H1 = zone_array H" using heap_locked [OF lk] by blast
  have un1: "unlock_heap H1 = H" by (rule lock_unlock_same [OF H1(1)])
  have zf: "zone_free H1 = None" using zi(2) H1(1) by (auto simp: lock_heap_def split: if_splits)
  have "fst (alloc_runs (zone_page_cnt H) xs) = None" using none by (simp add: alloc_runs_none)
  then obtain H2 where H2: "page_alloc (zone_page_cnt H) H = Some (None, H2)"
    "H\<lparr>pages := pages H2, page_list := page_list H2\<rparr> = H2"
    using page_alloc_inv [OF inv cfgD(5)] by auto
  have "unat (zone_size H) div PAGE_SIZE = zone_page_cnt H" using cfg by (simp add: heap_cfg_def)
  then have "kmalloc n H = Some (None, unlock_heap H2)"
    using n0 H1 z zi z72 zf un1 H2(1) by (simp add: kmalloc_def kmalloc_new_zone_def cos_assert_def)
  then show ?thesis using page_fields [OF H2(2)] by simp
qed

section \<open>Large blocks\<close>

definition pages_of :: "u32 \<Rightarrow> nat" where
  "pages_of n = (unat n + 4095) div PAGE_SIZE"

lemma unat_align:
  assumes "unat n + 4095 < 2 ^ 32"
  shows "unat (WIDTH_ALIGN n (of_nat PAGE_SIZE)) = pages_of n * PAGE_SIZE"
    "unat (drop_bit PAGE_BITS (WIDTH_ALIGN n (of_nat PAGE_SIZE))) = pages_of n"
proof -
  have 1: "WIDTH_ALIGN n (of_nat PAGE_SIZE) = (n + 4095) AND NOT (mask 12)"
    by (simp add: WIDTH_ALIGN_def PAGE_SIZE_def mask_eq_exp_minus_1 add.commute)
  have 2: "unat (n + 4095) = unat n + 4095" using assms by (simp add: unat_word_ariths)
  show 3: "unat (WIDTH_ALIGN n (of_nat PAGE_SIZE)) = pages_of n * PAGE_SIZE"
    unfolding 1 unat_and_not_mask 2 by (simp add: pages_of_def PAGE_SIZE_def)
  show "unat (drop_bit PAGE_BITS (WIDTH_ALIGN n (of_nat PAGE_SIZE))) = pages_of n"
  proof -
    have "unat (drop_bit PAGE_BITS w) = drop_bit PAGE_BITS (unat w)" for w :: u32
      by (simp only: unsigned_drop_bit_eq take_bit_nat_eq_self [OF unsigned_less])
    then have "unat (drop_bit PAGE_BITS (WIDTH_ALIGN n (of_nat PAGE_SIZE))) = pages_of n * PAGE_SIZE div 2 ^ PAGE_BITS"
      by (simp only: 3 drop_bit_eq_div)
    then show ?thesis by (simp only: PAGE_BITS_def PAGE_SIZE_def) simp
  qed
qed

lemma pages_of_bounds: "0 < n \<Longrightarrow> 0 < pages_of n" "unat n \<le> pages_of n * PAGE_SIZE"
proof -
  show "0 < pages_of n" if "0 < n" using that by (simp add: pages_of_def PAGE_SIZE_def word_less_nat_alt div_greater_zero_iff)
  have "(unat n + 4095) div 4096 * 4096 + (unat n + 4095) mod 4096 = unat n + 4095" by simp
  moreover have "(unat n + 4095) mod 4096 < 4096" by simp
  ultimately show "unat n \<le> pages_of n * PAGE_SIZE" unfolding pages_of_def PAGE_SIZE_def by linarith
qed

lemma page_base_aligned: "b mod PAGE_SIZE = 0 \<Longrightarrow> page_base b = b"
  by (simp add: page_base_def mod_0_imp_dvd)

lemma kmalloc_large_none:
  assumes "page_inv H xs" "0 < n" "zone_limit H \<le> n" "unat n + 4095 < 2 ^ 32"
    and "fst (alloc_runs (pages_of n) xs) = None"
  shows "\<exists>H'. kmalloc n H = Some (None, H') \<and> page_inv H' xs"
proof -
  obtain H' where "page_alloc (pages_of n) H = Some (None, H')" "page_inv H' xs"
    using page_alloc_inv [OF assms(1), of "pages_of n"] pages_of_bounds(1) [OF assms(2)] assms(5)
      alloc_runs_none_same [OF assms(5)] by auto
  moreover have "n \<noteq> 0" using assms(2) by auto
  ultimately show ?thesis using assms(3) unat_align [OF assms(4)] by (simp add: kmalloc_def kmalloc_large_def)
qed

lemma kmalloc_large_some:
  assumes inv: "page_inv H xs" and n: "0 < n" "zone_limit H \<le> n" "unat n + 4095 < 2 ^ 32"
    and b: "fst (alloc_runs (pages_of n) xs) = Some b" and mem: "memusage H (btokup b H) \<noteq> None"
  shows "\<exists>H'. kmalloc n H = Some (Some b, H') \<and> page_inv H' (snd (alloc_runs (pages_of n) xs)) \<and>
    memusage H' (btokup b H') = Some \<lparr>mu_type = PAGE_TYPE_LARGE, mu_size = pages_of n\<rparr> \<and>
    used_mem H' = used_mem H + of_nat (pages_of n * PAGE_SIZE)"
proof -
  have lk: "down_flag H \<longrightarrow> 0 < heap_sem H" using inv by (simp add: page_inv_def)
  obtain H2 where H2: "page_alloc (pages_of n) H = Some (Some b, H2)" "page_inv H2 (snd (alloc_runs (pages_of n) xs))"
    "H\<lparr>pages := pages H2, page_list := page_list H2\<rparr> = H2"
    using page_alloc_inv [OF inv, of "pages_of n"] pages_of_bounds(1) [OF n(1)] b by auto
  note f2 = page_fields [OF H2(3)]
  let ?u = "\<lparr>mu_type = PAGE_TYPE_LARGE, mu_size = pages_of n\<rparr>"
  let ?H3 = "H2\<lparr>memusage := (memusage H2)(btokup b H2 \<mapsto> ?u)\<rparr>"
  have bt: "btokup b H2 = btokup b H" by (simp add: btokup_def f2)
  then have su: "set_usage (btokup b H2) PAGE_TYPE_LARGE (pages_of n) H2 = Some ?H3"
    using mem by (auto simp: set_usage_def f2)
  have lk3: "down_flag ?H3 \<longrightarrow> 0 < heap_sem ?H3" using lk by (simp add: f2)
  obtain H4 where H4: "lock_heap ?H3 = Some H4" using heap_locked [OF lk3] by blast
  define sz where "sz = WIDTH_ALIGN n (of_nat PAGE_SIZE)"
  have "sz = of_nat (unat sz)" by simp
  then have sz: "sz = of_nat (pages_of n * PAGE_SIZE)" using unat_align(1) [OF n(3)] by (simp only: sz_def)
  have "n \<noteq> 0" using n(1) by auto
  then have km: "kmalloc n H = Some (Some b, unlock_heap (add_used sz H4))"
    using n(2) H2(1) su H4 unat_align(2) [OF n(3)] by (simp add: kmalloc_def kmalloc_large_def sz_def [symmetric])
  define H' where "H' = unlock_heap (add_used sz H4)"
  have u: "unlock_heap H4 = ?H3" by (rule lock_unlock_same [OF H4])
  have f: "pages H' = pages H2" "page_list H' = page_list H2" "memusage H' = memusage ?H3" "heap_start H' = heap_start H2"
    "used_mem H' = used_mem H2 + sz" "heap_sem H' = heap_sem H2" "down_flag H' = down_flag H2"
    using arg_cong [OF u, of pages] arg_cong [OF u, of page_list] arg_cong [OF u, of memusage] arg_cong [OF u, of heap_start]
      arg_cong [OF u, of used_mem] arg_cong [OF u, of heap_sem] arg_cong [OF u, of down_flag]
    by (simp_all add: H'_def unlock_heap_def add_used_def Let_def split: if_splits)
  have "page_inv H' (snd (alloc_runs (pages_of n) xs))" using H2(2) page_inv_cong [OF f(1,2,6,7)] by simp
  moreover have "memusage H' (btokup b H') = Some ?u" by (simp add: f btokup_def)
  moreover have "used_mem H' = used_mem H + of_nat (pages_of n * PAGE_SIZE)" using f(5) f2(8) sz by simp
  ultimately show ?thesis using km unfolding H'_def by blast
qed

lemma kfree_large_ok:
  assumes inv: "page_inv H ys" and b: "b mod PAGE_SIZE = 0" "0 < k" "block b k \<inter> free_mem ys = {}"
    and mem: "memusage H (btokup b H) = Some \<lparr>mu_type = PAGE_TYPE_LARGE, mu_size = k\<rparr>"
  shows "\<exists>H'. kfree (Some b) H = Some H' \<and> page_inv H' (free_runs b k ys) \<and>
    used_mem H' = used_mem H - of_nat (k * PAGE_SIZE)"
proof -
  have lk: "down_flag H \<longrightarrow> 0 < heap_sem H" using inv by (simp add: page_inv_def)
  obtain H1 where H1: "lock_heap H = Some H1" using heap_locked [OF lk] by blast
  have u: "unlock_heap H1 = H" by (rule lock_unlock_same [OF H1])
  have m1: "memusage H1 = memusage H" using H1 by (auto simp: lock_heap_def split: if_splits)
  let ?M = "(memusage H)(btokup b H \<mapsto> \<lparr>mu_type = PAGE_TYPE_LARGE, mu_size = 0\<rparr>)"
  define H2 where "H2 = unlock_heap (H1\<lparr>memusage := ?M, used_mem := used_mem H1 - of_nat (k * PAGE_SIZE)\<rparr>)"
  have f: "pages H2 = pages H" "page_list H2 = page_list H" "used_mem H2 = used_mem H - of_nat (k * PAGE_SIZE)"
    "heap_sem H2 = heap_sem H" "down_flag H2 = down_flag H"
    using arg_cong [OF u, of pages] arg_cong [OF u, of page_list]
      arg_cong [OF u, of used_mem] arg_cong [OF u, of heap_sem] arg_cong [OF u, of down_flag]
    by (simp_all add: H2_def unlock_heap_def split: if_splits)
  have "page_inv H2 ys" using inv page_inv_cong [OF f(1,2,4,5)] by simp
  from page_free_inv [OF this b(2,1,3)] obtain H' where H': "page_free b k H2 = Some H'" "page_inv H' (free_runs b k ys)"
    "H2\<lparr>pages := pages H', page_list := page_list H'\<rparr> = H'" by blast
  have "kfree (Some b) H = page_free b k H2"
    using mem H1 m1 by (simp add: kfree_def page_base_aligned [OF b(1)] Let_def set_usage_def H2_def)
  then show ?thesis using H' page_fields(8) [OF H'(3)] f(3) by auto
qed

section \<open>Properties\<close>

text \<open>C12: for every request below 16384 bytes the zone index is one of the 72 classes and determines the
  chunk size; the chunk is at least as large as the request, a multiple of 8, and wastes at most 7
  bytes or an eighth of the request.\<close>

theorem zoneindex_correct:
  assumes "0 < n" and "unat n < 16384"
  shows "case zoneindex n of (zi, sz) \<Rightarrow> unat zi < 72 \<and> unat sz = class_size (unat zi) \<and> unat n \<le> unat sz \<and>
    8 dvd unat sz \<and> unat sz - unat n \<le> max 7 (unat n div 8)"
  using zoneindex_class [OF assms] by (auto simp: case_prod_beta)

theorem zoneindex_correct_witness:
  "case zoneindex 1000 of (zi, sz) \<Rightarrow> unat zi < 72 \<and> unat sz = class_size (unat zi) \<and> unat (1000 :: u32) \<le> unat sz \<and>
    8 dvd unat sz \<and> unat sz - unat (1000 :: u32) \<le> max 7 (unat (1000 :: u32) div 8)"
  by (rule zoneindex_correct) simp_all

text \<open>A heap with one zone for chunks of 24 bytes, of which one is in use.\<close>

definition sample_zone :: slab_zone where
  "sample_zone = \<lparr>z_magic = ZALLOC_SLAB_MAGIC, z_nfree = 4, z_nmax = 5, z_next = None, z_baseptr = 4136, z_uindex = 0,
     z_chunksize = 24, z_zoneindex = 2, z_freechunk = None\<rparr>"

definition sample_heap_zone :: heap where
  "sample_heap_zone = empty_heap\<lparr>zones := [4096 \<mapsto> sample_zone], zone_array := [2 \<mapsto> 4096], zone_size := 32768,
     zone_limit := 8192, zone_page_cnt := 8, down_flag := True,
     memusage := [0 \<mapsto> \<lparr>mu_type = PAGE_TYPE_SMALL, mu_size = 0\<rparr>], heap_start := 4096\<rparr>"

lemma sample_heap_zone_ok: "zone_ok sample_heap_zone 4096 sample_zone []"
  by (simp add: zone_ok_def sample_heap_zone_def sample_zone_def)

text \<open>C13: a request served from a zone with a free chunk returns a chunk of this zone that is not in
  use and overlaps none that is; it counts as in use afterwards, the zone stays consistent, it leaves
  the list of its class exactly when it has no free chunk left, and the lock is given back.\<close>

theorem kmalloc_takes_chunk:
  assumes "down_flag H \<longrightarrow> 0 < heap_sem H" and "0 < n" and "n < zone_limit H"
    and "zoneindex n = (zi, sz)" and "sint zi < NZONES" and "zone_array H (unat zi) = Some z"
    and "zone_ok H z zn fl" and "z_chunksize zn = sz" and "0 < z_nfree zn"
  shows "\<exists>c H' zn' fl'. kmalloc n H = Some (Some c, H') \<and> zone_ok H' z zn' fl' \<and>
    c \<notin> live zn fl \<and> live zn' fl' = insert c (live zn fl) \<and>
    (\<forall>d\<in>live zn fl. {c..<c + unat sz} \<inter> {d..<d + unat sz} = {}) \<and>
    zone_array H' = (if z_nfree zn = 1 then (zone_array H)(unat zi := z_next zn) else zone_array H) \<and>
    heap_sem H' = heap_sem H"
proof -
  obtain i c H' zn' fl' where *: "kmalloc n H = Some (Some c, H')" "zone_ok H' z zn' fl'" "c = chunk_at zn i"
    "c \<notin> live zn fl" "live zn' fl' = insert c (live zn fl)"
    "zone_array H' = (if z_nfree zn = 1 then (zone_array H)(unat zi := z_next zn) else zone_array H)"
    "heap_sem H' = heap_sem H"
    using kmalloc_small [OF assms] by blast
  have "{c..<c + unat sz} \<inter> {d..<d + unat sz} = {}" if d: "d \<in> live zn fl" for d
  proof -
    obtain j where "d = chunk_at zn j" using d by (auto simp: live_def)
    moreover from this have "i \<noteq> j" using *(3,4) d by auto
    ultimately show ?thesis using chunk_at_disjoint [of i j zn] *(3) assms(8) by simp
  qed
  then show ?thesis
    using *(1,2,4-7) by (intro exI [of _ c] exI [of _ H'] exI [of _ zn'] exI [of _ fl']) simp
qed

theorem kmalloc_takes_chunk_witness:
  "\<exists>c H' zn' fl'. kmalloc 20 sample_heap_zone = Some (Some c, H') \<and> zone_ok H' 4096 zn' fl' \<and>
    c \<notin> live sample_zone [] \<and> live zn' fl' = insert c (live sample_zone []) \<and> heap_sem H' = 1"
proof -
  have z: "zoneindex 20 = (2, 24)" by (simp add: zoneindex_def)
  have "\<exists>c H' zn' fl'. kmalloc 20 sample_heap_zone = Some (Some c, H') \<and> zone_ok H' 4096 zn' fl' \<and>
    c \<notin> live sample_zone [] \<and> live zn' fl' = insert c (live sample_zone []) \<and>
    (\<forall>d\<in>live sample_zone []. {c..<c + unat (24 :: u32)} \<inter> {d..<d + unat (24 :: u32)} = {}) \<and>
    zone_array H' = (if z_nfree sample_zone = 1 then (zone_array sample_heap_zone)(unat (2 :: u32) := z_next sample_zone)
      else zone_array sample_heap_zone) \<and> heap_sem H' = heap_sem sample_heap_zone"
    by (rule kmalloc_takes_chunk [OF _ _ _ z _ _ sample_heap_zone_ok])
      (simp_all add: sample_heap_zone_def sample_zone_def empty_heap_def NZONES_def)
  moreover have "heap_sem sample_heap_zone = 1" by (simp add: sample_heap_zone_def empty_heap_def)
  ultimately show ?thesis by auto
qed

text \<open>C15: releasing a chunk in use of a zone that does not become entirely free finds the zone through
  the page descriptors, puts the chunk in front of the free chunks, so that it is no longer in use, enters the
  zone in the list of its class if it was full, and takes the chunk size off the memory in use.\<close>

theorem kfree_returns_chunk:
  assumes "down_flag H \<longrightarrow> 0 < heap_sem H"
    and "memusage H (btokup (page_base c) H) = Some kup" and "mu_type kup = PAGE_TYPE_SMALL"
    and "page_base c - mu_size kup * PAGE_SIZE = z"
    and "zone_ok H z zn fl" and "c \<in> live zn fl" and "z_nfree zn + 1 < z_nmax zn"
  shows "\<exists>H' zn'. kfree (Some c) H = Some H' \<and> zone_ok H' z zn' (c # fl) \<and>
    live zn' (c # fl) = live zn fl - {c} \<and> z_nfree zn' = z_nfree zn + 1 \<and>
    zone_array H' = (if z_nfree zn = 0 then (zone_array H)(z_zoneindex zn \<mapsto> z) else zone_array H) \<and>
    used_mem H' = used_mem H - z_chunksize zn \<and> heap_sem H' = heap_sem H"
  by (rule kfree_small [OF assms])

text \<open>The same heap with one chunk more in use.\<close>

definition sample_heap_two :: heap where
  "sample_heap_two = sample_heap_zone\<lparr>zones := [4096 \<mapsto> sample_zone\<lparr>z_nfree := 3, z_uindex := 1\<rparr>]\<rparr>"

theorem kfree_returns_chunk_witness:
  "\<exists>H' zn'. kfree (Some 4136) sample_heap_two = Some H' \<and> zone_ok H' 4096 zn' [4136] \<and> 4136 \<notin> live zn' [4136] \<and> z_nfree zn' = 4"
proof -
  let ?zn = "sample_zone\<lparr>z_nfree := 3, z_uindex := 1\<rparr>"
  have ok: "zone_ok sample_heap_two 4096 ?zn []"
    by (simp add: zone_ok_def sample_heap_two_def sample_zone_def)
  have "\<exists>H' zn'. kfree (Some 4136) sample_heap_two = Some H' \<and> zone_ok H' 4096 zn' [4136] \<and>
    live zn' [4136] = live ?zn [] - {4136} \<and> z_nfree zn' = z_nfree ?zn + 1 \<and>
    zone_array H' = (if z_nfree ?zn = 0 then (zone_array sample_heap_two)(z_zoneindex ?zn \<mapsto> 4096) else zone_array sample_heap_two) \<and>
    used_mem H' = used_mem sample_heap_two - z_chunksize ?zn \<and> heap_sem H' = heap_sem sample_heap_two"
    by (rule kfree_returns_chunk [OF _ _ _ _ ok])
      (auto simp: sample_heap_two_def sample_heap_zone_def sample_zone_def empty_heap_def btokup_def page_base_def
        PAGE_SIZE_def live_def chunk_at_def image_iff intro!: bexI [of _ "0::nat"])
  then show ?thesis by (auto simp: sample_zone_def)
qed

text \<open>C14: when no zone of the class has a free chunk, the allocator takes the pages of a new zone from the
  page allocator and returns its first chunk; all chunks of the zone lie behind its header and inside its pages, the
  first one is the only one in use, every page of the zone leads back to its header, and the list of
  free runs has lost exactly these pages.\<close>

theorem kmalloc_opens_zone:
  assumes "page_inv H xs" and "heap_cfg H" and "0 < n" and "n < zone_limit H" and "zoneindex n = (zi, sz)"
    and "zone_array H (unat zi) = None" and "zone_free H = None" and "fst (alloc_runs (zone_page_cnt H) xs) = Some z"
    and "heap_start H mod PAGE_SIZE = 0" and "heap_start H \<le> z"
    and "\<forall>j<zone_page_cnt H. memusage H (btokup z H + j) \<noteq> None"
  shows "\<exists>zn H'. kmalloc n H = Some (Some (chunk_at zn 0), H') \<and> zone_ok H' z zn [] \<and> live zn [] = {chunk_at zn 0} \<and>
    z_chunksize zn = sz \<and> zone_array H' (unat zi) = Some z \<and> zone_mapped H' z \<and>
    (\<forall>i. int i < z_nmax zn \<longrightarrow> z + 36 \<le> chunk_at zn i \<and> chunk_at zn i + unat sz \<le> z + unat (zone_size H)) \<and>
    page_inv H' (snd (alloc_runs (zone_page_cnt H) xs)) \<and> heap_sem H' = heap_sem H"
  by (rule kmalloc_fresh [OF assms])

text \<open>Eight free pages and the configuration for them.\<close>

definition sample_heap_new :: heap where
  "sample_heap_new = sample_pages\<lparr>zone_size := 32768, zone_limit := 8192, zone_page_cnt := 8, down_flag := True,
     memusage := (\<lambda>_. Some \<lparr>mu_type = PAGE_TYPE_FREE, mu_size = 0\<rparr>), heap_start := 4096\<rparr>"

lemma sample_heap_new_ok: "page_inv sample_heap_new [(4096, 8)]" "heap_cfg sample_heap_new"
  using sample_pages_inv
  by (auto simp: page_inv_def heap_cfg_def sample_heap_new_def sample_pages_def empty_heap_def PAGE_SIZE_def intro!: exI [of _ "0::nat"])

theorem kmalloc_opens_zone_witness:
  "\<exists>zn H'. kmalloc 20 sample_heap_new = Some (Some (chunk_at zn 0), H') \<and> zone_ok H' 4096 zn [] \<and>
    z_chunksize zn = 24 \<and> zone_mapped H' 4096 \<and> page_inv H' []"
proof -
  have z: "zoneindex 20 = (2, 24)" by (simp add: zoneindex_def)
  have 8: "zone_page_cnt sample_heap_new = 8" by (simp add: sample_heap_new_def)
  have "\<exists>zn H'. kmalloc 20 sample_heap_new = Some (Some (chunk_at zn 0), H') \<and> zone_ok H' 4096 zn [] \<and>
    live zn [] = {chunk_at zn 0} \<and> z_chunksize zn = 24 \<and> zone_array H' (unat (2 :: u32)) = Some 4096 \<and> zone_mapped H' 4096 \<and>
    (\<forall>i. int i < z_nmax zn \<longrightarrow> 4096 + 36 \<le> chunk_at zn i \<and>
      chunk_at zn i + unat (24 :: u32) \<le> 4096 + unat (zone_size sample_heap_new)) \<and>
    page_inv H' (snd (alloc_runs (zone_page_cnt sample_heap_new) [(4096, 8)])) \<and> heap_sem H' = heap_sem sample_heap_new"
    by (rule kmalloc_opens_zone [OF sample_heap_new_ok _ _ z])
      (simp_all add: sample_heap_new_def sample_pages_def empty_heap_def PAGE_SIZE_def)
  then show ?thesis by (auto simp: 8)
qed

text \<open>C16: a request of at least \<open>zone_limit\<close> bytes is served with whole pages: it fails only if no free run is
  long enough, and otherwise returns a free block that is large enough; releasing this block right
  away restores the list of free runs and the count of the memory in use.\<close>

theorem kmalloc_large_roundtrip:
  assumes "page_inv H xs" and "0 < n" and "zone_limit H \<le> n" and "unat n + 4095 < 2 ^ 32"
    and "\<forall>a\<in>free_mem xs. memusage H (btokup a H) \<noteq> None"
  shows "\<exists>r H'. kmalloc n H = Some (r, H') \<and>
    (case r of None \<Rightarrow> page_inv H' xs \<and> (\<forall>(b, m)\<in>set xs. m < pages_of n)
     | Some b \<Rightarrow> block b (pages_of n) \<subseteq> free_mem xs \<and> unat n \<le> pages_of n * PAGE_SIZE \<and>
         (\<exists>H''. kfree (Some b) H' = Some H'' \<and> page_inv H'' xs \<and> used_mem H'' = used_mem H))"
proof (cases "fst (alloc_runs (pages_of n) xs)")
  case None
  then have "\<forall>(b, m)\<in>set xs. m < pages_of n" by (rule alloc_runs_none [THEN iffD1])
  moreover obtain H' where "kmalloc n H = Some (None, H')" "page_inv H' xs"
    using kmalloc_large_none [OF assms(1-4) None] by blast
  ultimately show ?thesis by (intro exI [of _ None] exI [of _ H']) simp
next
  case (Some b)
  have ok: "runs_ok xs" using assms(1) by (simp add: page_inv_def)
  have k: "0 < pages_of n" by (rule pages_of_bounds(1) [OF assms(2)])
  note mem = alloc_runs_mem [OF ok Some]
  have "b \<in> free_mem xs" using mem block_in [OF k] by blast
  then have "memusage H (btokup b H) \<noteq> None" using assms(5) by blast
  from kmalloc_large_some [OF assms(1-4) Some this] obtain H' where H': "kmalloc n H = Some (Some b, H')" "page_inv H' (snd (alloc_runs (pages_of n) xs))"
    "memusage H' (btokup b H') = Some \<lparr>mu_type = PAGE_TYPE_LARGE, mu_size = pages_of n\<rparr>"
    "used_mem H' = used_mem H + of_nat (pages_of n * PAGE_SIZE)"
    by blast
  have "b mod PAGE_SIZE = 0" using alloc_runs_some [OF Some] runs_ok_mod [OF ok] by blast
  moreover have "block b (pages_of n) \<inter> free_mem (snd (alloc_runs (pages_of n) xs)) = {}" using mem by blast
  ultimately have "\<exists>H''. kfree (Some b) H' = Some H'' \<and> page_inv H'' (free_runs b (pages_of n) (snd (alloc_runs (pages_of n) xs))) \<and>
    used_mem H'' = used_mem H' - of_nat (pages_of n * PAGE_SIZE)"
    by (rule kfree_large_ok [OF H'(2) _ k _ H'(3)])
  then obtain H'' where "kfree (Some b) H' = Some H''" "page_inv H'' (free_runs b (pages_of n) (snd (alloc_runs (pages_of n) xs)))"
    "used_mem H'' = used_mem H' - of_nat (pages_of n * PAGE_SIZE)"
    by blast
  then have "kfree (Some b) H' = Some H'' \<and> page_inv H'' xs \<and> used_mem H'' = used_mem H"
    using H'(4) free_alloc_runs [OF ok k Some] by simp
  then have "\<exists>H''. kfree (Some b) H' = Some H'' \<and> page_inv H'' xs \<and> used_mem H'' = used_mem H" by (rule exI)
  then show ?thesis using H'(1) mem pages_of_bounds(2) [of n] by (intro exI [of _ "Some b"] exI [of _ H']) simp
qed

theorem kmalloc_large_roundtrip_witness:
  "\<exists>r H'. kmalloc 9000 sample_heap_new = Some (r, H') \<and>
    (case r of None \<Rightarrow> page_inv H' [(4096, 8)] \<and> (\<forall>(b, m)\<in>set [(4096 :: nat, 8 :: nat)]. m < pages_of 9000)
     | Some b \<Rightarrow> block b (pages_of 9000) \<subseteq> free_mem [(4096, 8)] \<and> unat (9000 :: u32) \<le> pages_of 9000 * PAGE_SIZE \<and>
         (\<exists>H''. kfree (Some b) H' = Some H'' \<and> page_inv H'' [(4096, 8)] \<and> used_mem H'' = used_mem sample_heap_new))"
  by (rule kmalloc_large_roundtrip [OF sample_heap_new_ok(1)]) (simp_all add: sample_heap_new_def)

text \<open>When neither a zone of the class nor the pages for a new one are there, the request fails, but the
  heap lock is released twice for one \<open>take\<close>: its counter has grown by one, and two threads may hold
  it from then on.\<close>

lemma kmalloc_fail_unlocks_twice:
  assumes "page_inv H xs" and "heap_cfg H" and "0 < n" and "n < zone_limit H"
    and "zone_array H (unat (fst (zoneindex n))) = None" and "zone_free H = None"
    and "\<forall>(b, m)\<in>set xs. m < zone_page_cnt H" and "down_flag H"
  shows "\<exists>H'. kmalloc n H = Some (None, H') \<and> heap_sem H' = heap_sem H + 1"
  using kmalloc_no_pages [OF assms(1-7)] assms(8) by simp

end
