(* ===== verification/Cos_Machine.thy ===== *)
theory Cos_Machine
  imports Cos_Object
begin

text \<open>
  The machine around the kernel: the objects of class \<open>Device\<close> and its subclasses, the x86 ports,
  and the interrupt controller of \<^verbatim>\<open>arch/x86/common/interrupt.cpp\<close>.

  The hardware is seen through its ports. \<open>in_ports m p\<close> is the sequence of bytes port \<open>p\<close> will deliver; reading
  when there is none left has no outcome. \<open>out_ports\<close> is the sequence of bytes written so far, each with
  its port. A derived class is a record of its own, stored under the address of
  the \<open>Device\<close> part; the field \<open>dev_vtable\<close> says which one. Members that a constructor leaves as they are
  in memory are arguments of the constructor.
\<close>

unbundle bit_operations_syntax

section \<open>State\<close>

datatype device_class =
    Device_Class_Char | Device_Class_Block | Device_Class_NetIf | Device_Class_MTD | Device_Class_CAN
  | Device_Class_RTC | Device_Class_Sound | Device_Class_Graphic | Device_Class_I2CBUS | Device_Class_USBDevice
  | Device_Class_USBHost | Device_Class_SPIBUS | Device_Class_SPIDevice | Device_Class_SDIO | Device_Class_PM
  | Device_Class_Pipe | Device_Class_Portal | Device_Class_Miscellaneous | Device_Class_Unknown

text \<open>The class whose virtual functions a device has; classes of the application have a number.\<close>

datatype vtable = Device_vtable | Serial_vtable | Console_vtable | Graphic_vtable | Mouse_vtable | User_vtable nat

record device = object +
  dev_vtable :: vtable
  dev_type :: device_class
  dev_open_flag :: u16
  dev_ref_count :: u8
  dev_rx_indicate :: "nat option"
  dev_tx_complete :: "nat option"

text \<open>A ring of received bytes, as \<open>Serial\<close> and \<open>Console\<close> have it.\<close>

record rx_ring =
  rx_buffer :: "u8 list"
  read_index :: u32
  save_index :: u32

record serial = rx_ring +
  ser_newline :: bool
  ser_PORT :: u16
  ser_interrupt :: nat

record console = rx_ring +
  addr_6845 :: u16
  crt_buf :: "u16 list"
  crt_pos :: u16

datatype color_type =
    PIXEL_FORMAT_MONO | PIXEL_FORMAT_GRAY4 | PIXEL_FORMAT_GRAY16 | PIXEL_FORMAT_RGB332 | PIXEL_FORMAT_RGB444
  | PIXEL_FORMAT_RGB565 | PIXEL_FORMAT_RGB565P | PIXEL_FORMAT_RGB666 | PIXEL_FORMAT_RGB888 | PIXEL_FORMAT_ARGB888

text \<open>The frame buffer with the bytes that may be accessed.\<close>

record video =
  pixel_format :: color_type
  bits_per_pixel :: u8
  vid_width :: u16
  vid_height :: u16
  framebuffer_addr :: u32
  framebuffer :: "u8 list"

record mouse =
  mouse_cycle :: u8
  mouse_byte :: "u8 list"
  mouse_x :: u8
  mouse_y :: u8

datatype isr_handler =
  Default_isr | Serial_isr_handler | Console_isr_handler | Mouse_isr_handler | Timer_handler | User_isr nat

record machine =
  mc_kernel :: kernel
  in_ports :: "u16 \<Rightarrow> u8 list"
  out_ports :: "(u16 \<times> u8) list"
  irq_mask_8259A :: u16
  isr_table :: "nat \<Rightarrow> isr_handler"
  isr_param :: "nat \<Rightarrow> nat option"
  devices :: "nat \<Rightarrow> device option"
  serials :: "nat \<Rightarrow> serial option"
  consoles :: "nat \<Rightarrow> console option"
  videos :: "nat \<Rightarrow> video option"
  mice :: "nat \<Rightarrow> mouse option"
  console_self :: "nat option"
  keyboard_shift :: u32
  console_device :: "nat option"
  log_buf :: "u8 list"
  log_length :: nat

section \<open>Lifting\<close>

definition lift_kernel :: "(kernel \<Rightarrow> kernel option) \<Rightarrow> machine \<Rightarrow> machine option" where
  "lift_kernel f m = do { k \<leftarrow> f (mc_kernel m); Some (m\<lparr>mc_kernel := k\<rparr>) }"

definition upd_device :: "nat \<Rightarrow> (device \<Rightarrow> device) \<Rightarrow> machine \<Rightarrow> machine option" where
  "upd_device a f m = do { h \<leftarrow> heap_upd (devices m) a f; Some (m\<lparr>devices := h\<rparr>) }"

definition upd_serial :: "nat \<Rightarrow> (serial \<Rightarrow> serial) \<Rightarrow> machine \<Rightarrow> machine option" where
  "upd_serial a f m = do { h \<leftarrow> heap_upd (serials m) a f; Some (m\<lparr>serials := h\<rparr>) }"

definition upd_console :: "nat \<Rightarrow> (console \<Rightarrow> console) \<Rightarrow> machine \<Rightarrow> machine option" where
  "upd_console a f m = do { h \<leftarrow> heap_upd (consoles m) a f; Some (m\<lparr>consoles := h\<rparr>) }"

lemma upd_device_Some [simp]:
  "devices m a = Some d \<Longrightarrow> upd_device a f m = Some (m\<lparr>devices := (devices m)(a \<mapsto> f d)\<rparr>)"
  by (simp add: upd_device_def)

lemma upd_serial_Some [simp]:
  "serials m a = Some d \<Longrightarrow> upd_serial a f m = Some (m\<lparr>serials := (serials m)(a \<mapsto> f d)\<rparr>)"
  by (simp add: upd_serial_def)

lemma upd_console_Some [simp]:
  "consoles m a = Some d \<Longrightarrow> upd_console a f m = Some (m\<lparr>consoles := (consoles m)(a \<mapsto> f d)\<rparr>)"
  by (simp add: upd_console_def)

section \<open>Ports\<close>

definition set_in :: "u16 \<Rightarrow> u8 list \<Rightarrow> machine \<Rightarrow> machine" where
  "set_in port bs m = m\<lparr>in_ports := (in_ports m)(port := bs)\<rparr>"

definition emit :: "(u16 \<times> u8) list \<Rightarrow> machine \<Rightarrow> machine" where
  "emit bs m = m\<lparr>out_ports := out_ports m @ bs\<rparr>"

definition inb :: "u16 \<Rightarrow> machine \<Rightarrow> (u8 \<times> machine) option" where
  "inb port m = (case in_ports m port of [] \<Rightarrow> None | b # bs \<Rightarrow> Some (b, set_in port bs m))"

definition outb :: "u16 \<Rightarrow> u8 \<Rightarrow> machine \<Rightarrow> machine" where
  "outb port data m = emit [(port, data)] m"

lemma set_in_simps [simp]:
  "in_ports (set_in p bs m) = (in_ports m)(p := bs)" "out_ports (set_in p bs m) = out_ports m"
  "mc_kernel (set_in p bs m) = mc_kernel m" "irq_mask_8259A (set_in p bs m) = irq_mask_8259A m"
  "isr_table (set_in p bs m) = isr_table m" "isr_param (set_in p bs m) = isr_param m"
  "devices (set_in p bs m) = devices m" "serials (set_in p bs m) = serials m" "consoles (set_in p bs m) = consoles m"
  "videos (set_in p bs m) = videos m" "mice (set_in p bs m) = mice m" "keyboard_shift (set_in p bs m) = keyboard_shift m"
  "console_device (set_in p bs m) = console_device m" "console_self (set_in p bs m) = console_self m"
  "log_buf (set_in p bs m) = log_buf m" "log_length (set_in p bs m) = log_length m"
  "set_in p cs (set_in p bs m) = set_in p cs m"
  by (simp_all add: set_in_def)

lemma set_in_id: "in_ports m p = bs \<Longrightarrow> set_in p bs m = m"
  by (simp add: set_in_def fun_upd_idem)

lemma emit_simps [simp]:
  "in_ports (emit bs m) = in_ports m" "out_ports (emit bs m) = out_ports m @ bs"
  "mc_kernel (emit bs m) = mc_kernel m" "irq_mask_8259A (emit bs m) = irq_mask_8259A m"
  "isr_table (emit bs m) = isr_table m" "isr_param (emit bs m) = isr_param m"
  "devices (emit bs m) = devices m" "serials (emit bs m) = serials m" "consoles (emit bs m) = consoles m"
  "videos (emit bs m) = videos m" "mice (emit bs m) = mice m" "keyboard_shift (emit bs m) = keyboard_shift m"
  "console_device (emit bs m) = console_device m" "console_self (emit bs m) = console_self m"
  "log_buf (emit bs m) = log_buf m" "log_length (emit bs m) = log_length m"
  "emit [] m = m" "emit cs (emit bs m) = emit (bs @ cs) m" "emit cs (set_in p xs m) = set_in p xs (emit cs m)"
  by (simp_all add: set_in_def emit_def)

section \<open>The interrupt controller\<close>

definition MAX_HANDLERS :: nat where "MAX_HANDLERS = 16"
definition IO_PIC1 :: u16 where "IO_PIC1 = 0x20"
definition IO_PIC2 :: u16 where "IO_PIC2 = 0xa0"
definition IRQ_SLAVE :: nat where "IRQ_SLAVE = 2"
definition IRQ_OFFSET :: u8 where "IRQ_OFFSET = 0x20"
definition INTTIMER0 :: nat where "INTTIMER0 = 0"
definition INTKEYBOARD :: nat where "INTKEYBOARD = 1"
definition INT2 :: nat where "INT2 = 2"
definition INTCOM2 :: nat where "INTCOM2 = 3"
definition INTCOM1 :: nat where "INTCOM1 = 4"
definition INTMOUSE :: nat where "INTMOUSE = 12"

text \<open>The mask as it goes to the two controllers.\<close>

definition write_mask :: "machine \<Rightarrow> machine" where
  "write_mask m = (let m = outb (IO_PIC1 + 1) (ucast (irq_mask_8259A m)) m
     in outb (IO_PIC2 + 1) (ucast (drop_bit 8 (irq_mask_8259A m))) m)"

definition arch_interrupt_umask :: "nat \<Rightarrow> machine \<Rightarrow> machine" where
  "arch_interrupt_umask vector m =
     write_mask (m\<lparr>irq_mask_8259A := irq_mask_8259A m AND NOT (push_bit vector 1)\<rparr>)"

definition arch_interrupt_mask :: "nat \<Rightarrow> machine \<Rightarrow> machine" where
  "arch_interrupt_mask vector m =
     write_mask (m\<lparr>irq_mask_8259A := irq_mask_8259A m OR push_bit vector 1\<rparr>)"

text \<open>The result, the old handler, is not defined for a vector without an entry.\<close>

definition arch_interrupt_install ::
  "nat \<Rightarrow> isr_handler option \<Rightarrow> nat option \<Rightarrow> machine \<Rightarrow> isr_handler option \<times> machine" where
  "arch_interrupt_install vector new_handler param m =
     (if vector < MAX_HANDLERS then
        (Some (isr_table m vector),
         m\<lparr>isr_param := (isr_param m)(vector := param),
           isr_table := (case new_handler of None \<Rightarrow> isr_table m | Some h \<Rightarrow> (isr_table m)(vector := h))\<rparr>)
      else (None, m))"

text \<open>The handler table; the descriptor table of the processor is not modelled.\<close>

definition arch_idt_init :: "machine \<Rightarrow> machine" where
  "arch_idt_init m = m\<lparr>isr_table := (\<lambda>i. if i < MAX_HANDLERS then Default_isr else isr_table m i)\<rparr>"

definition arch_pic_init :: "machine \<Rightarrow> machine" where
  "arch_pic_init m =
     (let m = fold (\<lambda>(p, b). outb p b)
        [(IO_PIC1, 0x11), (IO_PIC1 + 1, IRQ_OFFSET), (IO_PIC1 + 1, push_bit IRQ_SLAVE 1), (IO_PIC1 + 1, 0x3),
         (IO_PIC1 + 1, 0xff), (IO_PIC1, 0x68), (IO_PIC1, 0x0a),
         (IO_PIC2, 0x11), (IO_PIC2 + 1, IRQ_OFFSET + 8), (IO_PIC2 + 1, of_nat IRQ_SLAVE), (IO_PIC2 + 1, 0x3),
         (IO_PIC2 + 1, 0xff), (IO_PIC2, 0x68), (IO_PIC2, 0x0a)] m;
       m = (if irq_mask_8259A m \<noteq> 0xFFFF then write_mask m else m)
      in m\<lparr>mc_kernel := (mc_kernel m)\<lparr>interrupt_nest := 0\<rparr>\<rparr>)"

definition arch_interrupt_init :: "machine \<Rightarrow> machine" where
  "arch_interrupt_init m = arch_interrupt_umask INT2 (arch_pic_init (arch_idt_init m))"

section \<open>Creation of devices\<close>

definition FLAG_RDWR :: u16 where "FLAG_RDWR = 0x003"
definition FLAG_STANDALONE :: u16 where "FLAG_STANDALONE = 0x008"
definition FLAG_ACTIVATED :: u16 where "FLAG_ACTIVATED = 0x010"
definition FLAG_STREAM :: u16 where "FLAG_STREAM = 0x040"
definition FLAG_INT_RX :: u16 where "FLAG_INT_RX = 0x100"
definition OFLAG_CLOSE :: u16 where "OFLAG_CLOSE = 0x000"
definition OFLAG_RDWR :: u16 where "OFLAG_RDWR = 0x003"
definition OFLAG_OPEN :: u16 where "OFLAG_OPEN = 0x008"

lemmas device_flag_defs = FLAG_RDWR_def FLAG_STANDALONE_def FLAG_ACTIVATED_def FLAG_STREAM_def FLAG_INT_RX_def
  OFLAG_CLOSE_def OFLAG_RDWR_def OFLAG_OPEN_def

text \<open>\<open>open_flag_\<close> keeps the value \<open>oflag\<close> the memory of the new object has.\<close>

definition device_init :: "vtable \<Rightarrow> device_class \<Rightarrow> string \<Rightarrow> u16 \<Rightarrow> u16 \<Rightarrow> device" where
  "device_init vt type name flags oflag =
     object.extend ((object_init Object_Class_Device name)\<lparr>ob_flag := flags\<rparr>)
       \<lparr>dev_vtable = vt, dev_type = type, dev_open_flag = oflag, dev_ref_count = 0,
        dev_rx_indicate = None, dev_tx_complete = None\<rparr>"

definition Device_new :: "vtable \<Rightarrow> device_class \<Rightarrow> string \<Rightarrow> u16 \<Rightarrow> u16 \<Rightarrow> nat \<Rightarrow> machine \<Rightarrow> machine option" where
  "Device_new vt type name flags oflag this m = do {
     m \<leftarrow> lift_kernel (Object_new Object_Class_Device name this) m;
     Some (m\<lparr>devices := (devices m)(this \<mapsto> device_init vt type name flags oflag)\<rparr>) }"

definition Device_delete :: "nat \<Rightarrow> machine \<Rightarrow> machine option" where
  "Device_delete this m = do {
     d \<leftarrow> devices m this;
     m \<leftarrow> lift_kernel (Object_delete Object_Class_Device (ob_name d)) m;
     Some (m\<lparr>devices := (devices m)(this := None)\<rparr>) }"

text \<open>Masking and unmasking change exactly the bit of the vector.\<close>

lemma irq_mask_bits:
  assumes "vector < 16"
  shows "bit (irq_mask_8259A (arch_interrupt_mask vector m)) i \<longleftrightarrow> i = vector \<or> bit (irq_mask_8259A m) i"
    and "bit (irq_mask_8259A (arch_interrupt_umask vector m)) i \<longleftrightarrow> i \<noteq> vector \<and> bit (irq_mask_8259A m) i"
proof -
  show "bit (irq_mask_8259A (arch_interrupt_mask vector m)) i \<longleftrightarrow> i = vector \<or> bit (irq_mask_8259A m) i"
    using assms by (auto simp: arch_interrupt_mask_def write_mask_def outb_def bit_simps)
  show "bit (irq_mask_8259A (arch_interrupt_umask vector m)) i \<longleftrightarrow> i \<noteq> vector \<and> bit (irq_mask_8259A m) i"
    using assms by (auto simp: arch_interrupt_umask_def write_mask_def outb_def bit_simps dest: bit_imp_le_length)
qed

section \<open>A machine without devices\<close>

definition empty_machine :: machine where
  "empty_machine = \<lparr>mc_kernel = empty_kernel, in_ports = (\<lambda>_. []), out_ports = [], irq_mask_8259A = 0xffff,
     isr_table = (\<lambda>_. Default_isr), isr_param = (\<lambda>_. None), devices = (\<lambda>_. None), serials = (\<lambda>_. None),
     consoles = (\<lambda>_. None), videos = (\<lambda>_. None), mice = (\<lambda>_. None), console_self = None, keyboard_shift = 0,
     console_device = None, log_buf = replicate 256 0, log_length = 0\<rparr>"

lemma empty_machine_simps [simp]:
  "mc_kernel empty_machine = empty_kernel" "in_ports empty_machine = (\<lambda>_. [])" "out_ports empty_machine = []"
  "devices empty_machine = (\<lambda>_. None)" "serials empty_machine = (\<lambda>_. None)" "consoles empty_machine = (\<lambda>_. None)"
  "console_device empty_machine = None" "log_buf empty_machine = replicate 256 0" "log_length empty_machine = 0"
  "isr_table empty_machine = (\<lambda>_. Default_isr)" "isr_param empty_machine = (\<lambda>_. None)"
  by (simp_all add: empty_machine_def)

end
