(* ===== verification/Cos_Rx_Ring.thy ===== *)
theory Cos_Rx_Ring
  imports Cos_Machine
begin

text \<open>
  The ring buffer of received bytes that the drivers of the serial port and of the console have in common:
  storing one byte in the interrupt service routine, and the loop of \<open>driver_read\<close>. The ring is a
  queue of at most 255 bytes that loses its oldest byte when it is full.
\<close>

section \<open>Operations\<close>

definition RX_BUFFER_SIZE :: nat where "RX_BUFFER_SIZE = 256"

text \<open>An access beyond the array has no outcome.\<close>

definition rx_next :: "u32 \<Rightarrow> u32" where
  "rx_next i = (let i = i + 1 in if i \<ge> of_nat RX_BUFFER_SIZE then 0 else i)"

definition rx_save :: "u8 \<Rightarrow> 'a rx_ring_scheme \<Rightarrow> 'a rx_ring_scheme option" where
  "rx_save c r =
     (if unat (save_index r) < length (rx_buffer r) then
        let r = r\<lparr>rx_buffer := (rx_buffer r)[unat (save_index r) := c], save_index := rx_next (save_index r)\<rparr>
        in Some (if save_index r = read_index r then r\<lparr>read_index := rx_next (read_index r)\<rparr> else r)
      else None)"

definition rx_take :: "'a rx_ring_scheme \<Rightarrow> (u8 \<times> 'a rx_ring_scheme) option" where
  "rx_take r =
     (if unat (read_index r) < length (rx_buffer r)
      then Some (rx_buffer r ! unat (read_index r), r\<lparr>read_index := rx_next (read_index r)\<rparr>) else None)"

text \<open>The loop of \<open>driver_read\<close>: the bytes read, the error number and the ring.\<close>

fun rx_read :: "nat \<Rightarrow> 'a rx_ring_scheme \<Rightarrow> (u8 list \<times> err_t \<times> 'a rx_ring_scheme) option" where
  "rx_read 0 r = Some ([], ERR_OK, r)"
| "rx_read (Suc n) r =
     (if read_index r \<noteq> save_index r then do {
        (c, r) \<leftarrow> rx_take r;
        (cs, er, r) \<leftarrow> rx_read n r;
        Some (c # cs, er, r) }
      else Some ([], - ERR_EMPTY, r))"

text \<open>The length the console reports to its callback.\<close>

definition rx_length :: "'a rx_ring_scheme \<Rightarrow> u32" where
  "rx_length r = (if read_index r > save_index r then of_nat RX_BUFFER_SIZE - read_index r + save_index r
     else save_index r - read_index r)"

section \<open>The ring as a queue\<close>

text \<open>The bytes from position \<open>i\<close> on, \<open>n\<close> of them.\<close>

fun ring_from :: "u8 list \<Rightarrow> nat \<Rightarrow> nat \<Rightarrow> u8 list" where
  "ring_from b i 0 = []"
| "ring_from b i (Suc n) = b ! i # ring_from b (Suc i mod RX_BUFFER_SIZE) n"

definition rx_holds :: "'a rx_ring_scheme \<Rightarrow> u8 list \<Rightarrow> bool" where
  "rx_holds r xs \<longleftrightarrow> length (rx_buffer r) = RX_BUFFER_SIZE \<and> unat (read_index r) < RX_BUFFER_SIZE \<and>
     length xs < RX_BUFFER_SIZE \<and> unat (save_index r) = (unat (read_index r) + length xs) mod RX_BUFFER_SIZE \<and>
     xs = ring_from (rx_buffer r) (unat (read_index r)) (length xs)"

lemma unat_rx_next: "unat i < RX_BUFFER_SIZE \<Longrightarrow> unat (rx_next i) = Suc (unat i) mod RX_BUFFER_SIZE"
proof -
  assume i: "unat i < RX_BUFFER_SIZE"
  have e: "unat (i + 1) = Suc (unat i)" using i by (subst unat_add_lem [THEN iffD1]) (simp_all add: RX_BUFFER_SIZE_def)
  have "i + 1 \<ge> of_nat RX_BUFFER_SIZE \<longleftrightarrow> Suc (unat i) = RX_BUFFER_SIZE"
    using i e by (auto simp: word_le_nat_alt RX_BUFFER_SIZE_def)
  then show ?thesis using i e by (auto simp: rx_next_def Let_def)
qed

lemma ring_from_snoc: "ring_from b i (Suc n) = ring_from b i n @ [b ! ((i + n) mod RX_BUFFER_SIZE)]" if "i < RX_BUFFER_SIZE"
  using that
proof (induction n arbitrary: i)
  case (Suc n)
  have l: "Suc i mod RX_BUFFER_SIZE < RX_BUFFER_SIZE" by (simp add: RX_BUFFER_SIZE_def)
  have "(Suc i mod RX_BUFFER_SIZE + n) mod RX_BUFFER_SIZE = (i + Suc n) mod RX_BUFFER_SIZE" by (simp add: mod_add_left_eq)
  then show ?case using Suc.IH [OF l] by simp
qed simp

lemma ring_mod_neq: "(i::nat) < N \<Longrightarrow> 0 < n \<Longrightarrow> n < N \<Longrightarrow> (i + n) mod N \<noteq> i"
  by (cases "i + n < N") (auto simp: mod_if)

lemma ring_from_upd:
  "i < RX_BUFFER_SIZE \<Longrightarrow> n \<le> m \<Longrightarrow> m < RX_BUFFER_SIZE \<Longrightarrow>
    ring_from (b[(i + m) mod RX_BUFFER_SIZE := c]) i n = ring_from b i n"
proof (induction n arbitrary: i m)
  case (Suc n)
  have "Suc i mod RX_BUFFER_SIZE < RX_BUFFER_SIZE" by (simp add: RX_BUFFER_SIZE_def)
  moreover obtain j where "m = Suc j" using Suc.prems(2) by (cases m) auto
  then have "(Suc i mod RX_BUFFER_SIZE + (m - 1)) mod RX_BUFFER_SIZE = (i + m) mod RX_BUFFER_SIZE"
    by (simp add: mod_add_left_eq)
  ultimately have "ring_from (b[(i + m) mod RX_BUFFER_SIZE := c]) (Suc i mod RX_BUFFER_SIZE) n =
      ring_from b (Suc i mod RX_BUFFER_SIZE) n"
    using Suc.IH [of "Suc i mod RX_BUFFER_SIZE" "m - 1"] Suc.prems by simp
  moreover have "(i + m) mod RX_BUFFER_SIZE \<noteq> i"
    using Suc.prems ring_mod_neq by simp
  ultimately show ?case by simp
qed simp

lemma rx_empty:
  assumes "rx_holds r xs"
  shows "read_index r = save_index r \<longleftrightarrow> xs = []"
proof
  assume "read_index r = save_index r"
  then have "unat (read_index r) = (unat (read_index r) + length xs) mod RX_BUFFER_SIZE" using assms by (simp add: rx_holds_def)
  then show "xs = []" using assms by (auto simp: rx_holds_def dest: ring_mod_neq [where n = "length xs", rotated 2])
next
  assume "xs = []"
  then have "unat (save_index r) = unat (read_index r)" using assms by (simp add: rx_holds_def)
  then show "read_index r = save_index r" by (simp add: word_unat_eq_iff)
qed

lemma rx_take_holds:
  assumes "rx_holds r (x # xs)"
  shows "\<exists>r'. rx_take r = Some (x, r') \<and> rx_holds r' xs \<and> rx_ring.more r' = rx_ring.more r"
  using assms by (auto simp: rx_take_def rx_holds_def unat_rx_next mod_add_left_eq RX_BUFFER_SIZE_def)

text \<open>Storing a byte in a full ring forgets the oldest one.\<close>

definition keep_last :: "nat \<Rightarrow> u8 list \<Rightarrow> u8 list" where
  "keep_last n xs = drop (length xs - n) xs"

lemma rx_save_holds:
  assumes "rx_holds r xs"
  shows "\<exists>r'. rx_save c r = Some r' \<and> rx_holds r' (keep_last (RX_BUFFER_SIZE - 1) (xs @ [c])) \<and> rx_ring.more r' = rx_ring.more r"
proof -
  let ?i = "unat (read_index r)" and ?n = "length xs" and ?N = "RX_BUFFER_SIZE"
  have h: "length (rx_buffer r) = ?N" "?i < ?N" "?n < ?N" "unat (save_index r) = (?i + ?n) mod ?N"
    and xs: "xs = ring_from (rx_buffer r) ?i ?n"
    using assms by (simp_all add: rx_holds_def)
  let ?b = "(rx_buffer r)[(?i + ?n) mod ?N := c]"
  let ?r = "r\<lparr>rx_buffer := ?b, save_index := rx_next (save_index r)\<rparr>"
  have l: "(?i + ?n) mod ?N < ?N" by (simp add: RX_BUFFER_SIZE_def)
  have s: "unat (rx_next (save_index r)) = (?i + Suc ?n) mod ?N"
    using unat_rx_next [of "save_index r"] h(4) l by (simp add: mod_Suc_eq)
  have b: "ring_from ?b ?i (Suc ?n) = xs @ [c]"
    using ring_from_snoc [OF h(2), of ?b ?n] ring_from_upd [OF h(2) order_refl h(3), of "rx_buffer r" c] xs h(1) l by simp
  have sv: "rx_save c r = Some (if rx_next (save_index r) = read_index r then ?r\<lparr>read_index := rx_next (read_index r)\<rparr> else ?r)"
    using h(1,4) l by (simp add: rx_save_def Let_def)
  show ?thesis
  proof (cases "Suc ?n = ?N")
    case True
    then have "unat (rx_next (save_index r)) = ?i" using s h(2) by simp
    then have e: "rx_next (save_index r) = read_index r" by (simp add: word_unat_eq_iff)
    have k: "keep_last (?N - 1) (xs @ [c]) = tl (xs @ [c])" using True by (cases xs) (auto simp: keep_last_def RX_BUFFER_SIZE_def)
    have "ring_from ?b (Suc ?i mod ?N) ?n = tl (xs @ [c])" using b by (metis list.sel(3) ring_from.simps(2))
    moreover have "(Suc ?i mod ?N + ?n) mod ?N = ?i" using True h(2) by (metis add_Suc_right add_Suc_shift mod_add_left_eq mod_add_self2 mod_less)
    ultimately have "rx_holds (?r\<lparr>read_index := rx_next (read_index r)\<rparr>) (tl (xs @ [c]))"
      using h unat_rx_next [OF h(2)] e l by (simp add: rx_holds_def RX_BUFFER_SIZE_def)
    then show ?thesis using sv e k by simp
  next
    case False
    then have n: "Suc ?n < ?N" using h(3) by simp
    then have "(?i + Suc ?n) mod ?N \<noteq> ?i" using ring_mod_neq h(2) by blast
    then have "rx_next (save_index r) \<noteq> read_index r" using s by metis
    moreover have "keep_last (?N - 1) (xs @ [c]) = xs @ [c]" using n by (simp add: keep_last_def)
    moreover have "rx_holds ?r (xs @ [c])" using h n s b by (simp add: rx_holds_def)
    ultimately show ?thesis using sv by simp
  qed
qed

lemma rx_read_holds:
  assumes "rx_holds r xs"
  shows "\<exists>r'. rx_read n r = Some (take n xs, if n \<le> length xs then ERR_OK else - ERR_EMPTY, r') \<and>
    rx_holds r' (drop n xs) \<and> rx_ring.more r' = rx_ring.more r"
  using assms
proof (induction n arbitrary: r xs)
  case (Suc n)
  show ?case
  proof (cases xs)
    case Nil
    then show ?thesis using rx_empty [OF Suc.prems] Suc.prems by simp
  next
    case (Cons x ys)
    then obtain r1 where r1: "rx_take r = Some (x, r1)" "rx_holds r1 ys" "rx_ring.more r1 = rx_ring.more r"
      using rx_take_holds Suc.prems by blast
    moreover have "read_index r \<noteq> save_index r" using rx_empty [OF Suc.prems] Cons by simp
    ultimately show ?thesis using Suc.IH [OF r1(2)] Cons by auto
  qed
qed simp

end
