(* ===== verification/Cos_Console.thy ===== *)
theory Cos_Console
  imports Cos_Rx_Ring
begin

text \<open>
  The driver of keyboard and screen, \<^verbatim>\<open>arch/x86/drivers/console.cpp\<close>: the keyboard maps, the cells of
  the text screen and the virtual functions of the driver. The singleton \<open>Console::Instance\<close> and the
  interrupt service routine, which print messages, are in \<open>Cos_Drivers\<close>.
\<close>

unbundle bit_operations_syntax

section \<open>The keyboard\<close>

definition SHIFT :: u32 where "SHIFT = 0x01"
definition CTL :: u32 where "CTL = 0x02"
definition ALT :: u32 where "ALT = 0x04"
definition CAPSLOCK :: u32 where "CAPSLOCK = 0x08"
definition NUMLOCK :: u32 where "NUMLOCK = 0x10"
definition SCROLLOCK :: u32 where "SCROLLOCK = 0x20"

lemmas key_defs = SHIFT_def CTL_def ALT_def CAPSLOCK_def NUMLOCK_def SCROLLOCK_def

definition KBSTATP :: u16 where "KBSTATP = 0x64"
definition KBDATAP :: u16 where "KBDATAP = 0x60"

text \<open>The tables as the constructor leaves them.\<close>

definition shiftcode :: "u8 \<Rightarrow> u32" where
  "shiftcode d = (if d = 29 then CTL else if d = 42 then SHIFT else if d = 54 then SHIFT else if d = 56 then ALT else 0)"

definition togglecode :: "u8 \<Rightarrow> u32" where
  "togglecode d = (if d = 58 then CAPSLOCK else if d = 69 then NUMLOCK else if d = 70 then SCROLLOCK else 0)"

text \<open>The maps, as lists of character codes; the rest of the 256 entries is zero.\<close>

definition normalmap :: "u8 list" where
  "normalmap =
    [0, 27] @ map of_char ''1234567890-='' @ [8, 9] @
    map of_char ''qwertyuiop[]'' @ [10, 0] @
    map of_char ''asdfghjkl;'' @ [39, 96, 0, 92] @
    map of_char ''zxcvbnm,./'' @ [0] @ map of_char ''*'' @ [0] @ map of_char '' '' @
    replicate 13 0 @ map of_char ''789-456+1230.''"

definition shiftmap :: "u8 list" where
  "shiftmap =
    [0, 27] @ map of_char ''!@#$%^&*()_+'' @ [8, 9] @
    map of_char ''QWERTYUIOP{}'' @ [10, 0] @
    map of_char ''ASDFGHJKL;'' @ [34, 126, 0, 124] @
    map of_char ''ZXCVBNM<>?'' @ [0] @ map of_char ''*'' @ [0] @ map of_char '' '' @
    replicate 13 0 @ map of_char ''789-456+1230.''"

text \<open>\<open>C(x)\<close> is the code of \<open>x\<close> minus the one of \<open>@\<close>, which is 64.\<close>

definition C_codes :: "string \<Rightarrow> u8 list" where
  "C_codes s = map (\<lambda>x. of_char x - 64) s"

definition ctlmap :: "u8 list" where
  "ctlmap =
    replicate 16 0 @
    C_codes ''QWERTYUIOP'' @ [0, 0, 13, 0] @ C_codes ''ASDFGHJKL'' @ replicate 4 0 @ [92 - 64] @
    C_codes ''ZXCVBNM'' @ [0, 0] @ C_codes ''/'' @ [0, 0]"

definition key_code :: "u8 list \<Rightarrow> u8 \<Rightarrow> u8" where
  "key_code tab d = (if unat d < length tab then tab ! unat d else 0)"

definition charcode :: "u32 \<Rightarrow> u8 list" where
  "charcode i = (if i = 0 then normalmap else if i = 1 then shiftmap else ctlmap)"

definition swap_case :: "u8 \<Rightarrow> u8" where
  "swap_case c = (if 97 \<le> c \<and> c \<le> 122 then c - 32 else if 65 \<le> c \<and> c \<le> 90 then c + 32 else c)"

text \<open>The character of a scan code, with the new value of the static variable \<open>shift\<close>.\<close>

definition key_event :: "u8 \<Rightarrow> u32 \<Rightarrow> u8 \<times> u32" where
  "key_event data sh =
     (if data AND 0x80 \<noteq> 0 then (0, sh AND NOT (shiftcode (data AND NOT 0x80)))
      else let sh = (sh OR shiftcode data) XOR togglecode data;
               c = key_code (charcode (sh AND (CTL OR SHIFT))) data
           in (if sh AND CAPSLOCK \<noteq> 0 then swap_case c else c, sh))"

definition keyboard_getc :: "machine \<Rightarrow> (u8 \<times> machine) option" where
  "keyboard_getc m = do {
     (st, m) \<leftarrow> inb KBSTATP m;
     if st AND 0x01 = 0 then Some (- 1, m)
     else do {
       (data, m) \<leftarrow> inb KBDATAP m;
       let (c, sh) = key_event data (keyboard_shift m);
       Some (c, m\<lparr>keyboard_shift := sh\<rparr>) } }"

section \<open>The screen\<close>

definition CRT_COLS :: nat where "CRT_COLS = 80"
definition CRT_SIZE :: nat where "CRT_SIZE = 2000"
definition MONO_BASE :: u16 where "MONO_BASE = 0x3b4"
definition CGA_BASE :: u16 where "CGA_BASE = 0x3d4"

lemmas crt_defs = CRT_COLS_def CRT_SIZE_def

text \<open>\<open>cga\<close> is the memory at \<open>CGA_BUF\<close>, if there is any, and \<open>mda\<close> the memory at \<open>MONO_BUF\<close>.\<close>

definition cga_init :: "nat \<Rightarrow> u16 list option \<Rightarrow> u16 list \<Rightarrow> machine \<Rightarrow> machine option" where
  "cga_init this cga mda m = do {
     let (addr, buf) = (case cga of None \<Rightarrow> (MONO_BASE, mda) | Some b \<Rightarrow> (CGA_BASE, b));
     (hi, m) \<leftarrow> inb (addr + 1) (outb addr 14 m);
     (lo, m) \<leftarrow> inb (addr + 1) (outb addr 15 m);
     upd_console this (\<lambda>c. c\<lparr>addr_6845 := addr, crt_buf := buf, crt_pos := push_bit 8 (ucast hi) OR ucast lo\<rparr>) m }"

text \<open>A write to the screen memory beyond the visible cells has no outcome here.\<close>

definition crt_write :: "u16 \<Rightarrow> u16 \<Rightarrow> console \<Rightarrow> console option" where
  "crt_write i v c = (if unat i < length (crt_buf c) then Some (c\<lparr>crt_buf := (crt_buf c)[unat i := v]\<rparr>) else None)"

text \<open>The remainder of C, whose sign is the one of the position.\<close>

definition crt_column :: "u16 \<Rightarrow> u16" where
  "crt_column p = (if 0 \<le> sint p then of_int (sint p mod 80) else - of_int ((- sint p) mod 80))"

definition crt_scroll :: "console \<Rightarrow> console" where
  "crt_scroll c =
     (if sint (crt_pos c) \<ge> int CRT_SIZE
      then c\<lparr>crt_buf := take (CRT_SIZE - CRT_COLS) (drop CRT_COLS (crt_buf c)) @ replicate CRT_COLS 0x0720 @ drop CRT_SIZE (crt_buf c),
             crt_pos := crt_pos c - of_nat CRT_COLS\<rparr>
      else c)"

definition crt_cursor :: "nat \<Rightarrow> machine \<Rightarrow> machine option" where
  "crt_cursor this m = do {
     c \<leftarrow> consoles m this;
     let a = addr_6845 c;
     Some (emit [(a, 14), (a + 1, ucast (drop_bit 8 (crt_pos c))), (a, 15), (a + 1, ucast (crt_pos c))] m) }"

text \<open>A character without attributes is white on black.\<close>

definition attr_char :: "u32 \<Rightarrow> u32" where
  "attr_char c = (if c AND NOT 0xff = 0 then c OR 0x0700 else c)"

partial_function (option) cga_putc :: "nat \<Rightarrow> u32 \<Rightarrow> machine \<Rightarrow> machine option" where
  "cga_putc this c m = do {
     let c = attr_char c;
     con \<leftarrow> consoles m this;
     let p = crt_pos con;
     m \<leftarrow> (if c AND 0xff = 8 then
           (if 0 < sint p then do {
              con \<leftarrow> crt_write (p - 1) (ucast ((c AND NOT 0xff) OR 0x20)) con;
              Some (m\<lparr>consoles := (consoles m)(this \<mapsto> con\<lparr>crt_pos := p - 1\<rparr>)\<rparr>) }
            else Some m)
         else if c AND 0xff = 10 then
           (let q = p + of_nat CRT_COLS
            in Some (m\<lparr>consoles := (consoles m)(this \<mapsto> con\<lparr>crt_pos := q - crt_column q\<rparr>)\<rparr>))
         else if c AND 0xff = 13 then
           Some (m\<lparr>consoles := (consoles m)(this \<mapsto> con\<lparr>crt_pos := p - crt_column p\<rparr>)\<rparr>)
         else if c AND 0xff = 9 then do {
           m \<leftarrow> cga_putc this 0x20 m;
           m \<leftarrow> cga_putc this 0x20 m;
           m \<leftarrow> cga_putc this 0x20 m;
           m \<leftarrow> cga_putc this 0x20 m;
           cga_putc this 0x20 m }
         else do {
           con \<leftarrow> crt_write p (ucast c) con;
           Some (m\<lparr>consoles := (consoles m)(this \<mapsto> con\<lparr>crt_pos := p + 1\<rparr>)\<rparr>) });
     m \<leftarrow> upd_console this crt_scroll m;
     crt_cursor this m }"

declare cga_putc.simps [code]

text \<open>\<open>printc\<close> just calls \<open>cga_putc\<close>; the argument of type \<open>char\<close> is extended with its sign.\<close>

definition Console_printc :: "nat \<Rightarrow> u8 \<Rightarrow> machine \<Rightarrow> machine option" where
  "Console_printc this a m = cga_putc this (scast a) m"

section \<open>The driver\<close>

definition Console_driver_init :: "nat \<Rightarrow> u16 list option \<Rightarrow> u16 list \<Rightarrow> machine \<Rightarrow> (err_t \<times> machine) option" where
  "Console_driver_init this cga mda m = do { m \<leftarrow> cga_init this cga mda m; Some (ERR_OK, m) }"

fun Console_driver_write :: "nat \<Rightarrow> u8 list \<Rightarrow> machine \<Rightarrow> machine option" where
  "Console_driver_write this [] m = Some m"
| "Console_driver_write this (c # cs) m = do { m \<leftarrow> Console_printc this c m; Console_driver_write this cs m }"

definition Console_driver_read :: "nat \<Rightarrow> nat \<Rightarrow> machine \<Rightarrow> (u8 list \<times> machine) option" where
  "Console_driver_read this n m = do {
     c \<leftarrow> consoles m this;
     (cs, er, c) \<leftarrow> rx_read n c;
     m \<leftarrow> lift_kernel (set_errno er) (m\<lparr>consoles := (consoles m)(this \<mapsto> c)\<rparr>);
     Some (cs, m) }"

end
