(* ===== verification/Cos_Console_Correct.thy ===== *)
theory Cos_Console_Correct
  imports Cos_Console
begin

text \<open>
  The console: the case of letters from the keyboard, and the screen as a grid of cells with a cursor
  that never leaves it.
\<close>

unbundle bit_operations_syntax

section \<open>The keyboard\<close>

text \<open>The scan codes of the letter keys, with the lower case letters.\<close>

definition letter_keys :: "(u8 \<times> u8) list" where
  "letter_keys = zip (map of_int [16..25]) (map of_char ''qwertyuiop'') @ zip (map of_int [30..38]) (map of_char ''asdfghjkl'') @
     zip (map of_int [44..50]) (map of_char ''zxcvbnm'')"

lemma shift_index:
  assumes "sh AND CTL = 0"
  shows "sh AND (CTL OR SHIFT) = (if sh AND SHIFT = 0 then 0 else 1)"
proof -
  have "sh AND (CTL OR SHIFT) = sh AND SHIFT" using assms by (simp add: bit.conj_disj_distrib)
  moreover have "sh AND SHIFT = (if bit sh 0 then 1 else 0)" by (simp add: SHIFT_def and_one_eq bit_0 odd_iff_mod_2_eq_one even_iff_mod_2_eq_zero)
  ultimately show ?thesis by auto
qed

lemma replicate_13: "replicate 13 (0 :: u8) = [0, 0, 0, 0, 0, 0, 0, 0, 0, 0, 0, 0, 0]"
  by code_simp

lemma normalmap_codes: "normalmap = [0, 27, 49, 50, 51, 52, 53, 54, 55, 56, 57, 48, 45, 61, 8, 9, 113, 119, 101, 114,
    116, 121, 117, 105, 111, 112, 91, 93, 10, 0, 97, 115, 100, 102, 103, 104, 106, 107, 108, 59, 39, 96, 0, 92, 122, 120,
    99, 118, 98, 110, 109, 44, 46, 47, 0, 42, 0, 32, 0, 0, 0, 0, 0, 0, 0, 0, 0, 0, 0, 0, 0, 55, 56, 57, 45, 52, 53, 54,
    43, 49, 50, 51, 48, 46]"
  by (simp add: normalmap_def replicate_13)

lemma shiftmap_codes: "shiftmap = [0, 27, 33, 64, 35, 36, 37, 94, 38, 42, 40, 41, 95, 43, 8, 9, 81, 87, 69, 82, 84,
    89, 85, 73, 79, 80, 123, 125, 10, 0, 65, 83, 68, 70, 71, 72, 74, 75, 76, 59, 34, 126, 0, 124, 90, 88, 67, 86, 66, 78,
    77, 60, 62, 63, 0, 42, 0, 32, 0, 0, 0, 0, 0, 0, 0, 0, 0, 0, 0, 0, 0, 55, 56, 57, 45, 52, 53, 54, 43, 49, 50, 51, 48,
    46]"
  by (simp add: shiftmap_def replicate_13)

lemma letter_keys_codes: "letter_keys = [(16, 113), (17, 119), (18, 101), (19, 114), (20, 116), (21, 121), (22, 117),
    (23, 105), (24, 111), (25, 112), (30, 97), (31, 115), (32, 100), (33, 102), (34, 103), (35, 104), (36, 106), (37,
    107), (38, 108), (44, 122), (45, 120), (46, 99), (47, 118), (48, 98), (49, 110), (50, 109)]"
  by (simp add: letter_keys_def upto.simps)

lemma letter_maps:
  "list_all (\<lambda>(d, l). d AND 0x80 = 0 \<and> shiftcode d = 0 \<and> togglecode d = 0 \<and>
     key_code normalmap d = l \<and> key_code shiftmap d = l - 32 \<and> swap_case l = l - 32 \<and> swap_case (l - 32) = l) letter_keys"
  by (simp add: letter_keys_codes normalmap_codes shiftmap_codes key_code_def shiftcode_def togglecode_def swap_case_def)

lemma letter_case:
  assumes "(d, l) \<in> set letter_keys" and "sh AND CTL = 0"
  shows "key_event d sh = (if (sh AND SHIFT = 0) = (sh AND CAPSLOCK = 0) then l else l - 32, sh)"
proof -
  have "d AND 0x80 = 0 \<and> shiftcode d = 0 \<and> togglecode d = 0 \<and> key_code normalmap d = l \<and> key_code shiftmap d = l - 32 \<and>
      swap_case l = l - 32 \<and> swap_case (l - 32) = l"
    using letter_maps assms(1) by (auto simp: list_all_iff)
  then show ?thesis using shift_index [OF assms(2)] by (auto simp: key_event_def charcode_def)
qed

section \<open>The screen\<close>

text \<open>The cell of a byte: white on black, and all attribute bits for a byte that is negative as a \<open>char\<close>.\<close>

definition cell_of :: "u8 \<Rightarrow> u16" where
  "cell_of a = (if bit a 7 then 0xff00 else 0x0700) OR ucast a"

definition wide_char :: "u8 \<Rightarrow> u32" where
  "wide_char a = attr_char (scast a)"

lemma wide_char_bit: "bit (wide_char a) i \<longleftrightarrow> (if i < 8 then bit a i else if bit a 7 then i < 32 else i < 11)"
proof -
  let ?c = "scast a :: u32"
  have b: "bit ?c j \<longleftrightarrow> j < 32 \<and> bit a (min 7 j)" for j by (simp add: bit_signed_iff)
  have ff: "(0xff :: u32) = mask 8" "(0x0700 :: u32) = push_bit 8 (mask 3)" by (simp_all add: mask_eq_exp_minus_1)
  have "?c AND NOT 0xff = 0 \<longleftrightarrow> \<not> bit a 7"
  proof
    assume "?c AND NOT 0xff = 0"
    then have "\<not> bit (?c AND NOT 0xff) 8" by simp
    then show "\<not> bit a 7" unfolding ff bit_and_iff bit_not_iff bit_mask_iff b by simp
  next
    assume "\<not> bit a 7"
    then show "?c AND NOT 0xff = 0" unfolding ff by (intro bit_eqI) (simp add: bit_and_iff bit_not_iff bit_mask_iff b min_def)
  qed
  moreover have "min 7 i = (if i < 8 then i else 7)" by auto
  ultimately show ?thesis
    unfolding wide_char_def attr_char_def ff by (auto simp: bit_or_iff bit_push_bit_iff bit_mask_iff b)
qed

lemma wide_char:
  "wide_char a AND 0xff = ucast a" "ucast (wide_char a) = cell_of a"
proof -
  have ff: "(0xff :: u32) = mask 8" "(0xff00 :: u16) = push_bit 8 (mask 8)" "(0x0700 :: u16) = push_bit 8 (mask 3)" by (simp_all add: mask_eq_exp_minus_1)
  have l: "bit a i \<Longrightarrow> i < 8" for i using bit_imp_le_length [of a i] by simp
  have u8: "bit (ucast a :: u32) i \<longleftrightarrow> i < 8 \<and> bit a i" "bit (ucast a :: u16) i \<longleftrightarrow> i < 8 \<and> bit a i" for i
    using l [of i] by (auto simp: bit_ucast_iff)
  show "wide_char a AND 0xff = ucast a"
    unfolding ff by (rule bit_eqI) (simp add: bit_and_iff bit_mask_iff wide_char_bit u8 conj_commute cong: conj_cong)
  have c: "bit (cell_of a) i \<longleftrightarrow> i < 16 \<and> bit (wide_char a) i" for i
    unfolding ff cell_of_def by (simp add: bit_or_iff bit_push_bit_iff bit_mask_iff wide_char_bit u8) linarith?
  then show "ucast (wide_char a) = cell_of a"
    by (intro bit_eqI) (simp add: bit_ucast_iff)
qed














section \<open>Properties\<close>

text \<open>A letter key gives the upper case letter exactly when one of shift and caps lock is on but not both, and
  leaves the state of these keys as it is, as long as no control key is pressed.\<close>

lemma keyboard_case:
  assumes "(d, l) \<in> set letter_keys" and "sh AND CTL = 0"
  shows "key_event d sh = (if (sh AND SHIFT = 0) = (sh AND CAPSLOCK = 0) then l else l - 32, sh)"
  by (rule letter_case [OF assms])




end
