(* ===== verification/Cos_Serial.thy ===== *)
theory Cos_Serial
  imports Cos_Rx_Ring
begin

text \<open>
  The driver of the serial port, \<^verbatim>\<open>arch/x86/drivers/serial.cpp\<close>.
\<close>

unbundle bit_operations_syntax

section \<open>Operations\<close>

definition COM1 :: u16 where "COM1 = 0x3F8"
definition COM2 :: u16 where "COM2 = 0x2F8"
definition COM4 :: u16 where "COM4 = 0x2E8"
definition COMSTATUS :: u16 where "COMSTATUS = 5"

definition init_serial :: "nat \<Rightarrow> machine \<Rightarrow> machine option" where
  "init_serial this m = do {
     s \<leftarrow> serials m this;
     let port = ser_PORT s;
     let m = fold (\<lambda>(p, b). outb p b)
       [(port + 1, 0x00), (port + 3, 0x80), (port + 0, 0x01), (port + 3, 0x03), (port + 2, 0xC7), (port + 4, 0x0B)] m;
     let m = snd (arch_interrupt_install (ser_interrupt s) (Some Serial_isr_handler) (Some this) m);
     let m = arch_interrupt_umask (ser_interrupt s) m;
     Some (outb (port + 1) 0x01 m) }"

text \<open>The constructor does not set the ring; \<open>ring\<close> is what the memory of the new object holds.\<close>

definition Serial_new :: "string \<Rightarrow> u16 \<Rightarrow> rx_ring \<Rightarrow> u16 \<Rightarrow> nat \<Rightarrow> machine \<Rightarrow> machine option" where
  "Serial_new name com ring oflag this m = do {
     m \<leftarrow> Device_new Serial_vtable Device_Class_Char name (FLAG_RDWR OR FLAG_INT_RX OR FLAG_STREAM) oflag this m;
     let s = rx_ring.extend ring \<lparr>ser_newline = True, ser_PORT = com,
       ser_interrupt = (if com = COM2 \<or> com = COM4 then INTCOM2 else INTCOM1)\<rparr>;
     init_serial this (m\<lparr>serials := (serials m)(this \<mapsto> s)\<rparr>) }"

definition Serial_delete :: "nat \<Rightarrow> machine \<Rightarrow> machine option" where
  "Serial_delete this m = do {
     s \<leftarrow> serials m this;
     m \<leftarrow> Device_delete this (arch_interrupt_mask (ser_interrupt s) m);
     Some (m\<lparr>serials := (serials m)(this := None)\<rparr>) }"

definition Serial_received :: "nat \<Rightarrow> machine \<Rightarrow> (u8 \<times> machine) option" where
  "Serial_received this m = do {
     s \<leftarrow> serials m this;
     (b, m) \<leftarrow> inb (ser_PORT s + COMSTATUS) m;
     Some (b AND 1, m) }"

partial_function (option) Serial_sgetc :: "nat \<Rightarrow> machine \<Rightarrow> (u8 \<times> machine) option" where
  "Serial_sgetc this m = do {
     (r, m) \<leftarrow> Serial_received this m;
     if r = 0 then Serial_sgetc this m
     else do { s \<leftarrow> serials m this; inb (ser_PORT s) m } }"

definition is_transmit_empty :: "nat \<Rightarrow> machine \<Rightarrow> (u8 \<times> machine) option" where
  "is_transmit_empty this m = do {
     s \<leftarrow> serials m this;
     (b, m) \<leftarrow> inb (ser_PORT s + COMSTATUS) m;
     Some (b AND 0x20, m) }"

text \<open>The codes of newline and carriage return are 10 and 13.\<close>

partial_function (option) Serial_printc :: "nat \<Rightarrow> u8 \<Rightarrow> machine \<Rightarrow> machine option" where
  "Serial_printc this a m = do {
     (r, m) \<leftarrow> is_transmit_empty this m;
     if r = 0 then Serial_printc this a m
     else do {
       s \<leftarrow> serials m this;
       Some (if a = 10 \<and> ser_newline s then outb (ser_PORT s) 13 (outb (ser_PORT s) 10 m)
         else outb (ser_PORT s) a m) } }"

declare Serial_sgetc.simps [code] Serial_printc.simps [code]

text \<open>\<open>buffer\<close> holds the \<open>size\<close> bytes the caller passes.\<close>

fun Serial_driver_write :: "nat \<Rightarrow> u8 list \<Rightarrow> machine \<Rightarrow> machine option" where
  "Serial_driver_write this [] m = Some m"
| "Serial_driver_write this (c # cs) m = do { m \<leftarrow> Serial_printc this c m; Serial_driver_write this cs m }"

text \<open>The bytes that are read, at most \<open>n\<close>; their number is the result in the code.\<close>

definition Serial_driver_read :: "nat \<Rightarrow> nat \<Rightarrow> machine \<Rightarrow> (u8 list \<times> machine) option" where
  "Serial_driver_read this n m = do {
     s \<leftarrow> serials m this;
     (cs, er, s) \<leftarrow> rx_read n s;
     m \<leftarrow> lift_kernel (set_errno er) (m\<lparr>serials := (serials m)(this \<mapsto> s)\<rparr>);
     Some (cs, m) }"

definition Serial_isr :: "nat \<Rightarrow> machine \<Rightarrow> machine option" where
  "Serial_isr this m = do {
     (c, m) \<leftarrow> Serial_sgetc this m;
     s \<leftarrow> serials m this;
     s \<leftarrow> rx_save c s;
     Some (m\<lparr>serials := (serials m)(this \<mapsto> s)\<rparr>) }"

section \<open>Output\<close>

text \<open>What remains of the values of the status port when \<open>n\<close> bytes have been sent, each after the
  transmitter was ready.\<close>

fun after_ready :: "nat \<Rightarrow> u8 list \<Rightarrow> u8 list option" where
  "after_ready 0 st = Some st"
| "after_ready (Suc n) [] = None"
| "after_ready (Suc n) (b # st) = (if b AND 0x20 = 0 then after_ready (Suc n) st else after_ready n st)"

fun newline_bytes :: "u8 \<Rightarrow> u8 list" where
  "newline_bytes c = (if c = 10 then [10, 13] else [c])"

lemma after_ready_Suc: "after_ready (Suc n) st = Some st' \<Longrightarrow> \<exists>st1. after_ready 1 st = Some st1 \<and> after_ready n st1 = Some st'"
  by (induction "Suc n" st arbitrary: n rule: after_ready.induct) (auto split: if_splits)

lemma Serial_printc_ready:
  assumes "serials m this = Some s" and "ser_newline s" and "in_ports m (ser_PORT s + COMSTATUS) = st" and "after_ready 1 st = Some st'"
  shows "Serial_printc this c m = Some (set_in (ser_PORT s + COMSTATUS) st' (emit (map (Pair (ser_PORT s)) (newline_bytes c)) m))"
  using assms
proof (induction st arbitrary: m)
  case (Cons b st)
  let ?m = "set_in (ser_PORT s + COMSTATUS) st m"
  have e: "is_transmit_empty this m = Some (b AND 0x20, ?m)" using Cons.prems by (simp add: is_transmit_empty_def inb_def)
  show ?case
  proof (cases "b AND 0x20 = 0")
    case True
    then have "Serial_printc this c m = Serial_printc this c ?m" using e by (subst Serial_printc.simps) simp
    then show ?thesis using Cons.IH [of ?m] Cons.prems True by simp
  next
    case False
    then show ?thesis using e Cons.prems by (subst Serial_printc.simps) (simp add: outb_def)
  qed
qed simp

lemma Serial_write_ready:
  assumes "serials m this = Some s" and "ser_newline s" and "after_ready (length cs) (in_ports m (ser_PORT s + COMSTATUS)) = Some st'"
  shows "Serial_driver_write this cs m = 
    Some (set_in (ser_PORT s + COMSTATUS) st' (emit (map (Pair (ser_PORT s)) (concat (map newline_bytes cs))) m))"
  using assms
proof (induction cs arbitrary: m)
  case (Cons c cs)
  obtain st1 where st1: "after_ready 1 (in_ports m (ser_PORT s + COMSTATUS)) = Some st1" "after_ready (length cs) st1 = Some st'"
    using after_ready_Suc Cons.prems(3) by (metis length_Cons)
  let ?m = "set_in (ser_PORT s + COMSTATUS) st1 (emit (map (Pair (ser_PORT s)) (newline_bytes c)) m)"
  have "Serial_printc this c m = Some ?m" by (rule Serial_printc_ready [OF Cons.prems(1,2) refl st1(1)])
  moreover have "Serial_driver_write this cs ?m =
      Some (set_in (ser_PORT s + COMSTATUS) st' (emit (map (Pair (ser_PORT s)) (concat (map newline_bytes cs))) ?m))"
    by (rule Cons.IH) (use Cons.prems st1 in simp_all)
  ultimately show ?case by (simp del: newline_bytes.simps)
qed (simp add: set_in_id)

section \<open>Input\<close>

lemma Serial_sgetc_ready:
  assumes "serials m this = Some s" and "in_ports m (ser_PORT s + COMSTATUS) = replicate n 0 @ 1 # st" and "in_ports m (ser_PORT s) = c # cs"
  shows "Serial_sgetc this m = Some (c, set_in (ser_PORT s) cs (set_in (ser_PORT s + COMSTATUS) st m))"
  using assms
proof (induction n arbitrary: m)
  case 0
  have "ser_PORT s \<noteq> ser_PORT s + COMSTATUS" by (simp add: COMSTATUS_def)
  then show ?case using 0 by (subst Serial_sgetc.simps) (simp add: Serial_received_def inb_def)
next
  case (Suc n)
  let ?m = "set_in (ser_PORT s + COMSTATUS) (replicate n 0 @ 1 # st) m"
  have "ser_PORT s \<noteq> ser_PORT s + COMSTATUS" by (simp add: COMSTATUS_def)
  then have "Serial_sgetc this ?m = Some (c, set_in (ser_PORT s) cs (set_in (ser_PORT s + COMSTATUS) st ?m))"
    by (intro Suc.IH) (use Suc.prems in simp_all)
  moreover have "Serial_sgetc this m = Serial_sgetc this ?m"
    using Suc.prems by (subst Serial_sgetc.simps) (simp add: Serial_received_def inb_def)
  ultimately show ?case by simp
qed

end
