(* ===== verification/Cos_Video.thy ===== *)
theory Cos_Video
  imports Cos_Machine
begin

text \<open>
  The frame buffer, \<^verbatim>\<open>kernel/device/graphic_device.cpp\<close> and \<^verbatim>\<open>arch/x86/drivers/video.cpp\<close>. Pixels are
  sequences of \<open>bits_per_pixel_ / 8\<close> bytes; an access outside the frame buffer has no outcome.
\<close>

section \<open>Operations\<close>

definition CTRL_RECT_UPDATE :: u8 where "CTRL_RECT_UPDATE = 0"
definition CTRL_GET_WIDTH :: u8 where "CTRL_GET_WIDTH = 5"
definition CTRL_GET_HEIGHT :: u8 where "CTRL_GET_HEIGHT = 6"
definition CTRL_GET_FRAME :: u8 where "CTRL_GET_FRAME = 7"
definition CTRL_GET_FORMAT :: u8 where "CTRL_GET_FORMAT = 8"
definition CTRL_GET_BITS_PER_PIXEL :: u8 where "CTRL_GET_BITS_PER_PIXEL = 9"

lemmas graphic_ctrl_defs = CTRL_RECT_UPDATE_def CTRL_GET_WIDTH_def CTRL_GET_HEIGHT_def CTRL_GET_FRAME_def
  CTRL_GET_FORMAT_def CTRL_GET_BITS_PER_PIXEL_def

text \<open>What is stored through the argument pointer.\<close>

datatype ctrl_arg = Arg16 u16 | Arg8 u8 | Arg_format color_type | Arg_pointer u32

definition Graphic_driver_control :: "u8 \<Rightarrow> video \<Rightarrow> err_t \<times> ctrl_arg option" where
  "Graphic_driver_control cmd v =
     (if cmd = CTRL_GET_WIDTH then (ERR_OK, Some (Arg16 (vid_width v)))
      else if cmd = CTRL_GET_HEIGHT then (ERR_OK, Some (Arg16 (vid_height v)))
      else if cmd = CTRL_GET_FRAME then (ERR_OK, Some (Arg8 (bits_per_pixel v)))
      else if cmd = CTRL_GET_FORMAT then (ERR_OK, Some (Arg_format (pixel_format v)))
      else if cmd = CTRL_GET_BITS_PER_PIXEL then (ERR_OK, Some (Arg_pointer (framebuffer_addr v)))
      else (- ERR_IO, None))"

definition Video_new ::
  "string \<Rightarrow> u16 \<Rightarrow> u16 \<Rightarrow> u8 \<Rightarrow> color_type \<Rightarrow> u32 \<Rightarrow> u8 list \<Rightarrow> u16 \<Rightarrow> nat \<Rightarrow> machine \<Rightarrow> machine option" where
  "Video_new name w h bits format frame mem oflag this m = do {
     m \<leftarrow> Device_new Graphic_vtable Device_Class_Graphic name (or FLAG_RDWR FLAG_STANDALONE) oflag this m;
     Some (m\<lparr>videos := (videos m)(this \<mapsto> \<lparr>pixel_format = format, bits_per_pixel = bits, vid_width = w,
       vid_height = h, framebuffer_addr = frame, framebuffer = mem\<rparr>)\<rparr>) }"

text \<open>The number of bytes of a pixel, and the offset of a pixel; \<open>int\<close> arithmetic has 32 bits.\<close>

definition pixel_bytes :: "video \<Rightarrow> nat" where
  "pixel_bytes v = unat (bits_per_pixel v div 8)"

definition pixel_where :: "video \<Rightarrow> int \<Rightarrow> int \<Rightarrow> u32" where
  "pixel_where v x y = word_of_int (x * int (pixel_bytes v) + y * uint (vid_width v) * int (pixel_bytes v))"

fun put_bytes :: "nat \<Rightarrow> u32 \<Rightarrow> u8 list \<Rightarrow> u8 list \<Rightarrow> u8 list option" where
  "put_bytes 0 i px fb = Some fb"
| "put_bytes (Suc n) i [] fb = None"
| "put_bytes (Suc n) i (b # px) fb = (if unat i < length fb then put_bytes n (i + 1) px (fb[unat i := b]) else None)"

fun get_bytes :: "nat \<Rightarrow> u32 \<Rightarrow> u8 list \<Rightarrow> u8 list option" where
  "get_bytes 0 i fb = Some []"
| "get_bytes (Suc n) i fb = (if unat i < length fb then do { bs \<leftarrow> get_bytes n (i + 1) fb; Some (fb ! unat i # bs) } else None)"

definition set_pixel :: "u8 list \<Rightarrow> int \<Rightarrow> int \<Rightarrow> video \<Rightarrow> video option" where
  "set_pixel pixel x y v = do {
     fb \<leftarrow> put_bytes (pixel_bytes v) (pixel_where v x y) pixel (framebuffer v);
     Some (v\<lparr>framebuffer := fb\<rparr>) }"

definition get_pixel :: "int \<Rightarrow> int \<Rightarrow> video \<Rightarrow> u8 list option" where
  "get_pixel x y v = get_bytes (pixel_bytes v) (pixel_where v x y) (framebuffer v)"

function draw_hline :: "u8 list \<Rightarrow> int \<Rightarrow> int \<Rightarrow> int \<Rightarrow> video \<Rightarrow> video option" where
  "draw_hline pixel x1 x2 y v =
     (if x1 < x2 then do { v \<leftarrow> set_pixel pixel x1 y v; draw_hline pixel (x1 + 1) x2 y v } else Some v)"
  by auto
termination by (relation "measure (\<lambda>(_, x1, x2, _). nat (x2 - x1))") auto

function draw_vline :: "u8 list \<Rightarrow> int \<Rightarrow> int \<Rightarrow> int \<Rightarrow> video \<Rightarrow> video option" where
  "draw_vline pixel x y1 y2 v =
     (if y1 < y2 then do { v \<leftarrow> set_pixel pixel x y1 v; draw_vline pixel x (y1 + 1) y2 v } else Some v)"
  by auto
termination by (relation "measure (\<lambda>(_, _, y1, y2, _). nat (y2 - y1))") auto

declare draw_hline.simps [simp del] draw_vline.simps [simp del]

text \<open>The pixel pointer does not move: the same pixel is stored \<open>size\<close> times.\<close>

fun blit_loop :: "nat \<Rightarrow> u8 list \<Rightarrow> nat \<Rightarrow> u32 \<Rightarrow> u8 list \<Rightarrow> u8 list option" where
  "blit_loop n px 0 i fb = Some fb"
| "blit_loop n px (Suc s) i fb = do { fb \<leftarrow> put_bytes n i px fb; blit_loop n px s (i + of_nat n) fb }"

definition blit_line :: "u8 list \<Rightarrow> int \<Rightarrow> int \<Rightarrow> nat \<Rightarrow> video \<Rightarrow> video option" where
  "blit_line pixel x y s v = do {
     fb \<leftarrow> blit_loop (pixel_bytes v) pixel s (pixel_where v x y) (framebuffer v);
     Some (v\<lparr>framebuffer := fb\<rparr>) }"

text \<open>The mode the boot loader has set up: bytes per line, resolution and address of the frame buffer.\<close>

definition video_format :: "u8 \<Rightarrow> color_type" where
  "video_format BT = (if BT = 2 then PIXEL_FORMAT_RGB565 else if BT = 3 then PIXEL_FORMAT_RGB888
     else if BT = 4 then PIXEL_FORMAT_ARGB888 else PIXEL_FORMAT_MONO)"

section \<open>Pixels\<close>

text \<open>A frame buffer that holds all pixels, and can be addressed.\<close>

definition video_ok :: "video \<Rightarrow> bool" where
  "video_ok v \<longleftrightarrow> unat (vid_width v) * unat (vid_height v) * pixel_bytes v \<le> length (framebuffer v) \<and>
     length (framebuffer v) < 2 ^ 32"

definition on_screen :: "video \<Rightarrow> int \<Rightarrow> int \<Rightarrow> bool" where
  "on_screen v x y \<longleftrightarrow> 0 \<le> x \<and> x < uint (vid_width v) \<and> 0 \<le> y \<and> y < uint (vid_height v)"

definition pixel_no :: "video \<Rightarrow> int \<Rightarrow> int \<Rightarrow> nat" where
  "pixel_no v x y = nat x + nat y * unat (vid_width v)"

lemma pixel_no_bound:
  assumes "on_screen v x y"
  shows "pixel_no v x y < unat (vid_width v) * unat (vid_height v)"
proof -
  have x: "nat x < unat (vid_width v)" "nat y < unat (vid_height v)" using assms by (auto simp: on_screen_def nat_less_iff)
  then have "Suc (nat y) * unat (vid_width v) \<le> unat (vid_height v) * unat (vid_width v)" by (intro mult_le_mono1) simp
  then show ?thesis using x(1) by (simp add: pixel_no_def mult.commute)
qed

lemma pixel_no_inject:
  assumes "on_screen v x y" "on_screen v x' y'"
  shows "pixel_no v x y = pixel_no v x' y' \<longleftrightarrow> x = x' \<and> y = y'"
proof
  let ?w = "unat (vid_width v)"
  have x: "nat x < ?w" "nat x' < ?w" "0 \<le> x" "0 \<le> x'" "0 \<le> y" "0 \<le> y'" using assms by (auto simp: on_screen_def nat_less_iff)
  assume e: "pixel_no v x y = pixel_no v x' y'"
  from arg_cong [OF e, of "\<lambda>i. i mod ?w"] arg_cong [OF e, of "\<lambda>i. i div ?w"] x show "x = x' \<and> y = y'" by (simp add: pixel_no_def eq_nat_nat_iff)
qed simp

lemma pixel_where_no:
  assumes "video_ok v" "on_screen v x y"
  shows "unat (pixel_where v x y) = pixel_no v x y * pixel_bytes v"
    and "pixel_no v x y * pixel_bytes v + pixel_bytes v \<le> length (framebuffer v)"
proof -
  have "Suc (pixel_no v x y) * pixel_bytes v \<le> unat (vid_width v) * unat (vid_height v) * pixel_bytes v"
    using pixel_no_bound [OF assms(2)] by (intro mult_le_mono1) simp
  then show le: "pixel_no v x y * pixel_bytes v + pixel_bytes v \<le> length (framebuffer v)" using assms(1) by (simp add: video_ok_def)
  have "x * int (pixel_bytes v) + y * uint (vid_width v) * int (pixel_bytes v) = int (pixel_no v x y * pixel_bytes v)"
    using assms(2) by (simp add: pixel_no_def on_screen_def algebra_simps)
  then have "pixel_where v x y = word_of_nat (pixel_no v x y * pixel_bytes v)" unfolding pixel_where_def by (simp only: of_int_of_nat_eq)
  moreover have "pixel_no v x y * pixel_bytes v < 2 ^ 32" using le assms(1) by (simp add: video_ok_def)
  ultimately show "unat (pixel_where v x y) = pixel_no v x y * pixel_bytes v"
    by (simp only: unat_of_nat) (simp add: take_bit_nat_eq_self)
qed

lemma put_bytes_nth:
  assumes "unat i + n \<le> length fb" "length fb < 2 ^ 32" "n \<le> length px"
  shows "\<exists>fb'. put_bytes n i px fb = Some fb' \<and> length fb' = length fb \<and>
    (\<forall>j < length fb. fb' ! j = (if unat i \<le> j \<and> j < unat i + n then px ! (j - unat i) else fb ! j))"
  using assms
proof (induction n i px fb rule: put_bytes.induct)
  case (3 n i b px fb)
  have i: "unat (i + 1) = unat i + 1" if "0 < n"
    using 3(2,3) that by (subst unat_add_lem [THEN iffD1]) simp_all
  show ?case
  proof (cases n)
    case 0
    then show ?thesis using 3(2) by (auto simp: nth_list_update)
  next
    case (Suc n')
    obtain fb' where fb': "put_bytes n (i + 1) px (fb[unat i := b]) = Some fb'" "length fb' = length fb"
      "\<And>j. j < length fb \<Longrightarrow> fb' ! j = (if unat i + 1 \<le> j \<and> j < unat i + 1 + n then px ! (j - (unat i + 1)) else fb[unat i := b] ! j)"
      using 3(1) 3(2-4) i Suc by auto
    have "fb' ! j = (if unat i \<le> j \<and> j < unat i + Suc n then (b # px) ! (j - unat i) else fb ! j)" if "j < length fb" for j
      using fb'(3) [OF that] that by (auto simp: nth_Cons' nth_list_update)
    then show ?thesis using fb'(1,2) 3(2) by auto
  qed
qed auto

lemma get_bytes_take:
  assumes "unat i + n \<le> length fb" "length fb < 2 ^ 32"
  shows "get_bytes n i fb = Some (take n (drop (unat i) fb))"
  using assms
proof (induction n i fb rule: get_bytes.induct)
  case (2 n i fb)
  show ?case
  proof (cases n)
    case 0
    then show ?thesis using 2(2) by (simp add: take_Suc hd_drop_conv_nth)
  next
    case (Suc n')
    have i: "unat (i + 1) = Suc (unat i)" using 2(2,3) Suc by (subst unat_add_lem [THEN iffD1]) simp_all
    then have "get_bytes n (i + 1) fb = Some (take n (drop (Suc (unat i)) fb))" using 2 by simp
    then show ?thesis using 2(2) by (simp add: Cons_nth_drop_Suc [symmetric])
  qed
qed simp

lemma pixel_disjoint:
  assumes "(k :: nat) \<noteq> l" "k * n \<le> j" "j < k * n + n"
  shows "\<not> (l * n \<le> j \<and> j < l * n + n)"
proof (cases "k < l")
  case True
  then have "Suc k * n \<le> l * n" by (intro mult_le_mono1) simp
  then show ?thesis using assms by simp
next
  case False
  then have "Suc l * n \<le> k * n" using assms(1) by (intro mult_le_mono1) simp
  then show ?thesis using assms by simp
qed

lemma set_pixel_pixels:
  assumes ok: "video_ok v" and at: "on_screen v x y" and px: "pixel_bytes v \<le> length pixel"
  shows "\<exists>fb. set_pixel pixel x y v = Some (v\<lparr>framebuffer := fb\<rparr>) \<and> video_ok (v\<lparr>framebuffer := fb\<rparr>) \<and>
    (\<forall>x' y'. on_screen v x' y' \<longrightarrow> get_pixel x' y' (v\<lparr>framebuffer := fb\<rparr>) =
      (if x' = x \<and> y' = y then Some (take (pixel_bytes v) pixel) else get_pixel x' y' v))"
proof -
  let ?n = "pixel_bytes v" and ?i = "pixel_no v x y * pixel_bytes v"
  have l: "length (framebuffer v) < 2 ^ 32" using ok by (simp add: video_ok_def)
  obtain fb where fb: "put_bytes ?n (pixel_where v x y) pixel (framebuffer v) = Some fb" "length fb = length (framebuffer v)"
    "\<And>j. j < length (framebuffer v) \<Longrightarrow> fb ! j = (if ?i \<le> j \<and> j < ?i + ?n then pixel ! (j - ?i) else framebuffer v ! j)"
    using put_bytes_nth [of "pixel_where v x y" ?n "framebuffer v" pixel] pixel_where_no [OF ok at] l px by auto
  let ?v = "v\<lparr>framebuffer := fb\<rparr>"
  have geo: "pixel_bytes ?v = ?n" "pixel_where ?v x' y' = pixel_where v x' y'" for x' y' by (simp_all add: pixel_bytes_def pixel_where_def)
  have "get_pixel x' y' ?v = (if x' = x \<and> y' = y then Some (take ?n pixel) else get_pixel x' y' v)" if at': "on_screen v x' y'" for x' y'
  proof -
    let ?k = "pixel_no v x' y' * ?n"
    note w = pixel_where_no [OF ok at']
    have g: "get_pixel x' y' ?v = Some (take ?n (drop ?k fb))" "get_pixel x' y' v = Some (take ?n (drop ?k (framebuffer v)))"
      using get_bytes_take [of "pixel_where v x' y'" ?n] w fb(2) l by (simp_all add: get_pixel_def geo)
    show ?thesis
    proof (cases "x' = x \<and> y' = y")
      case True
      then have "take ?n (drop ?k fb) = take ?n pixel" using w fb(2,3) px by (intro nth_equalityI) auto
      then show ?thesis using True g(1) by simp
    next
      case False
      then have "pixel_no v x' y' \<noteq> pixel_no v x y" using pixel_no_inject [OF at' at] by simp
      then have "fb ! j = framebuffer v ! j" if "?k \<le> j" "j < ?k + ?n" for j
        using fb(3) [of j] pixel_disjoint [OF _ that, of "pixel_no v x y"] that w(2) by auto
      then have "take ?n (drop ?k fb) = take ?n (drop ?k (framebuffer v))" using w fb(2) by (intro nth_equalityI) auto
      then show ?thesis using False g by auto
    qed
  qed
  moreover have "video_ok ?v" using ok fb(2) by (simp add: video_ok_def geo)
  ultimately show ?thesis using fb(1) by (auto simp: set_pixel_def)
qed

section \<open>Properties\<close>

text \<open>C37: a horizontal line on the screen sets exactly its pixels: afterwards every pixel from \<open>x1\<close> to before \<open>x2\<close> in
  line \<open>y\<close> reads as the given one, and every other pixel of the screen as before.\<close>

theorem draw_hline_pixels:
  assumes "video_ok v" and "0 \<le> x1" and "x2 \<le> uint (vid_width v)" and "0 \<le> y" and "y < uint (vid_height v)"
    and "pixel_bytes v \<le> length pixel"
  shows "\<exists>fb. draw_hline pixel x1 x2 y v = Some (v\<lparr>framebuffer := fb\<rparr>) \<and>
    (\<forall>x' y'. on_screen v x' y' \<longrightarrow> get_pixel x' y' (v\<lparr>framebuffer := fb\<rparr>) =
      (if x1 \<le> x' \<and> x' < x2 \<and> y' = y then Some (take (pixel_bytes v) pixel) else get_pixel x' y' v))"
  using assms
proof (induction "nat (x2 - x1)" arbitrary: x1 v)
  case 0
  then have "draw_hline pixel x1 x2 y v = Some (v\<lparr>framebuffer := framebuffer v\<rparr>)" by (simp add: draw_hline.simps)
  then show ?case using 0 by (intro exI [of _ "framebuffer v"]) auto
next
  case (Suc n)
  then have lt: "x1 < x2" and at: "on_screen v x1 y" by (auto simp: on_screen_def)
  obtain fb where fb: "set_pixel pixel x1 y v = Some (v\<lparr>framebuffer := fb\<rparr>)" "video_ok (v\<lparr>framebuffer := fb\<rparr>)"
    "\<And>x' y'. on_screen v x' y' \<Longrightarrow> get_pixel x' y' (v\<lparr>framebuffer := fb\<rparr>) =
      (if x' = x1 \<and> y' = y then Some (take (pixel_bytes v) pixel) else get_pixel x' y' v)"
    using set_pixel_pixels [OF Suc.prems(1) at Suc.prems(6)] by blast
  let ?v = "v\<lparr>framebuffer := fb\<rparr>"
  have geo: "pixel_bytes ?v = pixel_bytes v" "on_screen ?v = on_screen v" by (simp_all add: pixel_bytes_def on_screen_def fun_eq_iff)
  have n: "n = nat (x2 - (x1 + 1))" "0 \<le> x1 + 1" "x2 \<le> uint (vid_width ?v)" "y < uint (vid_height ?v)" "pixel_bytes ?v \<le> length pixel"
    using Suc.hyps(2) Suc.prems geo by simp_all
  obtain fb' where fb': "draw_hline pixel (x1 + 1) x2 y ?v = Some (?v\<lparr>framebuffer := fb'\<rparr>)"
    "\<And>x' y'. on_screen v x' y' \<Longrightarrow> get_pixel x' y' (?v\<lparr>framebuffer := fb'\<rparr>) =
      (if x1 + 1 \<le> x' \<and> x' < x2 \<and> y' = y then Some (take (pixel_bytes v) pixel) else get_pixel x' y' ?v)"
    using Suc.hyps(1) [OF n(1) fb(2) n(2,3) Suc.prems(4) n(4,5)] unfolding geo by blast
  have "draw_hline pixel x1 x2 y v = Some (v\<lparr>framebuffer := fb'\<rparr>)" using lt fb(1) fb'(1) by (subst draw_hline.simps) simp
  moreover have "get_pixel x' y' (v\<lparr>framebuffer := fb'\<rparr>) =
      (if x1 \<le> x' \<and> x' < x2 \<and> y' = y then Some (take (pixel_bytes v) pixel) else get_pixel x' y' v)" if "on_screen v x' y'" for x' y'
    using fb'(2) [OF that] fb(3) [OF that] lt by (cases "x' = x1") auto
  ultimately show ?case by blast
qed

theorem draw_hline_pixels_witness:
  "\<exists>fb. draw_hline [1, 2] 0 2 1 \<lparr>pixel_format = PIXEL_FORMAT_RGB565, bits_per_pixel = 16, vid_width = 3, vid_height = 2,
      framebuffer_addr = 0, framebuffer = replicate 12 0\<rparr> = Some \<lparr>pixel_format = PIXEL_FORMAT_RGB565, bits_per_pixel = 16,
      vid_width = 3, vid_height = 2, framebuffer_addr = 0, framebuffer = fb\<rparr> \<and>
    get_pixel 1 1 \<lparr>pixel_format = PIXEL_FORMAT_RGB565, bits_per_pixel = 16, vid_width = 3, vid_height = 2,
      framebuffer_addr = 0, framebuffer = fb\<rparr> = Some [1, 2]"
proof -
  let ?v = "\<lparr>pixel_format = PIXEL_FORMAT_RGB565, bits_per_pixel = 16, vid_width = 3, vid_height = 2,
      framebuffer_addr = 0, framebuffer = replicate 12 0\<rparr>"
  have n: "pixel_bytes ?v = 2" by (simp add: pixel_bytes_def)
  have "video_ok ?v" by (simp add: video_ok_def n)
  from draw_hline_pixels [OF this, of 0 2 1 "[1, 2]"] n
  show ?thesis by (force simp: on_screen_def)
qed

end
