(* ===== verification/Cos_Mouse.thy ===== *)
theory Cos_Mouse
  imports Cos_Machine
begin

text \<open>
  The PS/2 mouse, \<^verbatim>\<open>arch/x86/drivers/mouse.cpp\<close>. \<open>rx_ind\<close> stands for the callbacks of the application: it
  takes the function, the device and the number of bytes.
\<close>

unbundle bit_operations_syntax

type_synonym rx_callback = "nat \<Rightarrow> nat \<Rightarrow> u32 \<Rightarrow> machine \<Rightarrow> machine option"

section \<open>Operations\<close>

definition rx_notify :: "rx_callback \<Rightarrow> nat \<Rightarrow> u32 \<Rightarrow> machine \<Rightarrow> machine option" where
  "rx_notify rx_ind this n m = do {
     d \<leftarrow> devices m this;
     (case dev_rx_indicate d of None \<Rightarrow> Some m | Some f \<Rightarrow> rx_ind f this n m) }"

text \<open>The bytes of the array are \<open>signed char\<close>; they are kept as they come.\<close>

definition Mouse_packet :: "u8 \<Rightarrow> mouse \<Rightarrow> mouse" where
  "Mouse_packet b s =
     (if mouse_cycle s = 0 then s\<lparr>mouse_byte := (mouse_byte s)[0 := b], mouse_cycle := mouse_cycle s + 1\<rparr>
      else if mouse_cycle s = 1 then s\<lparr>mouse_byte := (mouse_byte s)[1 := b], mouse_cycle := mouse_cycle s + 1\<rparr>
      else let s = s\<lparr>mouse_byte := (mouse_byte s)[2 := b]\<rparr>
           in s\<lparr>mouse_x := mouse_byte s ! 1, mouse_y := mouse_byte s ! 2, mouse_cycle := 0\<rparr>)"

definition Mouse_isr :: "rx_callback \<Rightarrow> nat \<Rightarrow> machine \<Rightarrow> machine option" where
  "Mouse_isr rx_ind this m = do {
     s \<leftarrow> mice m this;
     m \<leftarrow> (if mouse_cycle s \<le> 2 then do {
             (b, m) \<leftarrow> inb 0x60 m;
             Some (m\<lparr>mice := (mice m)(this \<mapsto> Mouse_packet b s)\<rparr>) }
          else Some m);
     rx_notify rx_ind this 0 m }"

text \<open>The loop of \<open>wait\<close>, with the number of attempts that are left; it gives up after the last one.\<close>

fun Mouse_wait_loop :: "nat \<Rightarrow> bool \<Rightarrow> machine \<Rightarrow> machine option" where
  "Mouse_wait_loop 0 signal m = Some m"
| "Mouse_wait_loop (Suc n) signal m = do {
     (b, m) \<leftarrow> inb 0x64 m;
     if (if signal then b AND 2 = 0 else b AND 1 = 1) then Some m else Mouse_wait_loop n signal m }"

definition Mouse_wait :: "u8 \<Rightarrow> machine \<Rightarrow> machine option" where
  "Mouse_wait a_type m = Mouse_wait_loop 100000 (a_type \<noteq> 0) m"

definition Mouse_write :: "u8 \<Rightarrow> machine \<Rightarrow> machine option" where
  "Mouse_write a m = do {
     m \<leftarrow> Mouse_wait 1 m;
     m \<leftarrow> Mouse_wait 1 (outb 0x64 0xD4 m);
     Some (outb 0x60 a m) }"

definition Mouse_read :: "machine \<Rightarrow> (u8 \<times> machine) option" where
  "Mouse_read m = do { m \<leftarrow> Mouse_wait 0 m; inb 0x60 m }"

definition Mouse_install :: "nat \<Rightarrow> machine \<Rightarrow> machine option" where
  "Mouse_install this m = do {
     let m = snd (arch_interrupt_install INTMOUSE (Some Mouse_isr_handler) (Some this) m);
     let m = arch_interrupt_umask INTMOUSE m;
     m \<leftarrow> Mouse_wait 1 m;
     m \<leftarrow> Mouse_wait 1 (outb 0x64 0xA8 m);
     m \<leftarrow> Mouse_wait 0 (outb 0x64 0x20 m);
     (b, m) \<leftarrow> inb 0x60 m;
     m \<leftarrow> Mouse_wait 1 m;
     m \<leftarrow> Mouse_wait 1 (outb 0x64 0x60 m);
     m \<leftarrow> Mouse_wait 1 (outb 0x60 (b OR 2) m);
     m \<leftarrow> Mouse_write 0xF6 m;
     (_, m) \<leftarrow> Mouse_read m;
     m \<leftarrow> Mouse_write 0xF4 m;
     (_, m) \<leftarrow> Mouse_read m;
     Some m }"

text \<open>\<open>bytes\<close> is what the array of the new object holds.\<close>

definition Mouse_new :: "string \<Rightarrow> u8 list \<Rightarrow> u16 \<Rightarrow> nat \<Rightarrow> machine \<Rightarrow> machine option" where
  "Mouse_new name bytes oflag this m = do {
     m \<leftarrow> Device_new Mouse_vtable Device_Class_Char name (FLAG_RDWR OR FLAG_INT_RX) oflag this m;
     Mouse_install this (m\<lparr>mice := (mice m)(this \<mapsto> \<lparr>mouse_cycle = 0, mouse_byte = bytes, mouse_x = 0, mouse_y = 0\<rparr>)\<rparr>) }"

definition Mouse_delete :: "nat \<Rightarrow> machine \<Rightarrow> machine option" where
  "Mouse_delete this m = do {
     m \<leftarrow> Device_delete this (arch_interrupt_mask INTMOUSE m);
     Some (m\<lparr>mice := (mice m)(this := None)\<rparr>) }"

section \<open>Packets\<close>

text \<open>Three bytes in a row are a packet; the second and the third are the movement.\<close>

lemma mouse_packet:
  assumes "mouse_cycle s = 0" and "length (mouse_byte s) = 3"
  shows "Mouse_packet c (Mouse_packet b (Mouse_packet a s)) =
    s\<lparr>mouse_byte := [a, b, c], mouse_x := b, mouse_y := c, mouse_cycle := 0\<rparr>"
  using assms by (cases s) (auto simp: Mouse_packet_def numeral_3_eq_3 length_Suc_conv Let_def)

end
