(* ===== verification/Cos_Device.thy ===== *)
theory Cos_Device
  imports Cos_Serial Cos_Console Cos_Video Cos_Mouse
begin

text \<open>
  Devices, \<^verbatim>\<open>kernel/device/device.cpp\<close>, and the messages of the kernel, \<^verbatim>\<open>kernel/kservice.cpp\<close>, which go to
  the console device. A call of a virtual function is a case distinction on the class of the device;
  the drivers of application classes, the screen memory and the callbacks are parameters, collected in \<open>devenv\<close>.
  \<open>printk\<close> takes the text that \<open>vsnprintf\<close> makes of its arguments.
\<close>

unbundle bit_operations_syntax

record devenv =
  screen_cga :: "u16 list option"
  screen_mda :: "u16 list"
  rx_ind :: rx_callback
  user_init :: "nat \<Rightarrow> nat \<Rightarrow> machine \<Rightarrow> (err_t \<times> machine) option"
  user_open :: "nat \<Rightarrow> nat \<Rightarrow> u16 \<Rightarrow> machine \<Rightarrow> (err_t \<times> machine) option"
  user_close :: "nat \<Rightarrow> nat \<Rightarrow> machine \<Rightarrow> (err_t \<times> machine) option"
  user_control :: "nat \<Rightarrow> nat \<Rightarrow> u8 \<Rightarrow> machine \<Rightarrow> (err_t \<times> ctrl_arg option \<times> machine) option"
  user_write :: "nat \<Rightarrow> nat \<Rightarrow> u8 list \<Rightarrow> machine \<Rightarrow> (nat \<times> machine) option"
  user_read :: "nat \<Rightarrow> nat \<Rightarrow> nat \<Rightarrow> machine \<Rightarrow> (u8 list \<times> machine) option"

section \<open>Virtual functions\<close>

definition driver_init :: "devenv \<Rightarrow> nat \<Rightarrow> machine \<Rightarrow> (err_t \<times> machine) option" where
  "driver_init de this m = do {
     d \<leftarrow> devices m this;
     (case dev_vtable d of
        Console_vtable \<Rightarrow> Console_driver_init this (screen_cga de) (screen_mda de) m
      | User_vtable u \<Rightarrow> user_init de u this m
      | _ \<Rightarrow> Some (ERR_OK, m)) }"

definition driver_open :: "devenv \<Rightarrow> nat \<Rightarrow> u16 \<Rightarrow> machine \<Rightarrow> (err_t \<times> machine) option" where
  "driver_open de this oflag m = do {
     d \<leftarrow> devices m this;
     (case dev_vtable d of User_vtable u \<Rightarrow> user_open de u this oflag m | _ \<Rightarrow> Some (ERR_OK, m)) }"

definition driver_close :: "devenv \<Rightarrow> nat \<Rightarrow> machine \<Rightarrow> (err_t \<times> machine) option" where
  "driver_close de this m = do {
     d \<leftarrow> devices m this;
     (case dev_vtable d of User_vtable u \<Rightarrow> user_close de u this m | _ \<Rightarrow> Some (ERR_OK, m)) }"

definition driver_control :: "devenv \<Rightarrow> nat \<Rightarrow> u8 \<Rightarrow> machine \<Rightarrow> (err_t \<times> ctrl_arg option \<times> machine) option" where
  "driver_control de this cmd m = do {
     d \<leftarrow> devices m this;
     (case dev_vtable d of
        Graphic_vtable \<Rightarrow> do { v \<leftarrow> videos m this; let (r, a) = Graphic_driver_control cmd v; Some (r, a, m) }
      | User_vtable u \<Rightarrow> user_control de u this cmd m
      | _ \<Rightarrow> Some (ERR_OK, None, m)) }"

text \<open>The number of bytes is the first result.\<close>

definition driver_write :: "devenv \<Rightarrow> nat \<Rightarrow> u8 list \<Rightarrow> machine \<Rightarrow> (nat \<times> machine) option" where
  "driver_write de this buf m = do {
     d \<leftarrow> devices m this;
     (case dev_vtable d of
        Serial_vtable \<Rightarrow> do { m \<leftarrow> Serial_driver_write this buf m; Some (length buf, m) }
      | Console_vtable \<Rightarrow> do { m \<leftarrow> Console_driver_write this buf m; Some (length buf, m) }
      | User_vtable u \<Rightarrow> user_write de u this buf m
      | _ \<Rightarrow> Some (0, m)) }"

definition driver_read :: "devenv \<Rightarrow> nat \<Rightarrow> nat \<Rightarrow> machine \<Rightarrow> (u8 list \<times> machine) option" where
  "driver_read de this n m = do {
     d \<leftarrow> devices m this;
     (case dev_vtable d of
        Serial_vtable \<Rightarrow> Serial_driver_read this n m
      | Console_vtable \<Rightarrow> Console_driver_read this n m
      | User_vtable u \<Rightarrow> user_read de u this n m
      | _ \<Rightarrow> Some ([], m)) }"

section \<open>Reading and writing\<close>

definition Device_find :: "string option \<Rightarrow> machine \<Rightarrow> nat option option" where
  "Device_find name m = Object_find name Object_Class_Device (mc_kernel m)"

definition Device_read :: "devenv \<Rightarrow> nat \<Rightarrow> nat \<Rightarrow> machine \<Rightarrow> (u8 list \<times> machine) option" where
  "Device_read de this n m = do {
     d \<leftarrow> devices m this;
     if dev_ref_count d = 0 then do { m \<leftarrow> lift_kernel (set_errno (- ERR_ERROR)) m; Some ([], m) }
     else driver_read de this n m }"

definition Device_write :: "devenv \<Rightarrow> nat \<Rightarrow> u8 list \<Rightarrow> machine \<Rightarrow> (nat \<times> machine) option" where
  "Device_write de this buf m = do {
     d \<leftarrow> devices m this;
     if dev_ref_count d = 0 then do { m \<leftarrow> lift_kernel (set_errno (- ERR_ERROR)) m; Some (0, m) }
     else driver_write de this buf m }"

definition Device_control :: "devenv \<Rightarrow> nat \<Rightarrow> u8 \<Rightarrow> machine \<Rightarrow> (err_t \<times> ctrl_arg option \<times> machine) option" where
  "Device_control de this cmd m = driver_control de this cmd m"

definition set_rx_indicate :: "nat \<Rightarrow> nat option \<Rightarrow> machine \<Rightarrow> (err_t \<times> machine) option" where
  "set_rx_indicate this f m = do { m \<leftarrow> upd_device this (dev_rx_indicate_update (\<lambda>_. f)) m; Some (ERR_OK, m) }"

definition set_tx_complete :: "nat \<Rightarrow> nat option \<Rightarrow> machine \<Rightarrow> (err_t \<times> machine) option" where
  "set_tx_complete this f m = do { m \<leftarrow> upd_device this (dev_tx_complete_update (\<lambda>_. f)) m; Some (ERR_OK, m) }"

section \<open>Messages of the kernel\<close>

definition CONFIG_CONSOLEBUF_SIZE :: nat where "CONFIG_CONSOLEBUF_SIZE = 256"

text \<open>What \<open>vsnprintf\<close> stores of a text in a buffer of \<open>n\<close> bytes.\<close>

definition vsnprintf_buf :: "nat \<Rightarrow> u8 list \<Rightarrow> u8 list" where
  "vsnprintf_buf n txt = take (n - 1) txt @ [0]"

text \<open>Before there is a console, messages are collected in \<open>_log_buf\<close>; copying beyond its end has no outcome.\<close>

definition printk :: "devenv \<Rightarrow> u8 list \<Rightarrow> machine \<Rightarrow> machine option" where
  "printk de txt m =
     (let len = (if length txt > CONFIG_CONSOLEBUF_SIZE - 1 then CONFIG_CONSOLEBUF_SIZE - 1 else length txt);
          buf = take len (vsnprintf_buf (CONFIG_CONSOLEBUF_SIZE - 1) txt)
      in case console_device m of
        Some con \<Rightarrow> do {
          m \<leftarrow> (if log_length m \<noteq> 0 then do {
                 (_, m) \<leftarrow> Device_write de con (take (log_length m) (log_buf m)) m;
                 Some (m\<lparr>log_length := 0\<rparr>) }
               else Some m);
          (_, m) \<leftarrow> Device_write de con buf m;
          Some m }
      | None \<Rightarrow>
          if log_length m + len \<le> CONFIG_CONSOLEBUF_SIZE
          then Some (m\<lparr>log_buf := take (log_length m) (log_buf m) @ buf @ drop (log_length m + len) (log_buf m),
                 log_length := log_length m + len\<rparr>)
          else None)"

text \<open>The bytes of a message, and the decimal representation of a number.\<close>

definition bytes_of :: "string \<Rightarrow> u8 list" where
  "bytes_of s = map of_char s"

fun digits :: "nat \<Rightarrow> string" where
  "digits n = (if n < 10 then [char_of (48 + n)] else digits (n div 10) @ [char_of (48 + n mod 10)])"

declare digits.simps [simp del]

definition decimal :: "int \<Rightarrow> string" where
  "decimal i = (if i < 0 then ''-'' @ digits (nat (- i)) else digits (nat i))"

section \<open>Opening and closing\<close>

definition init_error :: "string \<Rightarrow> err_t \<Rightarrow> u8 list" where
  "init_error name r = bytes_of (''ERROR : To initialize device:'' @ name @ '' failed. The error code is '' @ decimal r) @ [10]"

text \<open>The part that \<open>init\<close> and \<open>open\<close> have in common.\<close>

definition activate :: "devenv \<Rightarrow> nat \<Rightarrow> machine \<Rightarrow> (err_t \<times> machine) option" where
  "activate de this m = do {
     d \<leftarrow> devices m this;
     if ob_flag d AND FLAG_ACTIVATED = 0 then do {
       (r, m) \<leftarrow> driver_init de this m;
       m \<leftarrow> (if r \<noteq> ERR_OK then printk de (init_error (ob_name d) r) m
            else upd_device this (\<lambda>d. d\<lparr>ob_flag := ob_flag d OR FLAG_ACTIVATED\<rparr>) m);
       Some (r, m) }
     else Some (ERR_OK, m) }"

definition Device_init :: "devenv \<Rightarrow> nat \<Rightarrow> machine \<Rightarrow> (err_t \<times> machine) option" where
  "Device_init de this m = activate de this m"

definition Device_open :: "devenv \<Rightarrow> nat \<Rightarrow> u16 \<Rightarrow> machine \<Rightarrow> (err_t \<times> machine) option" where
  "Device_open de this oflag m = do {
     (_, m) \<leftarrow> activate de this m;
     d \<leftarrow> devices m this;
     if ob_flag d AND FLAG_STANDALONE \<noteq> 0 \<and> dev_open_flag d AND OFLAG_OPEN \<noteq> 0 then Some (- ERR_BUSY, m)
     else do {
       (r, m) \<leftarrow> driver_open de this oflag m;
       m \<leftarrow> (if r = ERR_OK \<or> r = - ERR_NOSYS then do {
               m \<leftarrow> upd_device this (\<lambda>d. d\<lparr>dev_open_flag := oflag OR OFLAG_OPEN, dev_ref_count := dev_ref_count d + 1\<rparr>) m;
               d \<leftarrow> devices m this;
               cos_assert (dev_ref_count d \<noteq> 0);
               Some m }
            else Some m);
       Some (r, m) } }"

definition Device_close :: "devenv \<Rightarrow> nat \<Rightarrow> machine \<Rightarrow> (err_t \<times> machine) option" where
  "Device_close de this m = do {
     d \<leftarrow> devices m this;
     if dev_ref_count d = 0 then Some (- ERR_ERROR, m)
     else do {
       m \<leftarrow> upd_device this (\<lambda>d. d\<lparr>dev_ref_count := dev_ref_count d - 1\<rparr>) m;
       d \<leftarrow> devices m this;
       if dev_ref_count d \<noteq> 0 then Some (ERR_OK, m)
       else do {
         (r, m) \<leftarrow> driver_close de this m;
         m \<leftarrow> (if r = ERR_OK \<or> r = - ERR_NOSYS then upd_device this (dev_open_flag_update (\<lambda>_. OFLAG_CLOSE)) m else Some m);
         Some (r, m) } } }"

text \<open>The result is the old console.\<close>

definition console_set_device :: "devenv \<Rightarrow> string option \<Rightarrow> machine \<Rightarrow> (nat option \<times> machine) option" where
  "console_set_device de name m = do {
     let old = console_device m;
     newd \<leftarrow> Device_find name m;
     (case newd of
        None \<Rightarrow> Some (old, m)
      | Some a \<Rightarrow> do {
          m \<leftarrow> (case old of None \<Rightarrow> Some m | Some c \<Rightarrow> do { (_, m) \<leftarrow> Device_close de c m; Some m });
          (_, m) \<leftarrow> Device_open de a (OFLAG_RDWR OR FLAG_STREAM) (m\<lparr>console_device := Some a\<rparr>);
          Some (old, m) }) }"

definition console_get_device :: "machine \<Rightarrow> nat option" where
  "console_get_device m = console_device m"

definition C_VERSION :: int where "C_VERSION = 0"
definition C_SUBVERSION :: int where "C_SUBVERSION = 1"
definition C_REVISION :: int where "C_REVISION = 1"

text \<open>The messages, with the date of the build; 92 is the code of a backslash.\<close>

definition version_text :: "string \<Rightarrow> u8 list list" where
  "version_text date =
     [[10] @ bytes_of '' _____   _____   _____  '' @ [10],
      bytes_of ''/  ___| /  _  '' @ [92] @ bytes_of '' /  ___/ '' @ [10],
      bytes_of ''| |     | | | | | |___  '' @ [10],
      bytes_of ''| |     | | | | '' @ [92] @ bytes_of ''___  '' @ [92] @ bytes_of '' '' @ [10],
      bytes_of ''| |___  | |_| |  ___| | '' @ [10],
      [92] @ bytes_of ''_____| '' @ [92] @ bytes_of ''_____/ /_____/ '' @ [10],
      bytes_of ('' '' @ decimal C_VERSION @ ''.'' @ decimal C_SUBVERSION @ ''.'' @ decimal C_REVISION @ '' build '' @ date) @ [10],
      bytes_of '' 2015 Copyright by Jacob Chen '' @ [10]]"

fun printks :: "devenv \<Rightarrow> u8 list list \<Rightarrow> machine \<Rightarrow> machine option" where
  "printks de [] m = Some m"
| "printks de (t # ts) m = do { m \<leftarrow> printk de t m; printks de ts m }"

definition show_version :: "devenv \<Rightarrow> string \<Rightarrow> machine \<Rightarrow> machine option" where
  "show_version de date m = printks de (version_text date) m"

end
