(* ===== verification/Cos_Drivers.thy ===== *)
theory Cos_Drivers
  imports Cos_Device Cos_Clock
begin

text \<open>
  What the machine does on its own: the singleton of the console and its interrupt service routine
  (\<^verbatim>\<open>arch/x86/drivers/console.cpp\<close>), the creation of video and mouse, the system tick
  (\<^verbatim>\<open>arch/x86/common/systick.cpp\<close>), and the entry of hardware interrupts
  (\<^verbatim>\<open>arch/x86/common/hdisr_gcc.S\<close>), which calls the service routine and then asks whether another
  thread should run.
\<close>

unbundle bit_operations_syntax

section \<open>The console\<close>

text \<open>\<open>junk\<close> is what the memory of the new object holds.\<close>

definition Console_new :: "console \<Rightarrow> u16 \<Rightarrow> nat \<Rightarrow> machine \<Rightarrow> machine option" where
  "Console_new junk oflag this m = do {
     m \<leftarrow> Device_new Console_vtable Device_Class_Char ''console'' (FLAG_RDWR OR FLAG_INT_RX OR FLAG_STREAM) oflag this m;
     Some (m\<lparr>consoles := (consoles m)(this \<mapsto> junk)\<rparr>) }"

definition Console_delete :: "nat \<Rightarrow> machine \<Rightarrow> machine option" where
  "Console_delete this m = do { m \<leftarrow> Device_delete this m; Some (m\<lparr>consoles := (consoles m)(this := None)\<rparr>) }"

definition lift_get_errno :: "machine \<Rightarrow> (err_t \<times> machine) option" where
  "lift_get_errno m = do { (er, k) \<leftarrow> get_errno (mc_kernel m); Some (er, m\<lparr>mc_kernel := k\<rparr>) }"

text \<open>The memory \<open>new\<close> returns, if any: its address and what it holds.\<close>

type_synonym console_memory = "(nat \<times> console \<times> u16) option"

definition Console_Instance :: "devenv \<Rightarrow> console_memory \<Rightarrow> machine \<Rightarrow> (nat option \<times> machine) option" where
  "Console_Instance de mem m =
     (case console_self m of
        Some a \<Rightarrow> Some (Some a, m)
      | None \<Rightarrow>
          (case mem of
             None \<Rightarrow> do {
               m \<leftarrow> printk de (bytes_of ''ERROR : Fail to create console!'' @ [10]) m;
               Some (None, m) }
           | Some (a, junk, oflag) \<Rightarrow> do {
               m \<leftarrow> Console_new junk oflag a m;
               (er, m) \<leftarrow> lift_get_errno m;
               if er = ERR_OK then
                 let m = snd (arch_interrupt_install INTKEYBOARD (Some Console_isr_handler) None (m\<lparr>console_self := Some a\<rparr>))
                 in Some (Some a, arch_interrupt_umask INTKEYBOARD m)
               else do {
                 m \<leftarrow> printk de (bytes_of ''ERROR : Fail to create console!'' @ [10]) m;
                 m \<leftarrow> Console_delete a m;
                 Some (None, m) } }))"

definition Console_Destroy :: "machine \<Rightarrow> (bool \<times> machine) option" where
  "Console_Destroy m = do {
     m \<leftarrow> (case console_self m of None \<Rightarrow> Some m | Some a \<Rightarrow> Console_delete a m);
     Some (True, arch_interrupt_mask INTKEYBOARD (m\<lparr>console_self := None\<rparr>)) }"

partial_function (option) Console_isr_loop :: "nat \<Rightarrow> machine \<Rightarrow> machine option" where
  "Console_isr_loop con m = do {
     (c, m) \<leftarrow> keyboard_getc m;
     if c = 0 \<or> c = - 1 then Some m
     else do {
       m \<leftarrow> (if 0 < sint c then do {
               r \<leftarrow> consoles m con;
               r \<leftarrow> rx_save c r;
               Some (m\<lparr>consoles := (consoles m)(con \<mapsto> r)\<rparr>) }
            else Some m);
       Console_isr_loop con m } }"

declare Console_isr_loop.simps [code]

definition Console_isr :: "devenv \<Rightarrow> console_memory \<Rightarrow> machine \<Rightarrow> machine option" where
  "Console_isr de mem m = do {
     (con, m) \<leftarrow> Console_Instance de mem m;
     con \<leftarrow> con;
     m \<leftarrow> Console_isr_loop con m;
     r \<leftarrow> consoles m con;
     if 0 < rx_length r then rx_notify (rx_ind de) con (rx_length r) m else Some m }"

section \<open>Video and mouse\<close>

text \<open>\<open>mem\<close> is the result of \<open>new\<close>; a failing constructor leaves an error number, and the object is destroyed again.\<close>

definition video_init :: "devenv \<Rightarrow> u32 \<Rightarrow> u32 \<Rightarrow> u32 \<Rightarrow> u32 \<Rightarrow> u8 list \<Rightarrow> (nat \<times> u16) option \<Rightarrow> machine \<Rightarrow> machine option" where
  "video_init de pitch Xres Yres physbase fb mem m =
     (if Xres = 0 then None else
      let BT = ucast (pitch div Xres) :: u8 in
      (case mem of
         None \<Rightarrow> printk de (bytes_of ''ERROR : Fail to create video!'' @ [10]) m
       | Some (a, oflag) \<Rightarrow> do {
           m \<leftarrow> Video_new ''video'' (ucast Xres) (ucast Yres) (BT * 8) (video_format BT) physbase fb oflag a m;
           (er, m) \<leftarrow> lift_get_errno m;
           if er \<noteq> ERR_OK then do {
             m \<leftarrow> printk de (bytes_of ''ERROR : Fail to create video!'' @ [10]) m;
             m \<leftarrow> Device_delete a m;
             Some (m\<lparr>videos := (videos m)(a := None)\<rparr>) }
           else Some m }))"

definition mouse_init :: "devenv \<Rightarrow> (nat \<times> u8 list \<times> u16) option \<Rightarrow> machine \<Rightarrow> machine option" where
  "mouse_init de mem m =
     (case mem of
        None \<Rightarrow> printk de (bytes_of ''ERROR : Fail to create mouse!'' @ [10]) m
      | Some (a, bytes, oflag) \<Rightarrow> do {
          m \<leftarrow> Mouse_new ''mouse'' bytes oflag a m;
          (er, m) \<leftarrow> lift_get_errno m;
          if er \<noteq> ERR_OK then do {
            m \<leftarrow> printk de (bytes_of ''ERROR : Fail to create mouse!'' @ [10]) m;
            Mouse_delete a m }
          else Some m })"

section \<open>The system tick\<close>

definition TIMER_DIV :: "nat \<Rightarrow> nat" where
  "TIMER_DIV x = (1193182 + x div 2) div x"

definition arch_tick_init :: "machine \<Rightarrow> machine" where
  "arch_tick_init m =
     (let m = outb 0x43 0x34 m;
          m = outb 0x40 (of_nat (TIMER_DIV (unat CONFIG_TICK_PER_SECOND) mod 256)) m;
          m = outb 0x40 (of_nat (TIMER_DIV (unat CONFIG_TICK_PER_SECOND) div 256)) m;
          m = snd (arch_interrupt_install INTTIMER0 (Some Timer_handler) None m)
      in arch_interrupt_umask INTTIMER0 m)"

definition timer_handler :: "env \<Rightarrow> machine \<Rightarrow> machine option" where
  "timer_handler e m = lift_kernel (tick_increase e) m"

section \<open>Hardware interrupts\<close>

definition arch_interrupt_handle :: "devenv \<Rightarrow> machine \<Rightarrow> machine option" where
  "arch_interrupt_handle de m = printk de (bytes_of ''Unhandled interrupt  occured!!!'' @ [10]) m"

definition T_DIVIDE :: int where "T_DIVIDE = 0"
definition T_GPFLT :: int where "T_GPFLT = 13"
definition T_PGFLT :: int where "T_PGFLT = 14"
definition T_DEFAULT :: int where "T_DEFAULT = 500"

text \<open>Every trap but the catch-all one ends in a failing assertion.\<close>

definition arch_trap_irq :: "devenv \<Rightarrow> int \<Rightarrow> machine \<Rightarrow> machine option" where
  "arch_trap_irq de trapno m = do {
     m \<leftarrow> printk de (bytes_of (''tarp '' @ decimal trapno) @ [10]) m;
     m \<leftarrow> (if trapno = T_DIVIDE then printk de (bytes_of ''Divide error interrupt'' @ [10]) m
          else if trapno = T_PGFLT then printk de (bytes_of ''Page fault interrupt'' @ [10]) m
          else if trapno = T_GPFLT then printk de (bytes_of ''General protection interrupt'' @ [10]) m
          else Some m);
     cos_assert (trapno = T_DEFAULT);
     arch_interrupt_handle de m }"

text \<open>The handler of a vector. \<open>user\<close> stands for the handlers of the application.\<close>

definition call_isr ::
  "env \<Rightarrow> devenv \<Rightarrow> console_memory \<Rightarrow> (nat \<Rightarrow> nat \<Rightarrow> nat option \<Rightarrow> machine \<Rightarrow> machine option) \<Rightarrow> nat \<Rightarrow> machine \<Rightarrow> machine option" where
  "call_isr e de mem user vector m =
     (case isr_table m vector of
        Default_isr \<Rightarrow> arch_interrupt_handle de m
      | Serial_isr_handler \<Rightarrow> do { a \<leftarrow> isr_param m vector; Serial_isr a m }
      | Console_isr_handler \<Rightarrow> Console_isr de mem m
      | Mouse_isr_handler \<Rightarrow> do { a \<leftarrow> isr_param m vector; Mouse_isr (rx_ind de) a m }
      | Timer_handler \<Rightarrow> timer_handler e m
      | User_isr u \<Rightarrow> user u vector (isr_param m vector) m)"

text \<open>The result says which threads to switch from and to when the interrupt returns, if it does not return
  to the interrupted thread.\<close>

definition hdinterrupts ::
  "env \<Rightarrow> devenv \<Rightarrow> console_memory \<Rightarrow> (nat \<Rightarrow> nat \<Rightarrow> nat option \<Rightarrow> machine \<Rightarrow> machine option) \<Rightarrow> nat \<Rightarrow> machine \<Rightarrow>
     ((nat \<times> nat) option \<times> machine) option" where
  "hdinterrupts e de mem user vector m = do {
     m \<leftarrow> call_isr e de mem user vector (m\<lparr>mc_kernel := interrupt_enter (mc_kernel m)\<rparr>);
     let k = interrupt_leave (mc_kernel m);
     if switch_interrupt_flag k then do {
       from \<leftarrow> interrupt_from_thread k;
       to \<leftarrow> interrupt_to_thread k;
       Some (Some (from, to), m\<lparr>mc_kernel := k\<lparr>switch_interrupt_flag := False\<rparr>\<rparr>) }
     else Some (None, m\<lparr>mc_kernel := k\<rparr>) }"

end
