(* ===== verification/Cos_Device_Correct.thy ===== *)
theory Cos_Device_Correct
  imports Cos_Device
begin

text \<open>
  Devices: the reference count, the queue of bytes received by the serial port, and the way
  of a message from \<open>printk\<close> to the port.
\<close>

unbundle bit_operations_syntax

section \<open>Opening and closing\<close>

datatype dev_op = Open u16 | Close

definition dev_call :: "devenv \<Rightarrow> nat \<Rightarrow> dev_op \<Rightarrow> machine \<Rightarrow> (err_t \<times> machine) option" where
  "dev_call de a c m = (case c of Open f \<Rightarrow> Device_open de a f m | Close \<Rightarrow> Device_close de a m)"

fun dev_run :: "devenv \<Rightarrow> nat \<Rightarrow> dev_op list \<Rightarrow> machine \<Rightarrow> (err_t list \<times> machine) option" where
  "dev_run de a [] m = Some ([], m)"
| "dev_run de a (c # cs) m = do { (r, m) \<leftarrow> dev_call de a c m; (rs, m) \<leftarrow> dev_run de a cs m; Some (r # rs, m) }"

text \<open>The reference: the number of users, of which a standalone device has at most one.\<close>

fun user_step :: "bool \<Rightarrow> dev_op \<Rightarrow> nat \<Rightarrow> err_t \<times> nat" where
  "user_step alone (Open f) n = (if alone \<and> 0 < n then (- ERR_BUSY, n) else (ERR_OK, n + 1))"
| "user_step alone Close n = (if n = 0 then (- ERR_ERROR, n) else (ERR_OK, n - 1))"

fun user_run :: "bool \<Rightarrow> dev_op list \<Rightarrow> nat \<Rightarrow> err_t list \<times> nat" where
  "user_run alone [] n = ([], n)"
| "user_run alone (c # cs) n =
     (let (r, n) = user_step alone c n; (rs, n) = user_run alone cs n in (r # rs, n))"

text \<open>An initialised device of one of the classes of the kernel with \<open>n\<close> users.\<close>

definition dev_users :: "bool \<Rightarrow> nat \<Rightarrow> machine \<Rightarrow> nat \<Rightarrow> bool" where
  "dev_users alone a m n \<longleftrightarrow> (\<exists>d. devices m a = Some d \<and> (\<forall>u. dev_vtable d \<noteq> User_vtable u) \<and>
     ob_flag d AND FLAG_ACTIVATED \<noteq> 0 \<and> (ob_flag d AND FLAG_STANDALONE \<noteq> 0) = alone \<and>
     unat (dev_ref_count d) = n \<and> (dev_open_flag d AND OFLAG_OPEN \<noteq> 0) = (0 < n))"

lemma open_flag_set: "(f OR OFLAG_OPEN) AND OFLAG_OPEN \<noteq> 0"
  by (simp add: OFLAG_OPEN_def bit.conj_disj_distrib2)

lemma driver_open_close_ok:
  assumes "devices m a = Some d" and "\<forall>u. dev_vtable d \<noteq> User_vtable u"
  shows "driver_open de a f m = Some (ERR_OK, m)" and "driver_close de a m = Some (ERR_OK, m)"
  using assms by (auto simp: driver_open_def driver_close_def split: vtable.splits)

lemma unat_ref_inc: "unat (n :: u8) < 255 \<Longrightarrow> unat (n + 1) = unat n + 1"
  by (subst unat_add_lem [THEN iffD1]) simp_all

lemma unat_ref_dec: "0 < unat (n :: u8) \<Longrightarrow> unat (n - 1) = unat n - 1"
  by (subst unat_sub) (simp_all add: word_le_nat_alt)

lemma dev_call_users:
  assumes u: "dev_users alone a m n" and b: "c \<noteq> Close \<Longrightarrow> n < 255"
  shows "\<exists>m'. dev_call de a c m = Some (fst (user_step alone c n), m') \<and> dev_users alone a m' (snd (user_step alone c n))"
proof -
  obtain d where d: "devices m a = Some d" "\<forall>u. dev_vtable d \<noteq> User_vtable u" "ob_flag d AND FLAG_ACTIVATED \<noteq> 0"
    "(ob_flag d AND FLAG_STANDALONE \<noteq> 0) = alone" "unat (dev_ref_count d) = n" "(dev_open_flag d AND OFLAG_OPEN \<noteq> 0) = (0 < n)"
    using u by (auto simp: dev_users_def)
  have act: "activate de a m = Some (ERR_OK, m)" using d(1,3) by (simp add: activate_def)
  show ?thesis
  proof (cases c)
    case (Open f)
    show ?thesis
    proof (cases "alone \<and> 0 < n")
      case True
      then have "Device_open de a f m = Some (- ERR_BUSY, m)" using act d by (simp add: Device_open_def)
      then show ?thesis using True u Open by (simp add: dev_call_def)
    next
      case False
      let ?d = "d\<lparr>dev_open_flag := f OR OFLAG_OPEN, dev_ref_count := dev_ref_count d + 1\<rparr>"
      let ?m = "m\<lparr>devices := (devices m)(a \<mapsto> ?d)\<rparr>"
      have n: "unat (dev_ref_count d + 1) = n + 1" using unat_ref_inc d(5) b Open by simp
      then have z: "dev_ref_count d + 1 \<noteq> 0" by (metis Suc_eq_plus1 nat.distinct(1) unat_0)
      have "Device_open de a f m = Some (ERR_OK, ?m)"
        using act d(1,4,6) False z driver_open_close_ok(1) [OF d(1,2)] by (auto simp: Device_open_def)
      moreover have "dev_users alone a ?m (n + 1)" using d(2-4) n open_flag_set by (simp add: dev_users_def)
      ultimately show ?thesis using False Open by (auto simp: dev_call_def)
    qed
  next
    case Close
    show ?thesis
    proof (cases "n = 0")
      case True
      then have "dev_ref_count d = 0" using d(5) by (simp add: unat_eq_0)
      then show ?thesis using True u Close d(1) by (simp add: dev_call_def Device_close_def)
    next
      case False
      let ?d = "d\<lparr>dev_ref_count := dev_ref_count d - 1\<rparr>"
      let ?m = "m\<lparr>devices := (devices m)(a \<mapsto> ?d)\<rparr>"
      have n: "unat (dev_ref_count d - 1) = n - 1" using unat_ref_dec d(5) False by simp
      have nz: "dev_ref_count d \<noteq> 0" using False d(5) by auto
      show ?thesis
      proof (cases "dev_ref_count d - 1 = 0")
        case True
        have "driver_close de a ?m = Some (ERR_OK, ?m)" using driver_open_close_ok(2) [of ?m a ?d] d(2) by simp
        then have "Device_close de a m = Some (ERR_OK, m\<lparr>devices := (devices m)(a \<mapsto> ?d\<lparr>dev_open_flag := OFLAG_CLOSE\<rparr>)\<rparr>)"
          using d(1) nz True by (simp add: Device_close_def)
        moreover have "n = 1" using n True False by simp
        ultimately show ?thesis using Close d(2-4) True by (simp add: dev_call_def dev_users_def OFLAG_CLOSE_def)
      next
        case nl: False
        then have "Device_close de a m = Some (ERR_OK, ?m)" using d(1) nz by (simp add: Device_close_def)
        moreover have "0 < n - 1" using n nl by (metis gr0I unat_eq_0)
        ultimately show ?thesis using Close d(2-6) n False by (simp add: dev_call_def dev_users_def)
      qed
    qed
  qed
qed

lemma user_step_le: "snd (user_step alone c n) \<le> n + (if c = Close then 0 else 1)"
  by (cases c) auto

lemma dev_run_users:
  assumes "dev_users alone a m n" and "n + length (filter (\<lambda>c. c \<noteq> Close) cs) \<le> 255"
  shows "\<exists>m'. dev_run de a cs m = Some (fst (user_run alone cs n), m') \<and> dev_users alone a m' (snd (user_run alone cs n))"
  using assms
proof (induction cs arbitrary: m n)
  case (Cons c cs)
  let ?n = "snd (user_step alone c n)"
  have "c \<noteq> Close \<Longrightarrow> n < 255" using Cons.prems(2) by simp
  then obtain m1 where m1: "dev_call de a c m = Some (fst (user_step alone c n), m1)" "dev_users alone a m1 ?n"
    using dev_call_users [OF Cons.prems(1)] by blast
  have "?n + length (filter (\<lambda>c. c \<noteq> Close) cs) \<le> 255" using user_step_le [of alone c n] Cons.prems(2) by (cases "c = Close") auto
  from Cons.IH [OF m1(2) this] show ?case using m1(1) by (auto simp: case_prod_unfold Let_def)
qed simp

section \<open>Received bytes\<close>

datatype rx_op = Arrive u8 | Read nat

text \<open>A byte arrives at the port and raises the interrupt; a read asks for at most \<open>n\<close> bytes.\<close>

definition rx_call :: "devenv \<Rightarrow> nat \<Rightarrow> u16 \<Rightarrow> rx_op \<Rightarrow> machine \<Rightarrow> (u8 list \<times> machine) option" where
  "rx_call de a port c m =
     (case c of
        Arrive b \<Rightarrow> do { m \<leftarrow> Serial_isr a (set_in port [b] (set_in (port + COMSTATUS) [1] m)); Some ([], m) }
      | Read n \<Rightarrow> Device_read de a n m)"

fun rx_run :: "devenv \<Rightarrow> nat \<Rightarrow> u16 \<Rightarrow> rx_op list \<Rightarrow> machine \<Rightarrow> (u8 list list \<times> machine) option" where
  "rx_run de a port [] m = Some ([], m)"
| "rx_run de a port (c # cs) m = do {
     (r, m) \<leftarrow> rx_call de a port c m; (rs, m) \<leftarrow> rx_run de a port cs m; Some (r # rs, m) }"

text \<open>The reference: a queue that keeps the last 255 bytes.\<close>

fun queue_step :: "rx_op \<Rightarrow> u8 list \<Rightarrow> u8 list \<times> u8 list" where
  "queue_step (Arrive b) xs = ([], keep_last 255 (xs @ [b]))"
| "queue_step (Read n) xs = (take n xs, drop n xs)"

fun queue_run :: "rx_op list \<Rightarrow> u8 list \<Rightarrow> u8 list list \<times> u8 list" where
  "queue_run [] xs = ([], xs)"
| "queue_run (c # cs) xs = (let (r, xs) = queue_step c xs; (rs, xs) = queue_run cs xs in (r # rs, xs))"

definition errno_ok :: "kernel \<Rightarrow> bool" where
  "errno_ok k \<longleftrightarrow> (\<forall>t. current_thread k = Some t \<longrightarrow> threads k t \<noteq> None)"

lemma set_errno_ok: "errno_ok k \<Longrightarrow> \<exists>k'. set_errno er k = Some k' \<and> errno_ok k'"
  by (auto simp: errno_ok_def set_errno_def split: option.splits)

definition serial_queue :: "nat \<Rightarrow> u16 \<Rightarrow> machine \<Rightarrow> u8 list \<Rightarrow> bool" where
  "serial_queue a port m xs \<longleftrightarrow> errno_ok (mc_kernel m) \<and>
     (\<exists>d s. devices m a = Some d \<and> dev_vtable d = Serial_vtable \<and> dev_ref_count d \<noteq> 0 \<and>
       serials m a = Some s \<and> ser_PORT s = port \<and> rx_holds s xs)"

lemma rx_call_queue:
  assumes "serial_queue a port m xs"
  shows "\<exists>m'. rx_call de a port c m = Some (fst (queue_step c xs), m') \<and> serial_queue a port m' (snd (queue_step c xs))"
proof -
  obtain d s where s: "errno_ok (mc_kernel m)" "devices m a = Some d" "dev_vtable d = Serial_vtable" "dev_ref_count d \<noteq> 0"
    "serials m a = Some s" "ser_PORT s = port" "rx_holds s xs"
    using assms by (auto simp: serial_queue_def)
  have P: "ser_PORT s' = ser_PORT s" if "rx_ring.more s' = rx_ring.more s" for s' :: serial using that by (cases s; cases s') simp
  show ?thesis
  proof (cases c)
    case (Arrive b)
    let ?m = "set_in port [b] (set_in (port + COMSTATUS) [1] m)"
    have "port \<noteq> port + COMSTATUS" by (simp add: COMSTATUS_def)
    then have g: "Serial_sgetc a ?m = Some (b, set_in port [] (set_in (port + COMSTATUS) [] ?m))"
      using Serial_sgetc_ready [of ?m a s 0 "[]" b "[]"] s(5,6) by simp
    obtain s' where s': "rx_save b s = Some s'" "rx_holds s' (keep_last 255 (xs @ [b]))" "rx_ring.more s' = rx_ring.more s"
      using rx_save_holds [OF s(7), of b] by (auto simp: RX_BUFFER_SIZE_def)
    then show ?thesis using Arrive g s P [OF s'(3)] by (simp add: rx_call_def Serial_isr_def serial_queue_def)
  next
    case (Read n)
    obtain s' where s': "rx_read n s = Some (take n xs, if n \<le> length xs then ERR_OK else - ERR_EMPTY, s')" "rx_holds s' (drop n xs)"
      "rx_ring.more s' = rx_ring.more s"
      using rx_read_holds [OF s(7)] by blast
    obtain k' where "set_errno (if n \<le> length xs then ERR_OK else - ERR_EMPTY) (mc_kernel m) = Some k'" "errno_ok k'"
      using set_errno_ok [OF s(1)] by blast
    then show ?thesis using Read s s'(1,2) P [OF s'(3)]
      by (simp add: rx_call_def Device_read_def driver_read_def Serial_driver_read_def lift_kernel_def serial_queue_def)
  qed
qed

lemma rx_run_queue:
  "serial_queue a port m xs \<Longrightarrow>
    \<exists>m'. rx_run de a port cs m = Some (fst (queue_run cs xs), m') \<and> serial_queue a port m' (snd (queue_run cs xs))"
proof (induction cs arbitrary: m xs)
  case (Cons c cs)
  obtain m1 where m1: "rx_call de a port c m = Some (fst (queue_step c xs), m1)" "serial_queue a port m1 (snd (queue_step c xs))"
    using rx_call_queue [OF Cons.prems] by blast
  from Cons.IH [OF m1(2)] show ?case using m1(1) by (auto simp: case_prod_unfold Let_def)
qed simp

section \<open>Messages\<close>

lemma printk_buf:
  assumes "length txt \<le> 254"
  shows "take (length txt) (vsnprintf_buf (CONFIG_CONSOLEBUF_SIZE - 1) txt) = txt" "\<not> length txt > CONFIG_CONSOLEBUF_SIZE - 1"
  using assms by (simp_all add: vsnprintf_buf_def CONFIG_CONSOLEBUF_SIZE_def)

text \<open>The log after \<open>ts\<close> have been collected.\<close>

definition log_holds :: "machine \<Rightarrow> u8 list \<Rightarrow> bool" where
  "log_holds m bs \<longleftrightarrow> length (log_buf m) = 256 \<and> log_length m = length bs \<and> length bs \<le> 256 \<and> take (length bs) (log_buf m) = bs"

lemma printk_early:
  assumes "console_device m = None" and "log_holds m bs" and "length txt \<le> 254" and "length bs + length txt \<le> 256"
  shows "\<exists>b. printk de txt m = Some (m\<lparr>log_buf := b, log_length := length (bs @ txt)\<rparr>) \<and>
    log_holds (m\<lparr>log_buf := b, log_length := length (bs @ txt)\<rparr>) (bs @ txt)"
proof -
  let ?b = "bs @ txt @ drop (length bs + length txt) (log_buf m)"
  have "printk de txt m = Some (m\<lparr>log_buf := ?b, log_length := length (bs @ txt)\<rparr>)"
    using assms printk_buf [OF assms(3)] by (simp add: printk_def Let_def log_holds_def CONFIG_CONSOLEBUF_SIZE_def)
  moreover have "log_holds (m\<lparr>log_buf := ?b, log_length := length (bs @ txt)\<rparr>) (bs @ txt)"
    using assms(2,4) by (simp add: log_holds_def)
  ultimately show ?thesis by blast
qed

lemma printks_early:
  assumes "console_device m = None" and "log_holds m bs" and "\<forall>t\<in>set ts. length t \<le> 254" and "length bs + length (concat ts) \<le> 256"
  shows "\<exists>b l. printks de ts m = Some (m\<lparr>log_buf := b, log_length := l\<rparr>) \<and> log_holds (m\<lparr>log_buf := b, log_length := l\<rparr>) (bs @ concat ts)"
  using assms
proof (induction ts arbitrary: m bs)
  case Nil
  then have "printks de [] m = Some (m\<lparr>log_buf := log_buf m, log_length := log_length m\<rparr>)" by simp
  then show ?case using Nil.prems(2) by (intro exI [of _ "log_buf m"] exI [of _ "log_length m"]) simp
next
  case (Cons t ts)
  obtain b where b: "printk de t m = Some (m\<lparr>log_buf := b, log_length := length (bs @ t)\<rparr>)"
    "log_holds (m\<lparr>log_buf := b, log_length := length (bs @ t)\<rparr>) (bs @ t)"
    using printk_early [OF Cons.prems(1,2), of t] Cons.prems(3,4) by auto
  let ?m = "m\<lparr>log_buf := b, log_length := length (bs @ t)\<rparr>"
  obtain b' l where "printks de ts ?m = Some (?m\<lparr>log_buf := b', log_length := l\<rparr>)"
    "log_holds (?m\<lparr>log_buf := b', log_length := l\<rparr>) ((bs @ t) @ concat ts)"
    using Cons.IH [OF _ b(2)] Cons.prems(1,3,4) by auto
  then show ?case using b(1) by (intro exI [of _ b'] exI [of _ l]) simp
qed

text \<open>Printing to a serial console.\<close>

lemma serial_device_write:
  assumes "devices m a = Some d" and "dev_vtable d = Serial_vtable" and "dev_ref_count d \<noteq> 0" and "serials m a = Some s" and "ser_newline s"
    and "after_ready (length buf) (in_ports m (ser_PORT s + COMSTATUS)) = Some st"
  shows "Device_write de a buf m = Some (length buf,
    set_in (ser_PORT s + COMSTATUS) st (emit (map (Pair (ser_PORT s)) (concat (map newline_bytes buf))) m))"
  using assms Serial_write_ready [OF assms(4-6)] by (simp add: Device_write_def driver_write_def)

lemma after_ready_add:
  "after_ready (n + k) st = Some st' \<Longrightarrow> \<exists>st1. after_ready n st = Some st1 \<and> after_ready k st1 = Some st'"
proof (induction n arbitrary: st)
  case (Suc n)
  obtain st1 where st1: "after_ready 1 st = Some st1" "after_ready (n + k) st1 = Some st'"
    using after_ready_Suc [of "n + k" st st'] Suc.prems by auto
  moreover obtain st2 where "after_ready n st1 = Some st2" "after_ready k st2 = Some st'" using Suc.IH [OF st1(2)] by blast
  moreover have "after_ready 1 st = Some st1 \<Longrightarrow> after_ready (Suc n) st = after_ready n st1" for st
    by (induction st) (auto split: if_splits)
  ultimately show ?case by auto
qed simp

lemma printk_serial:
  assumes con: "console_device m = Some a" and dev: "devices m a = Some d" "dev_vtable d = Serial_vtable" "dev_ref_count d \<noteq> 0"
    and ser: "serials m a = Some s" "ser_newline s" and log: "log_holds m bs" and tl: "length txt \<le> 254"
    and st: "after_ready (length bs + length txt) (in_ports m (ser_PORT s + COMSTATUS)) = Some st"
  shows "\<exists>m'. printk de txt m = Some m' \<and> log_length m' = 0 \<and>
    out_ports m' = out_ports m @ map (Pair (ser_PORT s)) (concat (map newline_bytes (bs @ txt)))"
proof -
  let ?p = "ser_PORT s" and ?out = "\<lambda>b. map (Pair (ser_PORT s)) (concat (map newline_bytes b))"
  obtain st1 where st1: "after_ready (length bs) (in_ports m (?p + COMSTATUS)) = Some st1" "after_ready (length txt) st1 = Some st"
    using after_ready_add [OF st] by blast
  show ?thesis
  proof (cases "bs = []")
    case True
    then have "log_length m = 0" "st1 = in_ports m (?p + COMSTATUS)" using log st1(1) by (simp_all add: log_holds_def)
    then show ?thesis
      using serial_device_write [OF dev ser, of "txt" st de] st1(2) con printk_buf [OF tl] True by (simp add: printk_def Let_def)
  next
    case False
    let ?m = "(set_in (?p + COMSTATUS) st1 (emit (?out bs) m))\<lparr>log_length := 0\<rparr>"
    have "Device_write de a bs m = Some (length bs, set_in (?p + COMSTATUS) st1 (emit (?out bs) m))"
      by (rule serial_device_write [OF dev ser st1(1)])
    moreover have "Device_write de a txt ?m = Some (length txt, set_in (?p + COMSTATUS) st (emit (?out txt) ?m))"
      by (rule serial_device_write [of _ _ d]) (use dev ser st1(2) in simp_all)
    moreover have "log_length m \<noteq> 0" "take (log_length m) (log_buf m) = bs" using log False by (auto simp: log_holds_def)
    ultimately have "printk de txt m = Some (set_in (?p + COMSTATUS) st (emit (?out txt) ?m))"
      using con printk_buf [OF tl] by (simp add: printk_def Let_def)
    then show ?thesis by simp
  qed
qed

text \<open>Selecting a serial port as console.\<close>

lemma console_set_serial:
  assumes "console_device m = None" and "Device_find (Some name) m = Some (Some a)" and "devices m a = Some d" and "dev_vtable d = Serial_vtable"
    and "ob_flag d AND FLAG_STANDALONE = 0" and "dev_ref_count d = 0"
  shows "\<exists>d'. console_set_device de (Some name) m = Some (None, m\<lparr>console_device := Some a, devices := (devices m)(a \<mapsto> d')\<rparr>) \<and>
    dev_vtable d' = Serial_vtable \<and> dev_ref_count d' = 1"
proof -
  let ?m = "m\<lparr>console_device := Some a\<rparr>"
  let ?d = "if ob_flag d AND FLAG_ACTIVATED = 0 then d\<lparr>ob_flag := ob_flag d OR FLAG_ACTIVATED\<rparr> else d"
  let ?d' = "?d\<lparr>dev_open_flag := (OFLAG_RDWR OR FLAG_STREAM) OR OFLAG_OPEN, dev_ref_count := 1\<rparr>"
  have "\<exists>r. activate de a ?m = Some (r, ?m\<lparr>devices := (devices m)(a \<mapsto> ?d)\<rparr>)"
    using assms(3,4) by (simp add: activate_def driver_init_def fun_upd_idem)
  moreover have "ob_flag ?d AND FLAG_STANDALONE = 0" using assms(5) by (simp add: device_flag_defs bit.conj_disj_distrib2)
  ultimately have "Device_open de a (OFLAG_RDWR OR FLAG_STREAM) ?m = Some (ERR_OK, ?m\<lparr>devices := (devices m)(a \<mapsto> ?d')\<rparr>)"
    using assms(4,6) by (auto simp: Device_open_def driver_open_def)
  moreover have "dev_vtable ?d' = Serial_vtable" using assms(4) by simp
  ultimately show ?thesis using assms(1,2) by (intro exI [of _ ?d']) (simp add: console_set_device_def Let_def)
qed

section \<open>Properties\<close>

text \<open>C33: opening and closing a device counts its users: every sequence of calls returns what it returns on a number,
  where a standalone device is busy while it has a user; the open flag is set exactly while there are users.\<close>

theorem device_counts_users:
  assumes "dev_users alone a m n" and "n + length (filter (\<lambda>c. c \<noteq> Close) cs) \<le> 255"
  shows "\<exists>m'. dev_run de a cs m = Some (fst (user_run alone cs n), m') \<and> dev_users alone a m' (snd (user_run alone cs n))"
  by (rule dev_run_users [OF assms])

text \<open>Devices of a machine without a screen, whose callbacks do nothing and where no class but those of the drivers exists.\<close>

definition lone_devenv :: devenv where
  "lone_devenv = \<lparr>screen_cga = None, screen_mda = [], rx_ind = (\<lambda>_ _ _ m. Some m), user_init = (\<lambda>_ _ _. None),
     user_open = (\<lambda>_ _ _ _. None), user_close = (\<lambda>_ _ _. None), user_control = (\<lambda>_ _ _ _. None),
     user_write = (\<lambda>_ _ _ _. None), user_read = (\<lambda>_ _ _ _. None)\<rparr>"

text \<open>A serial port, not opened yet, and with one user.\<close>

definition com_device :: device where
  "com_device = device_init Serial_vtable Device_Class_Char ''COM1'' FLAG_ACTIVATED 0"

lemma com_device_simps [simp]:
  "dev_vtable com_device = Serial_vtable" "ob_flag com_device = FLAG_ACTIVATED" "dev_ref_count com_device = 0" "dev_open_flag com_device = 0"
  by (simp_all add: com_device_def device_init_def object.defs object_init_def)

definition com_serial :: serial where
  "com_serial = \<lparr>rx_buffer = replicate 256 0, read_index = 0, save_index = 0, ser_newline = True, ser_PORT = COM1, ser_interrupt = INTCOM1\<rparr>"

lemma com_serial_holds: "rx_holds com_serial []"
  by (simp add: com_serial_def rx_holds_def RX_BUFFER_SIZE_def)

theorem device_counts_users_witness:
  "\<exists>m'. dev_run lone_devenv 4 [Open 3, Open 3, Close, Close, Close] (empty_machine\<lparr>devices := [4 \<mapsto> com_device]\<rparr>) = Some ([0, 0, 0, 0, -1], m') \<and>
    dev_users False 4 m' 0"
proof -
  have "dev_users False 4 (empty_machine\<lparr>devices := [4 \<mapsto> com_device]\<rparr>) 0" by (simp add: dev_users_def device_flag_defs)
  from device_counts_users [OF this, of "[Open 3, Open 3, Close, Close, Close]" lone_devenv] show ?thesis by (simp add: err_defs del: dev_run.simps)
qed

text \<open>C34: the serial port delivers the bytes in the order of their arrival: for every sequence of arrivals
  and reads, the reads return what they return on a queue that keeps the last 255 bytes.\<close>

theorem serial_receives:
  assumes "serial_queue a port m xs"
  shows "\<exists>m'. rx_run de a port cs m = Some (fst (queue_run cs xs), m') \<and> serial_queue a port m' (snd (queue_run cs xs))"
  by (rule rx_run_queue [OF assms])

theorem serial_receives_witness:
  "\<exists>m'. rx_run lone_devenv 4 COM1 [Arrive 1, Arrive 2, Read 5] (empty_machine\<lparr>devices := [4 \<mapsto> com_device\<lparr>dev_ref_count := 1\<rparr>], serials := [4 \<mapsto> com_serial]\<rparr>) =
    Some ([[], [], [1, 2]], m') \<and> serial_queue 4 COM1 m' []"
proof -
  have "serial_queue 4 COM1 (empty_machine\<lparr>devices := [4 \<mapsto> com_device\<lparr>dev_ref_count := 1\<rparr>], serials := [4 \<mapsto> com_serial]\<rparr>) []"
    using com_serial_holds by (simp add: serial_queue_def errno_ok_def empty_kernel_def) (simp add: com_serial_def)
  from serial_receives [OF this, of lone_devenv "[Arrive 1, Arrive 2, Read 5]"] show ?thesis by (simp add: keep_last_def del: rx_run.simps)
qed

text \<open>C35: messages printed before there is a console are not lost, as long as they fit into the log: when a serial port
  has become the console, the next message sends all of them and then itself to the port, with a return behind
  every newline.\<close>

theorem printk_delivers:
  assumes "console_device m = None" and "log_holds m []" and "\<forall>t\<in>set ts. length t \<le> 254" and "length (concat ts) \<le> 256"
    and "Device_find (Some name) m = Some (Some a)" and "devices m a = Some d" and "dev_vtable d = Serial_vtable"
    and "ob_flag d AND FLAG_STANDALONE = 0" and "dev_ref_count d = 0" and "serials m a = Some s" and "ser_newline s"
    and "length txt \<le> 254" and "after_ready (length (concat ts) + length txt) (in_ports m (ser_PORT s + COMSTATUS)) = Some st"
  shows "\<exists>m1 m2 m3. printks de ts m = Some m1 \<and> console_set_device de (Some name) m1 = Some (None, m2) \<and> printk de txt m2 = Some m3 \<and>
    out_ports m3 = out_ports m @ map (Pair (ser_PORT s)) (concat (map newline_bytes (concat ts @ txt)))"
proof -
  have "\<exists>b l. printks de ts m = Some (m\<lparr>log_buf := b, log_length := l\<rparr>) \<and> log_holds (m\<lparr>log_buf := b, log_length := l\<rparr>) (concat ts)"
    using printks_early [OF assms(1-3), of de] assms(4) by simp
  then obtain b l where m1: "printks de ts m = Some (m\<lparr>log_buf := b, log_length := l\<rparr>)" "log_holds (m\<lparr>log_buf := b, log_length := l\<rparr>) (concat ts)"
    by blast
  let ?m1 = "m\<lparr>log_buf := b, log_length := l\<rparr>"
  obtain d' where m2: "console_set_device de (Some name) ?m1 = Some (None, ?m1\<lparr>console_device := Some a, devices := (devices ?m1)(a \<mapsto> d')\<rparr>)"
    "dev_vtable d' = Serial_vtable" "dev_ref_count d' = 1"
    using console_set_serial [of ?m1 name a d de] assms(1,5-9) by (auto simp: Device_find_def)
  let ?m2 = "?m1\<lparr>console_device := Some a, devices := (devices ?m1)(a \<mapsto> d')\<rparr>"
  have "\<exists>m'. printk de txt ?m2 = Some m' \<and> log_length m' = 0 \<and>
    out_ports m' = out_ports ?m2 @ map (Pair (ser_PORT s)) (concat (map newline_bytes (concat ts @ txt)))"
    by (rule printk_serial [where d = d']) (use m1(2) m2(2,3) assms(10-13) in \<open>simp_all add: log_holds_def\<close>)
  then show ?thesis using m1(1) m2(1) by auto
qed

theorem printk_delivers_witness:
  "\<exists>m m1 m2 m3. printks lone_devenv [[72]] m = Some m1 \<and> console_set_device lone_devenv (Some ''COM1'') m1 = Some (None, m2) \<and>
    printk lone_devenv [105, 10] m2 = Some m3 \<and> out_ports m3 = [(COM1, 72), (COM1, 105), (COM1, 10), (COM1, 13)]"
proof -
  let ?k = "empty_kernel\<lparr>object_container := (\<lambda>ty. if ty = Object_Class_Device then [''COM1'' \<mapsto> 4] else Map.empty)\<rparr>"
  let ?m = "empty_machine\<lparr>mc_kernel := ?k, devices := [4 \<mapsto> com_device], serials := [4 \<mapsto> com_serial],
    in_ports := (\<lambda>_. [0, 0x20, 0, 0x20, 0x20])\<rparr>"
  have r: "after_ready (Suc (Suc (Suc 0))) [0, 0x20, 0, 0x20, 0x20] = Some []" by simp
  have s: "ser_PORT com_serial = COM1" "ser_newline com_serial" by (simp_all add: com_serial_def)
  have "\<exists>m1 m2 m3. printks lone_devenv [[72]] ?m = Some m1 \<and> console_set_device lone_devenv (Some ''COM1'') m1 = Some (None, m2) \<and> printk lone_devenv [105, 10] m2 = Some m3 \<and>
    out_ports m3 = out_ports ?m @ map (Pair (ser_PORT com_serial)) (concat (map newline_bytes (concat [[72]] @ [105, 10])))"
    by (rule printk_delivers [where d = com_device and a = 4 and st = "[]"])
      (simp_all add: s r log_holds_def Device_find_def Object_find_def debug_not_in_interrupt_def interrupt_get_nest_def
        empty_kernel_def device_flag_defs)
  then show ?thesis by (auto simp: s)
qed

end
