(* ===== verification/Cos_Interrupt_Correct.thy ===== *)
theory Cos_Interrupt_Correct
  imports Cos_Drivers Cos_Device_Correct Cos_Thread_Correct
begin

text \<open>
  The interrupt of the system tick, from its entry through the clock and the scheduler to the switch of
  threads on its return.
\<close>

section \<open>The tick\<close>

lemma tick_interrupt:
  assumes "isr_table m INTTIMER0 = Timer_handler"
  shows "hdinterrupts e de mem user INTTIMER0 m = do {
    k \<leftarrow> tick_increase e (interrupt_enter (mc_kernel m));
    let k = interrupt_leave k;
    if switch_interrupt_flag k then do {
      from \<leftarrow> interrupt_from_thread k;
      to \<leftarrow> interrupt_to_thread k;
      Some (Some (from, to), m\<lparr>mc_kernel := k\<lparr>switch_interrupt_flag := False\<rparr>\<rparr>) }
    else Some (None, m\<lparr>mc_kernel := k\<rparr>) }"
  using assms by (cases "tick_increase e (interrupt_enter (mc_kernel m))")
    (simp_all add: hdinterrupts_def call_isr_def timer_handler_def lift_kernel_def Let_def)

lemma tick_no_timer:
  assumes "inclock e (k\<lparr>global_tick := global_tick k + 1\<rparr>) = Some k'" and "rb_empty (timer_tree k')"
  shows "tick_increase e k = Some k'"
  using assms by (simp add: tick_increase_def Timer_check_def Timer_check_loop.simps)

section \<open>Properties\<close>

text \<open>C32: the tick interrupt while the first thread of the highest ready priority runs, with no timer running. If the
  thread has used up its time slice, it gets a new one and goes to the end of its ready list, and the interrupt returns
  to the next thread of the same priority, if there is one; otherwise the slice gets shorter by one tick and the
  interrupt returns to the thread.\<close>

theorem tick_interrupt_rotates:
  assumes "isr_table m INTTIMER0 = Timer_handler" and "mc_kernel m = k" and "sched_inv k rq" and "rq p = t # us" and "\<forall>q<p. rq q = []"
    and "current_thread k = Some t" and "threads k t = Some th" and "lock_nest k = 0" and "interrupt_nest k = 0"
    and "\<not> switch_interrupt_flag k" and "rb_empty (timer_tree k)"
  shows "\<exists>m'. hdinterrupts e de mem user INTTIMER0 m =
      Some (if th_remaining_tick th = 1 then case us of [] \<Rightarrow> None | u # _ \<Rightarrow> Some (t, u) else None, m') \<and>
    sched_inv (mc_kernel m') (rq(p := if th_remaining_tick th = 1 then us @ [t] else t # us)) \<and>
    threads (mc_kernel m') t = Some (th\<lparr>th_remaining_tick := if th_remaining_tick th = 1 then th_init_tick th else th_remaining_tick th - 1\<rparr>) \<and>
    current_thread (mc_kernel m') = Some (if th_remaining_tick th = 1 then hd (us @ [t]) else t) \<and>
    interrupt_nest (mc_kernel m') = 0 \<and> global_tick (mc_kernel m') = global_tick k + 1"
proof -
  let ?k = "(interrupt_enter k)\<lparr>global_tick := global_tick k + 1\<rparr>"
  have gt: "(interrupt_enter k)\<lparr>global_tick := global_tick (interrupt_enter k) + 1\<rparr> = ?k" by (simp add: interrupt_enter_def)
  have i: "sched_inv ?k rq" by (rule sched_inv_frame [OF assms(3)]) (simp_all add: interrupt_enter_def)
  have c: "current_thread ?k = Some t" "threads ?k t = Some th" "t \<in> set (rq p)" using assms(4,6,7) by (simp_all add: interrupt_enter_def)
  show ?thesis
  proof (cases "th_remaining_tick th = 1")
    case True
    let ?rq = "rq(p := us @ [t])"
    obtain k' h ls where k': "inclock e ?k = process e k'" "sched_inv k' (rq(p := remove1 t (rq p) @ [t]))"
      "k' = sched_upd ?k ((threads ?k)(t \<mapsto> th\<lparr>th_remaining_tick := th_init_tick th\<rparr>)) (priority_tree ?k) h ls"
      using inclock_rotate [OF i c True] by blast
    have i': "sched_inv k' ?rq" using k'(2) assms(4) by simp
    have n: "next_thread k' = Some (Some (hd (us @ [t])))"
      using next_thread_inv [OF i', of p] assms(5) by simp
    have f: "lock_nest k' = 0" "current_thread k' = Some t" "interrupt_nest k' = 1" "\<not> switch_interrupt_flag k'" "timer_tree k' = timer_tree k"
      "threads k' t = Some (th\<lparr>th_remaining_tick := th_init_tick th\<rparr>)" "global_tick k' = global_tick k + 1"
      using assms(6,8-10) by (simp_all add: k'(3) interrupt_enter_def sched_upd_def)
    show ?thesis
    proof (cases us)
      case Nil
      have "inclock e ?k = Some k'" using k'(1) n f(1,2) Nil by (simp add: process_def)
      then have "tick_increase e (interrupt_enter k) = Some k'" using tick_no_timer gt f(5) assms(11) by metis
      moreover have "sched_inv (interrupt_leave k') ?rq" by (rule sched_inv_frame [OF i']) (simp_all add: interrupt_leave_def)
      ultimately show ?thesis using tick_interrupt [OF assms(1)] assms(2) True Nil f by (simp add: interrupt_leave_def)
    next
      case (Cons u vs)
      let ?k' = "arch_context_switch_interrupt t u (k'\<lparr>current_thread := Some u\<rparr>)"
      have "u \<noteq> t" using ready_list_distinct [OF assms(3), of p] assms(4) Cons by auto
      then have "inclock e ?k = Some ?k'" using k'(1) n f(1-3) Cons by (simp add: process_def interrupt_get_nest_def)
      moreover have "rb_empty (timer_tree ?k')" using f(5) assms(11) by (simp add: arch_context_switch_interrupt_def)
      ultimately have "tick_increase e (interrupt_enter k) = Some ?k'" using tick_no_timer gt by metis
      moreover have "sched_inv ((interrupt_leave ?k')\<lparr>switch_interrupt_flag := False\<rparr>) ?rq"
        by (rule sched_inv_frame [OF i']) (simp_all add: interrupt_leave_def arch_context_switch_interrupt_def)
      ultimately show ?thesis using tick_interrupt [OF assms(1)] assms(2) True Cons f
        by (simp add: interrupt_leave_def arch_context_switch_interrupt_def)
    qed
  next
    case False
    let ?k' = "?k\<lparr>threads := (threads ?k)(t \<mapsto> th\<lparr>th_remaining_tick := th_remaining_tick th - 1\<rparr>)\<rparr>"
    have "inclock e ?k = Some ?k'" by (rule inclock_keep [OF c(1,2) False])
    moreover have "rb_empty (timer_tree ?k')" using assms(11) by (simp add: interrupt_enter_def)
    ultimately have "tick_increase e (interrupt_enter k) = Some ?k'" using tick_no_timer gt by metis
    moreover have "sched_inv ?k' rq" by (rule sched_inv_thread [OF i c(2)]) simp_all
    then have "sched_inv (interrupt_leave ?k') rq" by (rule sched_inv_frame) (simp_all add: interrupt_leave_def)
    moreover have "rq(p := t # us) = rq" using assms(4) by auto
    ultimately show ?thesis using tick_interrupt [OF assms(1)] assms(2,6,9,10) False
      by (simp add: interrupt_leave_def interrupt_enter_def)
  qed
qed

theorem tick_interrupt_rotates_witness:
  "\<exists>k1 k m'. insert_thread 1 (pair_kernel 10 10) = Some k1 \<and> insert_thread 2 k1 = Some k \<and>
    hdinterrupts lone_env lone_devenv None (\<lambda>_ _ _ _. None) INTTIMER0 (empty_machine\<lparr>isr_table := (\<lambda>_. Timer_handler), mc_kernel := k\<rparr>) =
      Some (Some (1, 2), m') \<and> sched_inv (mc_kernel m') ((\<lambda>_. [])(10 := [2, 1])) \<and> current_thread (mc_kernel m') = Some 2"
proof -
  let ?th = "(sample_thread 1 ''a'' 10)\<lparr>th_stat := THREAD_READY\<rparr>" and ?rq = "(\<lambda>_. [])(10 := [1, 2]) :: nat \<Rightarrow> nat list"
  obtain k1 k T h ls where k: "insert_thread 1 (pair_kernel 10 10) = Some k1" "insert_thread 2 k1 = Some k" "sched_inv k ?rq"
    "k = sched_upd (pair_kernel 10 10) ((threads (pair_kernel 10 10))(1 \<mapsto> ?th, 2 \<mapsto> (sample_thread 2 ''b'' 10)\<lparr>th_stat := THREAD_READY\<rparr>)) T h ls"
    using pair_kernel_two [of 10 10] by (auto simp: THREAD_PRIORITY_MAX_def)
  let ?m = "empty_machine\<lparr>isr_table := (\<lambda>_. Timer_handler), mc_kernel := k\<rparr>"
  have f: "current_thread k = Some 1" "lock_nest k = 0" "interrupt_nest k = 0" "\<not> switch_interrupt_flag k" "rb_empty (timer_tree k)"
    "threads k 1 = Some ?th"
    by (simp_all add: k(4) sched_upd_def pair_kernel_def boot_kernel_def Scheduler_init_def empty_kernel_def rb_empty_def RBTree_new_def)
  have e: "((\<lambda>q. if q = 10 then [Suc 0, 2] else []) :: nat \<Rightarrow> nat list)(10 := [2, Suc 0]) = (\<lambda>_. [])(10 := [2, Suc 0])" by auto
  have "isr_table ?m INTTIMER0 = Timer_handler" "mc_kernel ?m = k" "?rq 10 = 1 # [2]" "\<forall>q<10. ?rq q = []" by simp_all
  from tick_interrupt_rotates [OF this(1,2) k(3) this(3,4) f(1,6,2-5), of lone_env lone_devenv None "\<lambda>_ _ _ _. None"]
  show ?thesis using k(1,2) by (auto simp: e)
qed

end
