(* ===== verification/Cos_Sys_Arch.thy ===== *)
theory Cos_Sys_Arch
  imports Cos_Drivers Cos_Semaphore Cos_Mutex Cos_MailBox
begin

text \<open>
  The operating system layer of lwIP, \<^verbatim>\<open>components/net/sys_arch.cpp\<close>: its semaphores, mutexes, mailboxes and
  threads are those of the kernel, its serial lines are devices. The start of the stack
  (\<^verbatim>\<open>tcpip_init\<close> of \<^verbatim>\<open>Lwip/src/api/tcpip.c\<close>) is here as far as it uses this layer; the
  initialisation of the protocols, \<open>lwip_init\<close>, is an argument.

  A handle \<open>sys_sem_t *\<close> is the address of the object it points to. What \<open>new\<close> and \<open>kmalloc\<close> return, and
  what the memory they return holds, are arguments; without memory the constructor is not run.
\<close>

section \<open>State\<close>

text \<open>The machine, the static counters the names are made of, and \<open>netif_default\<close>.\<close>

record netport =
  np_machine :: machine
  sem_counter :: u16
  mutex_counter :: u16
  mbox_counter :: u16
  netif_default :: "nat option"

definition np_kernel :: "netport \<Rightarrow> kernel" where
  "np_kernel n = mc_kernel (np_machine n)"

definition set_kernel :: "kernel \<Rightarrow> netport \<Rightarrow> netport" where
  "set_kernel k n = n\<lparr>np_machine := (np_machine n)\<lparr>mc_kernel := k\<rparr>\<rparr>"

lemma set_kernel_simps [simp]:
  "np_kernel (set_kernel k n) = k" "set_kernel k (set_kernel k' n) = set_kernel k n"
  "sem_counter (set_kernel k n) = sem_counter n" "mutex_counter (set_kernel k n) = mutex_counter n"
  "mbox_counter (set_kernel k n) = mbox_counter n" "netif_default (set_kernel k n) = netif_default n"
  "set_kernel (np_kernel n) n = n"
  by (simp_all add: np_kernel_def set_kernel_def)

lemma np_kernel_counters [simp]:
  "np_kernel (n\<lparr>sem_counter := c\<rparr>) = np_kernel n" "np_kernel (n\<lparr>mutex_counter := c\<rparr>) = np_kernel n"
  "np_kernel (n\<lparr>mbox_counter := c\<rparr>) = np_kernel n" "np_kernel (n\<lparr>netif_default := d\<rparr>) = np_kernel n"
  by (simp_all add: np_kernel_def)

definition ERR_MEM :: err_t where "ERR_MEM = - 1"
definition SYS_ARCH_TIMEOUT :: u32 where "SYS_ARCH_TIMEOUT = 0xffffffff"
definition SYS_LWIP_MBOX_NAME :: string where "SYS_LWIP_MBOX_NAME = ''mbox''"
definition SYS_LWIP_SEM_NAME :: string where "SYS_LWIP_SEM_NAME = ''sem''"
definition SYS_LWIP_MUTEX_NAME :: string where "SYS_LWIP_MUTEX_NAME = ''mu''"
definition WAITING_FOREVER :: u32 where "WAITING_FOREVER = - 1"

text \<open>\<open>snprintf(tname, CONFIG_NAME_MAX, "%s%d", prefix, counter)\<close>.\<close>

definition tname :: "string \<Rightarrow> u16 \<Rightarrow> string" where
  "tname prefix counter = take (CONFIG_NAME_MAX - 1) (prefix @ digits (unat counter))"

section \<open>Semaphores\<close>

definition sys_sem_new :: "u8 \<Rightarrow> nat option \<Rightarrow> netport \<Rightarrow> (err_t \<times> nat option \<times> netport) option" where
  "sys_sem_new value mem n = do {
     debug_not_in_interrupt (np_kernel n);
     let name = tname SYS_LWIP_SEM_NAME (sem_counter n);
     let n = n\<lparr>sem_counter := sem_counter n + 1\<rparr>;
     (case mem of
        None \<Rightarrow> Some (ERR_MEM, None, n)
      | Some a \<Rightarrow> do {
          k \<leftarrow> Semaphore_new name (ucast value) IPC_FLAG_FIFO a (np_kernel n);
          Some (ERR_OK, Some a, set_kernel k n) }) }"

definition sys_sem_free :: "nat \<Rightarrow> netport \<Rightarrow> netport option" where
  "sys_sem_free sem n = do {
     debug_not_in_interrupt (np_kernel n);
     k \<leftarrow> Semaphore_delete sem (np_kernel n);
     Some (set_kernel k n) }"

definition sys_sem_signal :: "env \<Rightarrow> nat \<Rightarrow> netport \<Rightarrow> netport option" where
  "sys_sem_signal e sem n = do {
     (_, k) \<leftarrow> Semaphore_release e sem (np_kernel n);
     Some (set_kernel k n) }"

text \<open>Milliseconds to ticks, where zero means to wait forever, and the milliseconds since \<open>tick\<close>, at least one.\<close>

definition wait_ticks :: "u32 \<Rightarrow> u32" where
  "wait_ticks timeout =
     (if timeout = 0 then WAITING_FOREVER
      else if timeout < 1000 div CONFIG_TICK_PER_SECOND then 1
      else timeout div (1000 div CONFIG_TICK_PER_SECOND))"

definition elapsed :: "u32 \<Rightarrow> kernel \<Rightarrow> u32" where
  "elapsed tick k =
     (let d = (tick_get k - tick) * (1000 div CONFIG_TICK_PER_SECOND) in if d = 0 then 1 else d)"

definition sys_arch_sem_wait :: "env \<Rightarrow> nat \<Rightarrow> u32 \<Rightarrow> netport \<Rightarrow> (u32 \<times> netport) option" where
  "sys_arch_sem_wait e sem timeout n = do {
     debug_not_in_interrupt (np_kernel n);
     let tick = tick_get (np_kernel n);
     (ret, k) \<leftarrow> Semaphore_take e sem (wait_ticks timeout) (np_kernel n);
     Some (if ret = - ERR_TIMEOUT then SYS_ARCH_TIMEOUT else elapsed tick k, set_kernel k n) }"

section \<open>Mutexes\<close>

definition sys_mutex_new :: "nat option \<Rightarrow> netport \<Rightarrow> (err_t \<times> nat option \<times> netport) option" where
  "sys_mutex_new mem n = do {
     debug_not_in_interrupt (np_kernel n);
     let name = tname SYS_LWIP_MUTEX_NAME (mutex_counter n);
     let n = n\<lparr>mutex_counter := mutex_counter n + 1\<rparr>;
     (case mem of
        None \<Rightarrow> Some (ERR_MEM, None, n)
      | Some a \<Rightarrow> do {
          k \<leftarrow> Mutex_new name IPC_FLAG_FIFO a (np_kernel n);
          Some (ERR_OK, Some a, set_kernel k n) }) }"

definition sys_mutex_lock :: "env \<Rightarrow> nat \<Rightarrow> netport \<Rightarrow> netport option" where
  "sys_mutex_lock e mutex n = do {
     debug_not_in_interrupt (np_kernel n);
     (_, k) \<leftarrow> Mutex_take e mutex WAITING_FOREVER (np_kernel n);
     Some (set_kernel k n) }"

definition sys_mutex_unlock :: "env \<Rightarrow> nat \<Rightarrow> netport \<Rightarrow> netport option" where
  "sys_mutex_unlock e mutex n = do {
     (_, k) \<leftarrow> Mutex_release e mutex (np_kernel n);
     Some (set_kernel k n) }"

definition sys_mutex_free :: "nat \<Rightarrow> netport \<Rightarrow> netport option" where
  "sys_mutex_free mutex n = do {
     debug_not_in_interrupt (np_kernel n);
     k \<leftarrow> Mutex_delete mutex (np_kernel n);
     Some (set_kernel k n) }"

section \<open>Mailboxes\<close>

text \<open>The memory of a new mailbox: the object, and its pool with what it holds.\<close>

record mbox_memory =
  mbm_this :: "nat option"
  mbm_pool :: "nat option"
  mbm_fill :: "nat \<Rightarrow> u32"
  mbm_junk :: bool

definition sys_mbox_new :: "u32 \<Rightarrow> mbox_memory \<Rightarrow> netport \<Rightarrow> (err_t \<times> nat option \<times> netport) option" where
  "sys_mbox_new sz mem n = do {
     debug_not_in_interrupt (np_kernel n);
     let name = tname SYS_LWIP_MBOX_NAME (mbox_counter n);
     let n = n\<lparr>mbox_counter := mbox_counter n + 1\<rparr>;
     (case mbm_this mem of
        None \<Rightarrow> Some (ERR_MEM, None, n)
      | Some a \<Rightarrow> do {
          k \<leftarrow> MailBox_new_alloc name (mbm_pool mem) (mbm_fill mem) sz IPC_FLAG_FIFO (mbm_junk mem) a (np_kernel n);
          Some (ERR_OK, Some a, set_kernel k n) }) }"

definition sys_mbox_free :: "nat \<Rightarrow> netport \<Rightarrow> netport option" where
  "sys_mbox_free mbox n = do {
     debug_not_in_interrupt (np_kernel n);
     k \<leftarrow> MailBox_delete mbox (np_kernel n);
     Some (set_kernel k n) }"

definition sys_mbox_post :: "env \<Rightarrow> nat \<Rightarrow> u32 \<Rightarrow> netport \<Rightarrow> netport option" where
  "sys_mbox_post e mbox msg n = do {
     debug_not_in_interrupt (np_kernel n);
     (_, k) \<leftarrow> MailBox_send_wait e mbox msg WAITING_FOREVER (np_kernel n);
     Some (set_kernel k n) }"

definition sys_mbox_trypost :: "env \<Rightarrow> nat \<Rightarrow> u32 \<Rightarrow> netport \<Rightarrow> (err_t \<times> netport) option" where
  "sys_mbox_trypost e mbox msg n = do {
     (r, k) \<leftarrow> MailBox_send e mbox msg (np_kernel n);
     Some (if r = ERR_OK then ERR_OK else ERR_MEM, set_kernel k n) }"

text \<open>The message is \<open>None\<close> where \<open>*msg\<close> is not written. An error but the timeout fails an assertion.\<close>

definition sys_arch_mbox_fetch :: "env \<Rightarrow> nat \<Rightarrow> u32 \<Rightarrow> netport \<Rightarrow> (u32 \<times> u32 option \<times> netport) option" where
  "sys_arch_mbox_fetch e mbox timeout n = do {
     debug_not_in_interrupt (np_kernel n);
     let tick = tick_get (np_kernel n);
     (ret, msg, k) \<leftarrow> MailBox_recv e mbox (wait_ticks timeout) (np_kernel n);
     if ret = - ERR_TIMEOUT then Some (SYS_ARCH_TIMEOUT, msg, set_kernel k n)
     else do {
       cos_assert (ret = ERR_OK);
       Some (elapsed tick k, msg, set_kernel k n) } }"

definition sys_arch_mbox_tryfetch :: "env \<Rightarrow> nat \<Rightarrow> netport \<Rightarrow> (u32 \<times> u32 option \<times> netport) option" where
  "sys_arch_mbox_tryfetch e mbox n = do {
     (ret, msg, k) \<leftarrow> MailBox_recv e mbox 0 (np_kernel n);
     Some (if ret = - ERR_TIMEOUT then SYS_ARCH_TIMEOUT else if ret = ERR_OK then 1 else of_int ret, msg, set_kernel k n) }"

section \<open>Threads and time\<close>

record thread_memory =
  thm_this :: "nat option"
  thm_stack :: "nat option"
  thm_timer :: nat
  thm_tnode :: nat
  thm_lnode :: nat

definition sys_thread_new :: "env \<Rightarrow> string \<Rightarrow> u32 \<Rightarrow> u32 \<Rightarrow> thread_memory \<Rightarrow> netport \<Rightarrow> (nat \<times> netport) option" where
  "sys_thread_new e name stacksize prio mem n = do {
     debug_not_in_interrupt (np_kernel n);
     cos_assert (thm_this mem \<noteq> None);
     t \<leftarrow> thm_this mem;
     k \<leftarrow> Thread_new_alloc name (thm_stack mem) stacksize (ucast prio) 20 t (thm_timer mem) (thm_tnode mem) (thm_lnode mem) (np_kernel n);
     (_, k) \<leftarrow> Thread_startup e t k;
     Some (t, set_kernel k n) }"

definition sys_jiffies :: "netport \<Rightarrow> u32" where
  "sys_jiffies n = tick_get (np_kernel n)"

definition sys_now :: "netport \<Rightarrow> u32" where
  "sys_now n = tick_get (np_kernel n) * (1000 div CONFIG_TICK_PER_SECOND)"

section \<open>Serial lines\<close>

definition sio_read :: "devenv \<Rightarrow> nat option \<Rightarrow> nat \<Rightarrow> netport \<Rightarrow> (u8 list \<times> netport) option" where
  "sio_read de fd sz n = do {
     cos_assert (fd \<noteq> None);
     d \<leftarrow> fd;
     (bs, m) \<leftarrow> Device_read de d sz (np_machine n);
     Some (bs, n\<lparr>np_machine := m\<rparr>) }"

definition sio_write :: "devenv \<Rightarrow> nat option \<Rightarrow> u8 list \<Rightarrow> netport \<Rightarrow> (nat \<times> netport) option" where
  "sio_write de fd buf n = do {
     cos_assert (fd \<noteq> None);
     d \<leftarrow> fd;
     (len, m) \<leftarrow> Device_write de d buf (np_machine n);
     Some (len, n\<lparr>np_machine := m\<rparr>) }"

definition sio_read_abort :: "devenv \<Rightarrow> netport \<Rightarrow> netport option" where
  "sio_read_abort de n = do {
     m \<leftarrow> printk de (bytes_of ''read_abort'' @ [10]) (np_machine n);
     Some (n\<lparr>np_machine := m\<rparr>) }"

text \<open>The length \<open>vsnprintf\<close> returns is not bounded by the buffer of 256 bytes, of which the last one is never written;
  reading beyond it has no outcome.\<close>

definition ppp_trace :: "devenv \<Rightarrow> u8 list \<Rightarrow> netport \<Rightarrow> netport option" where
  "ppp_trace de txt n =
     (case console_device (np_machine n) of
        None \<Rightarrow> Some n
      | Some con \<Rightarrow>
          if length txt \<le> CONFIG_CONSOLEBUF_SIZE then do {
            (_, m) \<leftarrow> Device_write de con (take (length txt) (vsnprintf_buf (CONFIG_CONSOLEBUF_SIZE - 1) txt @ [0])) (np_machine n);
            Some (n\<lparr>np_machine := m\<rparr>) }
          else None)"

section \<open>Starting the stack\<close>

definition TCPIP_MBOX_SIZE :: u32 where "TCPIP_MBOX_SIZE = 8"
definition TCPIP_THREAD_PRIO :: u32 where "TCPIP_THREAD_PRIO = 128"
definition TCPIP_THREAD_STACKSIZE :: u32 where "TCPIP_THREAD_STACKSIZE = 4096"
definition TCPIP_THREAD_NAME :: string where "TCPIP_THREAD_NAME = ''tcpip''"

text \<open>The result is the mailbox of the stack.\<close>

definition tcpip_init ::
  "(netport \<Rightarrow> netport option) \<Rightarrow> env \<Rightarrow> mbox_memory \<Rightarrow> thread_memory \<Rightarrow> netport \<Rightarrow> (nat \<times> netport) option" where
  "tcpip_init lwip_init e mbm thm n = do {
     n \<leftarrow> lwip_init n;
     (r, mbox, n) \<leftarrow> sys_mbox_new TCPIP_MBOX_SIZE mbm n;
     cos_assert (r = ERR_OK);
     mbox \<leftarrow> mbox;
     (_, n) \<leftarrow> sys_thread_new e TCPIP_THREAD_NAME TCPIP_THREAD_STACKSIZE TCPIP_THREAD_PRIO thm n;
     Some (mbox, n) }"

text \<open>What the thread of the stack calls when it starts.\<close>

definition tcpip_init_done_callback :: "env \<Rightarrow> nat option \<Rightarrow> netport \<Rightarrow> netport option" where
  "tcpip_init_done_callback e arg n = do {
     cos_assert (arg \<noteq> None);
     sem \<leftarrow> arg;
     k \<leftarrow> exit_critical e (enter_critical (np_kernel n));
     (_, k) \<leftarrow> Semaphore_release e sem k;
     Some (set_kernel k n) }"

text \<open>An error of the constructor fails an assertion. The version of lwIP is 1.4.1.\<close>

definition lwip_system_init ::
  "(netport \<Rightarrow> netport option) \<Rightarrow> env \<Rightarrow> devenv \<Rightarrow> nat option \<Rightarrow> mbox_memory \<Rightarrow> thread_memory \<Rightarrow> netport \<Rightarrow> (int \<times> netport) option" where
  "lwip_system_init lwip_init e de mem mbm thm n = do {
     let n = n\<lparr>netif_default := None\<rparr>;
     done_sem \<leftarrow> mem;
     k \<leftarrow> Semaphore_new ''done'' 0 IPC_FLAG_FIFO done_sem (np_kernel n);
     (er, k) \<leftarrow> get_errno k;
     cos_assert (er = ERR_OK);
     (_, n) \<leftarrow> tcpip_init lwip_init e mbm thm (set_kernel k n);
     (r, k) \<leftarrow> Semaphore_take e done_sem WAITING_FOREVER (np_kernel n);
     k \<leftarrow> Semaphore_delete done_sem k;
     if r \<noteq> ERR_OK then Some (- 1, set_kernel k n)
     else do {
       m \<leftarrow> printk de (bytes_of ''lwIP-1.4.1 initialized!'' @ [10]) (np_machine (set_kernel k n));
       Some (0, n\<lparr>np_machine := m\<rparr>) } }"

end
