(* ===== verification/Cos_Sys_Arch_Correct.thy ===== *)
theory Cos_Sys_Arch_Correct
  imports Cos_Sys_Arch Cos_MailBox_Correct Cos_Semaphore_Correct
begin

text \<open>
  The mailboxes of lwIP on top of those of the kernel: a call of the layer is a call of the kernel with
  another result, and the memory a mailbox gets is too small for the messages it should hold.
\<close>

section \<open>The layer\<close>

text \<open>A call without waiting, and what the layer makes of the result of the kernel.\<close>

definition lwip_step :: "env \<Rightarrow> nat \<Rightarrow> u32 chan_op \<Rightarrow> netport \<Rightarrow> ((int \<times> u32 option) \<times> netport) option" where
  "lwip_step e mbox c n =
     (case c of
        Send v \<Rightarrow> do { (r, n) \<leftarrow> sys_mbox_trypost e mbox v n; Some ((r, None), n) }
      | Recv \<Rightarrow> do { (r, v, n) \<leftarrow> sys_arch_mbox_tryfetch e mbox n; Some ((uint r, v), n) }
      | Urgent _ \<Rightarrow> None)"

fun lwip_result :: "u32 chan_op \<Rightarrow> err_t \<times> u32 option \<Rightarrow> int \<times> u32 option" where
  "lwip_result Recv (r, v) =
     (uint (if r = - ERR_TIMEOUT then SYS_ARCH_TIMEOUT else if r = ERR_OK then 1 else of_int r :: u32), v)"
| "lwip_result c (r, v) = (if r = ERR_OK then ERR_OK else ERR_MEM, v)"

lemma lwip_step_mb:
  "lwip_step e mbox c n =
     map_option (\<lambda>(r, k). (lwip_result c r, set_kernel k n)) (mb_step e mbox c (np_kernel n))"
  by (cases c) (auto simp: lwip_step_def mb_step_def sys_mbox_trypost_def sys_arch_mbox_tryfetch_def split: Option.bind_split)

text \<open>So a sequence of calls is the sequence of calls of the kernel.\<close>

lemma lwip_run_mb:
  "chan_run (lwip_step e mbox) cs n =
     map_option (\<lambda>(rs, k). (map2 lwip_result cs rs, set_kernel k n)) (chan_run (mb_step e mbox) cs (np_kernel n))"
proof (induction cs arbitrary: n)
  case (Cons c cs)
  show ?case
  proof (cases "mb_step e mbox c (np_kernel n)")
    case (Some rk)
    then show ?thesis using Cons.IH [of "set_kernel (snd rk) n"]
      by (cases "chan_run (mb_step e mbox) cs (snd rk)") (auto simp: lwip_step_mb split_beta)
  qed (simp add: lwip_step_mb)
qed simp

text \<open>Waiting for a semaphore that is available takes it at once and reports one millisecond, for every timeout.\<close>

lemma sys_sem_wait_ready:
  assumes "sem_idle s (np_kernel n) v" and "v \<noteq> 0" and "interrupt_nest (np_kernel n) = 0"
  shows "\<exists>n'. sys_arch_sem_wait e s timeout n = Some (1, n') \<and> sem_idle s (np_kernel n') (v - 1)"
proof -
  obtain x where x: "sems (np_kernel n) s = Some x" "List_empty (suspend_list x)" "unat (sem_value x) = v"
    using assms(1) by (auto simp: sem_idle_def)
  have "0 < sem_value x" using x(3) assms(2) by (auto simp: word_less_nat_alt)
  moreover have "unat (sem_value x - 1) = v - 1" using unat_dec16 [of "sem_value x"] x(3) assms(2) by simp
  ultimately show ?thesis using x assms(3)
    by (simp add: sys_arch_sem_wait_def Let_def Semaphore_take_def sem_idle_def debug_not_in_interrupt_def interrupt_get_nest_def
        elapsed_def tick_get_def err_defs)
qed

section \<open>A mailbox with too little memory\<close>

text \<open>A mailbox for \<open>sz\<close> words of which only \<open>w\<close> are its memory, after \<open>p\<close> words were put into it; \<open>q\<close> are those not yet taken out.\<close>

definition mb_part :: "nat \<Rightarrow> nat \<Rightarrow> nat \<Rightarrow> kernel \<Rightarrow> nat \<Rightarrow> u32 list \<Rightarrow> bool" where
  "mb_part this sz w k p q \<longleftrightarrow> (\<exists>x. mboxes k this = Some x \<and> unat (mb_size x) = sz \<and> w < sz \<and> p \<le> w \<and>
     unat (mb_in_offset x) = p \<and> unat (mb_out_offset x) + length q = p \<and> unat (mb_entry x) = length q \<and>
     (\<forall>i. mb_msg_pool x i = None \<longleftrightarrow> w \<le> i) \<and> (\<forall>i<length q. mb_msg_pool x (unat (mb_out_offset x) + i) = Some (q ! i)) \<and>
     List_empty (suspend_list x) \<and> List_empty (mb_suspend_sender x))"

lemma mb_next_inc:
  assumes "unat i + 1 < unat sz"
  shows "unat (mb_next sz i) = unat i + 1"
  using mb_next_mod [of i sz] assms by simp

lemma mb_part_wait:
  assumes "mboxes k this = Some x" and "unat (mb_entry x) < unat (mb_size x)"
  shows "mb_entry x \<noteq> mb_size x" "mb_wait_space e this t timeout k = Some (None, k)"
proof -
  show ne: "mb_entry x \<noteq> mb_size x" using assms(2) by auto
  show "mb_wait_space e this t timeout k = Some (None, k)" using assms(1) ne by (subst mb_wait_space.simps) simp
qed

lemma mb_part_send:
  assumes "mb_part this sz w k p q"
  shows "if p < w then \<exists>k'. MailBox_send e this v k = Some (ERR_OK, k') \<and> mb_part this sz w k' (p + 1) (q @ [v])
    else MailBox_send e this v k = None"
proof -
  obtain x where x: "mboxes k this = Some x" "unat (mb_size x) = sz" "w < sz" "p \<le> w" "unat (mb_in_offset x) = p"
    "unat (mb_out_offset x) + length q = p" "unat (mb_entry x) = length q" "\<forall>i. mb_msg_pool x i = None \<longleftrightarrow> w \<le> i"
    "\<forall>i<length q. mb_msg_pool x (unat (mb_out_offset x) + i) = Some (q ! i)" "List_empty (suspend_list x)" "List_empty (mb_suspend_sender x)"
    using assms by (auto simp: mb_part_def)
  have lt: "unat (mb_entry x) < unat (mb_size x)" using x(2-7) by simp
  note wait = mb_part_wait [OF x(1) lt]
  show ?thesis
  proof (cases "p < w")
    case True
    obtain u where u: "mb_msg_pool x p = Some u" using x(8) True by (cases "mb_msg_pool x p") auto
    let ?x = "x\<lparr>mb_msg_pool := (mb_msg_pool x)(p \<mapsto> v), mb_in_offset := mb_next (mb_size x) (mb_in_offset x), mb_entry := mb_entry x + 1\<rparr>"
    have put: "mb_put v x = Some ?x" using u x(5) by (simp add: mb_put_def)
    have "MailBox_send e this v k = Some (ERR_OK, k\<lparr>mboxes := (mboxes k)(this \<mapsto> ?x)\<rparr>)"
      using x(1,10) wait put by (simp add: MailBox_send_def MailBox_send_wait_def list_resume_none err_defs)
    moreover have "unat (mb_next (mb_size x) (mb_in_offset x)) = p + 1" using mb_next_inc [of "mb_in_offset x" "mb_size x"] x(2-5) True by simp
    moreover have "unat (mb_entry x + 1) = length q + 1"
      using unat_inc16 [of "mb_entry x"] x(7) lt unat_less16 [of "mb_size x"] by simp
    ultimately show ?thesis using True x by (simp add: mb_part_def nth_append less_Suc_eq)
  next
    case False
    then have "mb_msg_pool x (unat (mb_in_offset x)) = None" using x(4,5,8) by simp
    then have "mb_put v x = None" by (simp add: mb_put_def heap_upd_def)
    then show ?thesis using False x(1) wait by (simp add: MailBox_send_def MailBox_send_wait_def)
  qed
qed

lemma mb_part_recv:
  assumes "mb_part this sz w k p q"
  shows "\<exists>k'. mb_step e this Recv k = Some (fst (fifo_step sz Recv q), k') \<and> mb_part this sz w k' p (snd (fifo_step sz Recv q))"
proof -
  obtain x where x: "mboxes k this = Some x" "unat (mb_size x) = sz" "w < sz" "p \<le> w" "unat (mb_in_offset x) = p"
    "unat (mb_out_offset x) + length q = p" "unat (mb_entry x) = length q" "\<forall>i. mb_msg_pool x i = None \<longleftrightarrow> w \<le> i"
    "\<forall>i<length q. mb_msg_pool x (unat (mb_out_offset x) + i) = Some (q ! i)" "List_empty (suspend_list x)" "List_empty (mb_suspend_sender x)"
    using assms by (auto simp: mb_part_def)
  show ?thesis
  proof (cases q)
    case Nil
    then have "mb_entry x = 0" using x(7) by (simp add: unat_eq_0)
    then show ?thesis using Nil assms x(1) by (simp add: mb_step_def MailBox_recv_def)
  next
    case (Cons v r)
    then have ne: "mb_entry x \<noteq> 0" using x(7) by auto
    let ?x = "x\<lparr>mb_out_offset := mb_next (mb_size x) (mb_out_offset x), mb_entry := mb_entry x - 1\<rparr>"
    have get: "mb_get x = Some (v, ?x)" using x(9) Cons by (auto simp: mb_get_def)
    have "mb_wait_mail e this (get_current_thread k) 0 k = Some (None, k)" using x(1) ne by (subst mb_wait_mail.simps) simp
    then have "MailBox_recv e this 0 k = Some (ERR_OK, Some v, k\<lparr>mboxes := (mboxes k)(this \<mapsto> ?x)\<rparr>)"
      using x(1,11) ne get by (simp add: MailBox_recv_def)
    moreover have "unat (mb_next (mb_size x) (mb_out_offset x)) = unat (mb_out_offset x) + 1"
      using mb_next_inc [of "mb_out_offset x" "mb_size x"] x(2-6) Cons by simp
    moreover have "unat (mb_entry x - 1) = length r" using unat_dec16 [of "mb_entry x"] x(7) Cons by simp
    ultimately show ?thesis using Cons x by (fastforce simp: mb_step_def mb_part_def)
  qed
qed

definition posts :: "u32 chan_op list \<Rightarrow> nat" where
  "posts cs = length (filter ((\<noteq>) Recv) cs)"

lemma mb_part_run:
  assumes "mb_part this sz w k p q" and "list_all mb_call cs" and "p + posts cs \<le> w"
  shows "\<exists>k'. chan_run (mb_step e this) cs k = Some (fst (fifo_run sz cs q), k') \<and>
    mb_part this sz w k' (p + posts cs) (snd (fifo_run sz cs q))"
  using assms
proof (induction cs arbitrary: k p q)
  case (Cons c cs)
  have q: "length q < sz" using Cons.prems(1) by (auto simp: mb_part_def)
  obtain k1 p1 where k1: "mb_step e this c k = Some (fst (fifo_step sz c q), k1)" "mb_part this sz w k1 p1 (snd (fifo_step sz c q))"
    "p1 + posts cs = p + posts (c # cs)"
  proof (cases c)
    case (Send v)
    then have "p < w" using Cons.prems(3) by (simp add: posts_def)
    then show ?thesis using mb_part_send [OF Cons.prems(1), of e v] q Send that by (auto simp: mb_step_def posts_def)
  next
    case Recv
    then show ?thesis using mb_part_recv [OF Cons.prems(1), of e] that by (auto simp: posts_def)
  qed (use Cons.prems(2) in \<open>simp add: mb_call_def\<close>)
  have "p1 + posts cs \<le> w" using Cons.prems(3) k1(3) by simp
  from Cons.IH [OF k1(2) _ this] Cons.prems(2) obtain k2 where
    "chan_run (mb_step e this) cs k1 = Some (fst (fifo_run sz cs (snd (fifo_step sz c q))), k2)"
    "mb_part this sz w k2 (p1 + posts cs) (snd (fifo_run sz cs (snd (fifo_step sz c q))))" by auto
  then show ?case using k1(1,3) by (simp add: split_beta)
qed (simp add: posts_def)

text \<open>What the constructor leaves.\<close>

lemma sys_mbox_new_part:
  assumes "interrupt_nest (np_kernel n) = 0" and "mbm_this mem = Some a" and "mbm_pool mem = Some pool"
    and "object_container (np_kernel n) Object_Class_Event (tname SYS_LWIP_MBOX_NAME (mbox_counter n)) = None"
    and "4 \<le> unat sz" and "unat sz < 2 ^ 16"
  shows "\<exists>n1. sys_mbox_new sz mem n = Some (ERR_OK, Some a, n1) \<and> mb_part a (unat sz) (unat sz div 4) (np_kernel n1) 0 []"
proof -
  have l: "\<not> length (tname SYS_LWIP_MBOX_NAME (mbox_counter n)) \<ge> CONFIG_NAME_MAX" by (simp add: tname_def CONFIG_NAME_MAX_def)
  have s: "unat (ucast sz :: u16) = unat sz" using assms(6) by (simp add: unsigned_ucast_eq take_bit_nat_eq_self)
  have w: "words_of (unat sz) f i = None \<longleftrightarrow> unat sz div 4 \<le> i" for f i by (auto simp: words_of_def)
  show ?thesis using assms l s
    by (simp add: sys_mbox_new_def Let_def debug_not_in_interrupt_def interrupt_get_nest_def MailBox_new_alloc_def Object_new_def
        mb_part_def mailbox_init_def ipc.defs ipc_init_def object.defs object_init_def List_empty_def List_new_def w)
qed

section \<open>Properties\<close>

text \<open>C40: a mailbox that lwIP creates for \<open>sz\<close> messages works, as a bounded queue with the results lwIP expects,
  only until \<open>sz / 4\<close> messages were posted, whether or not they were fetched: the next post writes outside the
  memory of the mailbox, because that was allocated with one byte per message.\<close>

theorem sys_mbox_overflows:
  assumes "interrupt_nest (np_kernel n) = 0" and "mbm_this mem = Some a" and "mbm_pool mem = Some pool"
    and "object_container (np_kernel n) Object_Class_Event (tname SYS_LWIP_MBOX_NAME (mbox_counter n)) = None"
    and "4 \<le> unat sz" and "unat sz < 2 ^ 16" and "list_all mb_call cs" and "posts cs = unat sz div 4"
  shows "\<exists>n1 n2. sys_mbox_new sz mem n = Some (ERR_OK, Some a, n1) \<and>
    chan_run (lwip_step e a) cs n1 = Some (map2 lwip_result cs (fst (fifo_run (unat sz) cs [])), n2) \<and>
    sys_mbox_trypost e a v n2 = None"
proof -
  obtain n1 where n1: "sys_mbox_new sz mem n = Some (ERR_OK, Some a, n1)" "mb_part a (unat sz) (unat sz div 4) (np_kernel n1) 0 []"
    using sys_mbox_new_part [OF assms(1-6)] by blast
  obtain k2 where k2: "chan_run (mb_step e a) cs (np_kernel n1) = Some (fst (fifo_run (unat sz) cs []), k2)"
    "mb_part a (unat sz) (unat sz div 4) k2 (unat sz div 4) (snd (fifo_run (unat sz) cs []))"
    using mb_part_run [OF n1(2) assms(7), of e] assms(8) by auto
  have "MailBox_send e a v k2 = None" using mb_part_send [OF k2(2), of e v] by simp
  then have "sys_mbox_trypost e a v (set_kernel k2 n1) = None" by (simp add: sys_mbox_trypost_def)
  then show ?thesis using n1(1) k2(1) by (auto simp: lwip_run_mb)
qed

text \<open>A machine on which the stack has not been started.\<close>

definition sample_netport :: netport where
  "sample_netport = \<lparr>np_machine = empty_machine, sem_counter = 0, mutex_counter = 0, mbox_counter = 0, netif_default = None\<rparr>"

definition sample_mbox_memory :: mbox_memory where
  "sample_mbox_memory = \<lparr>mbm_this = Some 64, mbm_pool = Some 128, mbm_fill = (\<lambda>_. 0), mbm_junk = False\<rparr>"

theorem sys_mbox_overflows_witness:
  "\<exists>n1 n2. sys_mbox_new TCPIP_MBOX_SIZE sample_mbox_memory sample_netport = Some (0, Some 64, n1) \<and>
    chan_run (lwip_step lone_env 64) [Send 7, Recv, Recv, Send 8] n1 =
      Some ([(0, None), (1, Some 7), (0xffffffff, None), (0, None)], n2) \<and>
    sys_mbox_trypost lone_env 64 9 n2 = None"
proof -
  have "\<exists>n1 n2. sys_mbox_new TCPIP_MBOX_SIZE sample_mbox_memory sample_netport = Some (ERR_OK, Some 64, n1) \<and>
    chan_run (lwip_step lone_env 64) [Send 7, Recv, Recv, Send 8] n1 =
      Some (map2 lwip_result [Send 7, Recv, Recv, Send 8] (fst (fifo_run (unat TCPIP_MBOX_SIZE) [Send 7, Recv, Recv, Send 8] [])), n2) \<and>
    sys_mbox_trypost lone_env 64 9 n2 = None"
    by (rule sys_mbox_overflows)
      (simp_all add: sample_netport_def sample_mbox_memory_def np_kernel_def empty_kernel_def TCPIP_MBOX_SIZE_def mb_call_def posts_def)
  then show ?thesis by (simp add: err_defs TCPIP_MBOX_SIZE_def SYS_ARCH_TIMEOUT_def)
qed

end
