(* ===== verification/Cos_Context.thy ===== *)
theory Cos_Context
  imports Cos_Prelude
begin

text \<open>
  The contexts of threads on the x86: the first stack of a thread (\<^verbatim>\<open>arch/x86/common/stack.c\<close>), the switch between
  threads (\<^verbatim>\<open>arch/x86/common/context_gcc.S\<close>), and the part of the interrupt entry that saves and restores
  registers (\<^verbatim>\<open>arch/x86/common/hdisr_gcc.S\<close>), as programs of a processor with 32-bit registers and
  a memory of 32-bit words. An access to a word that is not part of the memory has no outcome.
\<close>

section \<open>The processor\<close>

record cpu =
  eax :: u32
  ecx :: u32
  edx :: u32
  ebx :: u32
  esp :: u32
  ebp :: u32
  esi :: u32
  edi :: u32
  ds :: u32
  es :: u32
  cs :: u32
  eip :: u32
  eflags :: u32
  cmem :: "u32 \<Rightarrow> u32 option"

definition load :: "u32 \<Rightarrow> cpu \<Rightarrow> u32 option" where
  "load a s = cmem s a"

definition store :: "u32 \<Rightarrow> u32 \<Rightarrow> cpu \<Rightarrow> cpu option" where
  "store a v s = (if cmem s a = None then None else Some (s\<lparr>cmem := (cmem s)(a \<mapsto> v)\<rparr>))"

definition push :: "u32 \<Rightarrow> cpu \<Rightarrow> cpu option" where
  "push v s = store (esp s - 4) v (s\<lparr>esp := esp s - 4\<rparr>)"

definition pop :: "cpu \<Rightarrow> (u32 \<times> cpu) option" where
  "pop s = do { v \<leftarrow> load (esp s) s; Some (v, s\<lparr>esp := esp s + 4\<rparr>) }"

fun pushes :: "u32 list \<Rightarrow> cpu \<Rightarrow> cpu option" where
  "pushes [] s = Some s"
| "pushes (v # vs) s = do { s \<leftarrow> push v s; pushes vs s }"

text \<open>\<open>pushal\<close> stores the stack pointer it started with; \<open>popal\<close> skips it.\<close>

definition pushal :: "cpu \<Rightarrow> cpu option" where
  "pushal s = pushes [eax s, ecx s, edx s, ebx s, esp s, ebp s, esi s, edi s] s"

definition popal :: "cpu \<Rightarrow> cpu option" where
  "popal s = do {
     (v, s) \<leftarrow> pop s; let s = s\<lparr>edi := v\<rparr>;
     (v, s) \<leftarrow> pop s; let s = s\<lparr>esi := v\<rparr>;
     (v, s) \<leftarrow> pop s; let s = s\<lparr>ebp := v\<rparr>;
     (_, s) \<leftarrow> pop s;
     (v, s) \<leftarrow> pop s; let s = s\<lparr>ebx := v\<rparr>;
     (v, s) \<leftarrow> pop s; let s = s\<lparr>edx := v\<rparr>;
     (v, s) \<leftarrow> pop s; let s = s\<lparr>ecx := v\<rparr>;
     (v, s) \<leftarrow> pop s; Some (s\<lparr>eax := v\<rparr>) }"

definition iret :: "cpu \<Rightarrow> cpu option" where
  "iret s = do {
     (v, s) \<leftarrow> pop s; let s = s\<lparr>eip := v\<rparr>;
     (v, s) \<leftarrow> pop s; let s = s\<lparr>cs := v\<rparr>;
     (v, s) \<leftarrow> pop s; Some (s\<lparr>eflags := v\<rparr>) }"

section \<open>The code\<close>

text \<open>The stack of a new thread.\<close>

definition arch_stack_init :: "u32 \<Rightarrow> u32 \<Rightarrow> u32 \<Rightarrow> u32 \<Rightarrow> cpu \<Rightarrow> (u32 \<times> cpu) option" where
  "arch_stack_init tentry parameter stack_addr texit s = do {
     t \<leftarrow> pushes [parameter, texit, 0x200, 0x08, tentry, 0, 0x10, 0x10, 0, 0, 0, 0, 0, 0, 0, 0] (s\<lparr>esp := stack_addr\<rparr>);
     Some (esp t, t\<lparr>esp := esp s\<rparr>) }"

text \<open>The end of every switch: take the registers of the new thread from its stack.\<close>

definition restore_context :: "cpu \<Rightarrow> cpu option" where
  "restore_context s = do {
     s \<leftarrow> popal s;
     (v, s) \<leftarrow> pop s; let s = s\<lparr>es := v\<rparr>;
     (v, s) \<leftarrow> pop s; let s = s\<lparr>ds := v\<rparr>;
     iret (s\<lparr>esp := esp s + 4\<rparr>) }"

text \<open>On entry the stack holds the return address and the two arguments.\<close>

definition arch_context_switch :: "cpu \<Rightarrow> cpu option" where
  "arch_context_switch s = do {
     s \<leftarrow> push (eflags s) s;
     (v, s) \<leftarrow> pop s; let s = s\<lparr>eax := v\<rparr>;
     (v, s) \<leftarrow> pop s; let s = s\<lparr>ebx := v\<rparr>;
     s \<leftarrow> pushes [eax s, cs s, ebx s, 0, ds s, es s] s;
     s \<leftarrow> pushal s;
     v \<leftarrow> load (esp s + 0x3c) s; let s = s\<lparr>eax := v\<rparr>;
     v \<leftarrow> load (esp s + 0x38) s; let s = s\<lparr>ebx := v\<rparr>;
     s \<leftarrow> store (ebx s) (esp s) s;
     v \<leftarrow> load (eax s) s;
     restore_context (s\<lparr>esp := v\<rparr>) }"

definition arch_context_switch_to :: "cpu \<Rightarrow> cpu option" where
  "arch_context_switch_to s = do {
     s \<leftarrow> push (ebp s) s; let s = s\<lparr>ebp := esp s\<rparr>;
     v \<leftarrow> load (ebp s + 8) s; let s = s\<lparr>eax := v\<rparr>;
     v \<leftarrow> load (eax s) s;
     restore_context (s\<lparr>esp := v\<rparr>) }"

text \<open>An interrupt: the processor pushes flags, code segment and instruction pointer, the stub of the vector its
  number, and \<open>_hdinterrupts\<close> the rest, the last word being the stack pointer.\<close>

definition interrupt_save :: "u32 \<Rightarrow> cpu \<Rightarrow> cpu option" where
  "interrupt_save vector s = do {
     s \<leftarrow> pushes [eflags s, cs s, eip s, vector, ds s, es s] s;
     s \<leftarrow> pushal s;
     push (esp s) (s\<lparr>eax := (eax s AND 0xffff0000) OR 0x10, ds := 0x10, es := 0x10\<rparr>) }"

text \<open>The two ways out: back to the interrupted thread, or, at \<open>_interrupt_thread_switch\<close>, to the thread whose
  stack pointer is stored at \<open>to\<close>, after storing that of the interrupted one at \<open>from\<close>. The registers that
  hold these addresses on the way are loaded from the stack at the end.\<close>

definition interrupt_return :: "cpu \<Rightarrow> cpu option" where
  "interrupt_return s = do { (v, s) \<leftarrow> pop s; restore_context (s\<lparr>esp := v\<rparr>) }"

definition interrupt_thread_switch :: "u32 \<Rightarrow> u32 \<Rightarrow> cpu \<Rightarrow> cpu option" where
  "interrupt_thread_switch from to s = do {
     (v, s) \<leftarrow> pop s; let s = s\<lparr>esp := v\<rparr>;
     s \<leftarrow> store from (esp s) s;
     v \<leftarrow> load to s;
     restore_context (s\<lparr>esp := v\<rparr>) }"

section \<open>Words on the stack\<close>

fun words_at :: "(u32 \<Rightarrow> u32 option) \<Rightarrow> u32 \<Rightarrow> u32 list \<Rightarrow> bool" where
  "words_at m a [] = True"
| "words_at m a (v # vs) \<longleftrightarrow> m a = Some v \<and> words_at m (a + 4) vs"

text \<open>The registers of a thread that is not running, from address \<open>a\<close> on.\<close>

definition context_at :: "(u32 \<Rightarrow> u32 option) \<Rightarrow> u32 \<Rightarrow> cpu \<Rightarrow> bool" where
  "context_at m a c \<longleftrightarrow> (\<exists>x y. words_at m a [edi c, esi c, ebp c, x, ebx c, edx c, ecx c, eax c, es c, ds c, y, eip c, cs c, eflags c])"

lemma words_at_append: "words_at m a (xs @ ys) \<longleftrightarrow> words_at m a xs \<and> words_at m (a + 4 * of_nat (length xs)) ys"
  by (induction xs arbitrary: a) (simp_all add: algebra_simps)

lemma words_at_cong:
  assumes "\<And>i. i < length vs \<Longrightarrow> m' (a + 4 * of_nat i) = m (a + 4 * of_nat i)"
  shows "words_at m' a vs = words_at m a vs"
  using assms
proof (induction vs arbitrary: a)
  case (Cons v vs)
  have "m' (a + 4 + 4 * of_nat i) = m (a + 4 + 4 * of_nat i)" if "i < length vs" for i
    using Cons.prems [of "Suc i"] that by (simp add: algebra_simps)
  then show ?case using Cons.IH [of "a + 4"] Cons.prems [of 0] by simp
qed simp

lemma restore_context_ok:
  assumes "context_at (cmem s) (esp s) c"
  shows "restore_context s = Some (c\<lparr>esp := esp s + 56, cmem := cmem s\<rparr>)"
  using assms by (auto simp: context_at_def restore_context_def popal_def iret_def pop_def load_def add.assoc)

text \<open>Addresses of the stack are different as long as the stack is shorter than the memory.\<close>

lemma stack_diff:
  assumes "i < 2 ^ 30" "j < 2 ^ 30" "(4 :: u32) * of_nat i = 4 * of_nat j"
  shows "i = j"
proof -
  have "unat (4 * of_nat n :: u32) = 4 * n" if "n < 2 ^ 30" for n
    using that by (simp add: unat_word_ariths unat_of_nat take_bit_nat_eq_self)
  from arg_cong [OF assms(3), of unat] this [OF assms(1)] this [OF assms(2)] show ?thesis by simp
qed

lemma stack_nonzero: "0 < i \<Longrightarrow> i < 2 ^ 30 \<Longrightarrow> (4 :: u32) * of_nat i \<noteq> 0"
  using stack_diff [of i 0] by auto

lemma sub_neq: "x \<noteq> 0 \<Longrightarrow> b \<noteq> b - (x :: u32)"
  by (simp add: eq_diff_eq)

lemma push_ok:
  assumes "cmem s (esp s - 4) \<noteq> None"
  shows "push v s = Some (s\<lparr>esp := esp s - 4, cmem := (cmem s)(esp s - 4 \<mapsto> v)\<rparr>)"
  using assms by (simp add: push_def store_def)

lemma pushes_ok:
  assumes "length vs < 2 ^ 30" and "\<forall>i<length vs. cmem s (esp s - 4 * of_nat (Suc i)) \<noteq> None"
  shows "\<exists>m. pushes vs s = Some (s\<lparr>esp := esp s - 4 * of_nat (length vs), cmem := m\<rparr>) \<and>
    words_at m (esp s - 4 * of_nat (length vs)) (rev vs) \<and>
    (\<forall>a. (\<forall>i<length vs. a \<noteq> esp s - 4 * of_nat (Suc i)) \<longrightarrow> m a = cmem s a) \<and> (\<forall>a. m a = None \<longleftrightarrow> cmem s a = None)"
  using assms
proof (induction vs arbitrary: s)
  case (Cons v vs)
  define s1 where "s1 = s\<lparr>esp := esp s - 4, cmem := (cmem s)(esp s - 4 \<mapsto> v)\<rparr>"
  have s1: "esp s1 = esp s - 4" "cmem s1 = (cmem s)(esp s - 4 \<mapsto> v)" "s1\<lparr>esp := x, cmem := y\<rparr> = s\<lparr>esp := x, cmem := y\<rparr>" for x y
    by (simp_all add: s1_def)
  have r: "cmem s (esp s - 4) \<noteq> None" using Cons.prems(2) [rule_format, of 0] by simp
  have a: "cmem s1 (esp s1 - 4 * of_nat (Suc i)) \<noteq> None" if "i < length vs" for i
    using Cons.prems(2) [rule_format, of "Suc i"] that by (simp add: s1 algebra_simps)
  have "length vs < 2 ^ 30" using Cons.prems(1) by simp
  with Cons.IH [of s1] a obtain m where m: "pushes vs s1 = Some (s1\<lparr>esp := esp s1 - 4 * of_nat (length vs), cmem := m\<rparr>)"
    "words_at m (esp s1 - 4 * of_nat (length vs)) (rev vs)"
    "\<forall>a. (\<forall>i<length vs. a \<noteq> esp s1 - 4 * of_nat (Suc i)) \<longrightarrow> m a = cmem s1 a" "\<forall>a. m a = None \<longleftrightarrow> cmem s1 a = None"
    by blast
  have e: "esp s - 4 * of_nat (length (v # vs)) = esp s1 - 4 * of_nat (length vs)" by (simp add: s1 algebra_simps)
  have "esp s1 \<noteq> esp s1 - 4 * of_nat (Suc i)" if "i < length vs" for i
    by (rule sub_neq [OF stack_nonzero]) (use that Cons.prems(1) in simp_all)
  then have "m (esp s1) = cmem s1 (esp s1)" using m(3) by blast
  then have v: "m (esp s1) = Some v" by (simp add: s1)
  show ?case
  proof (intro exI [of _ m] conjI allI impI)
    show "pushes (v # vs) s = Some (s\<lparr>esp := esp s - 4 * of_nat (length (v # vs)), cmem := m\<rparr>)"
      unfolding e using m(1) push_ok [OF r, of v] by (simp add: s1_def [symmetric] s1(3))
    show "words_at m (esp s - 4 * of_nat (length (v # vs))) (rev (v # vs))"
      unfolding e using m(2) v by (simp add: words_at_append)
    fix a
    show "m a = None \<longleftrightarrow> cmem s a = None" using m(4) r by (simp add: s1)
    assume a: "\<forall>i<length (v # vs). a \<noteq> esp s - 4 * of_nat (Suc i)"
    have "a \<noteq> esp s1 - 4 * of_nat (Suc i)" if "i < length vs" for i
      using a [rule_format, of "Suc i"] that by (simp add: s1 algebra_simps)
    then have "m a = cmem s1 a" using m(3) by blast
    moreover have "a \<noteq> esp s - 4" using a [rule_format, of 0] by simp
    ultimately show "m a = cmem s a" by (simp add: s1)
  qed
next
  case Nil
  show ?case by (intro exI [of _ "cmem s"]) simp
qed

section \<open>Saving a context\<close>

text \<open>The words that a call of \<open>arch_context_switch\<close> writes on the stack of the calling thread, from the return
  address downwards, and the words of a saved context.\<close>

definition save_area :: "cpu \<Rightarrow> u32 set" where
  "save_area s = (\<lambda>i. esp s - 4 * of_nat i) ` {..<14}"

definition frame_words :: "u32 \<Rightarrow> u32 set" where
  "frame_words a = (\<lambda>i. a + 4 * of_nat i) ` {..<14}"

text \<open>A call: the return address and the addresses of the two stack pointers, which do not lie in the words to write.\<close>

definition switch_call :: "cpu \<Rightarrow> u32 \<Rightarrow> u32 \<Rightarrow> u32 \<Rightarrow> bool" where
  "switch_call s ret from to \<longleftrightarrow> words_at (cmem s) (esp s) [ret, from, to] \<and> (\<forall>a\<in>save_area s. cmem s a \<noteq> None) \<and>
     cmem s from \<noteq> None \<and> from \<notin> save_area s \<and> to \<notin> save_area s \<and> to \<noteq> from"

lemma save_area_frame: "save_area s = frame_words (esp s - 52)"
  unfolding save_area_def frame_words_def by (auto simp: lessThan_nat_numeral lessThan_Suc)

lemma context_at_cong:
  assumes "\<And>a'. a' \<in> frame_words a \<Longrightarrow> m' a' = m a'"
  shows "context_at m' a c = context_at m a c"
proof -
  have "words_at m' a vs = words_at m a vs" if "length vs = 14" for vs
    by (rule words_at_cong) (use assms that in \<open>auto simp: frame_words_def\<close>)
  then show ?thesis by (simp add: context_at_def del: words_at.simps)
qed

lemma context_at_upd: "x \<notin> frame_words a \<Longrightarrow> context_at (m(x \<mapsto> v)) a c = context_at m a c"
  by (rule context_at_cong) auto

lemma pushes_append: "pushes (xs @ ys) s = Option.bind (pushes xs s) (pushes ys)"
  by (induction xs arbitrary: s) (simp_all split: Option.bind_split)

lemma save_context_ok:
  assumes "\<And>a. a \<in> frame_words (esp s - 56) \<Longrightarrow> cmem s a \<noteq> None"
  shows "\<exists>m. do { t \<leftarrow> pushes [f, c, p, x, ds s, es s] s; pushal t } = Some (s\<lparr>esp := esp s - 56, cmem := m\<rparr>) \<and>
    context_at m (esp s - 56) (s\<lparr>eip := p, cs := c, eflags := f\<rparr>) \<and>
    (\<forall>a. a \<notin> frame_words (esp s - 56) \<longrightarrow> m a = cmem s a) \<and> (\<forall>a. m a = None \<longleftrightarrow> cmem s a = None)"
proof -
  let ?xs = "[f, c, p, x, ds s, es s]" and ?ys = "[eax s, ecx s, edx s, ebx s, esp s - 24, ebp s, esi s, edi s]"
  have w: "frame_words (esp s - 56) = (\<lambda>i. esp s - 4 * of_nat (Suc i)) ` {..<14}"
    unfolding frame_words_def by (auto simp: lessThan_nat_numeral lessThan_Suc)
  have r: "cmem s (esp s - 4 * of_nat (Suc i)) \<noteq> None" if "i < 14" for i using assms that unfolding w by blast
  have l: "length (?xs @ ?ys) = 14" "length ?xs = 6" by simp_all
  have "cmem s (esp s - 4 * of_nat (Suc i)) \<noteq> None" if "i < length ?xs" for i by (rule r) (use that in simp)
  then obtain m1 where "pushes ?xs s = Some (s\<lparr>esp := esp s - 4 * of_nat (length ?xs), cmem := m1\<rparr>)"
    using pushes_ok [of ?xs s] unfolding l by auto
  then have m1: "pushes ?xs s = Some (s\<lparr>esp := esp s - 24, cmem := m1\<rparr>)" unfolding l by simp
  have "pushal (s\<lparr>esp := esp s - 24, cmem := m1\<rparr>) = pushes ?ys (s\<lparr>esp := esp s - 24, cmem := m1\<rparr>)" by (simp add: pushal_def del: pushes.simps)
  then have eq: "do { t \<leftarrow> pushes ?xs s; pushal t } = pushes (?xs @ ?ys) s" unfolding pushes_append m1 by simp
  obtain m where m: "pushes (?xs @ ?ys) s = Some (s\<lparr>esp := esp s - 4 * of_nat (length (?xs @ ?ys)), cmem := m\<rparr>)"
    "words_at m (esp s - 4 * of_nat (length (?xs @ ?ys))) (rev (?xs @ ?ys))"
    "\<forall>a. (\<forall>i<length (?xs @ ?ys). a \<noteq> esp s - 4 * of_nat (Suc i)) \<longrightarrow> m a = cmem s a" "\<forall>a. m a = None \<longleftrightarrow> cmem s a = None"
    using pushes_ok [of "?xs @ ?ys" s] r unfolding l by auto
  show ?thesis
  proof (intro exI [of _ m] conjI allI impI)
    show "do { t \<leftarrow> pushes ?xs s; pushal t } = Some (s\<lparr>esp := esp s - 56, cmem := m\<rparr>)" using m(1) unfolding eq l by simp
    show "context_at m (esp s - 56) (s\<lparr>eip := p, cs := c, eflags := f\<rparr>)"
      unfolding context_at_def by (intro exI [of _ "esp s - 24"] exI [of _ x]) (use m(2) in \<open>simp add: l\<close>)
    show "m a = None \<longleftrightarrow> cmem s a = None" for a using m(4) by blast
    show "m a = cmem s a" if "a \<notin> frame_words (esp s - 56)" for a using m(3) that unfolding w l by blast
  qed
qed

lemma frame_words_above:
  assumes "14 \<le> n" and "n < 2 ^ 30"
  shows "a + 4 * of_nat n \<notin> frame_words a"
proof
  assume "a + 4 * of_nat n \<in> frame_words a"
  then obtain i where "i < 14" "(4 :: u32) * of_nat n = 4 * of_nat i" by (auto simp: frame_words_def)
  then show False using stack_diff [of n i] assms by simp
qed

lemma switch_ok:
  assumes "switch_call s ret from to" and "cmem s to = Some b" and "context_at (cmem s) b c"
    and "frame_words b \<inter> insert from (save_area s) = {}"
  shows "\<exists>m. arch_context_switch s = Some (c\<lparr>esp := b + 56, cmem := m\<rparr>) \<and> m from = Some (esp s - 52) \<and>
    context_at m (esp s - 52) (s\<lparr>eax := eflags s, ebx := ret, eip := ret\<rparr>) \<and> (\<forall>a. a \<notin> insert from (save_area s) \<longrightarrow> m a = cmem s a)"
proof -
  have s: "cmem s (esp s) = Some ret" "cmem s (esp s + 4) = Some from" "cmem s (esp s + 8) = Some to" "cmem s from \<noteq> None"
    "from \<notin> frame_words (esp s - 52)" "to \<notin> frame_words (esp s - 52)" "to \<noteq> from"
    and r: "\<And>a. a \<in> frame_words (esp s - 52) \<Longrightarrow> cmem s a \<noteq> None"
    using assms(1) unfolding switch_call_def save_area_frame by (auto simp: add.assoc)
  have "esp s - 52 + 4 * of_nat 12 \<in> frame_words (esp s - 52)" unfolding frame_words_def by (rule imageI) simp
  then have q: "esp s - 4 \<in> frame_words (esp s - 52)" by simp
  define m0 where "m0 = (cmem s)(esp s - 4 \<mapsto> eflags s)"
  define s0 where "s0 = s\<lparr>cmem := m0, eax := eflags s, esp := 4 + esp s, ebx := ret\<rparr>"
  have s0: "esp s0 - 56 = esp s - 52" "cmem s0 = m0" "cs s0 = cs s" "ds s0 = ds s" "es s0 = es s" by (simp_all add: s0_def)
  have r0: "m0 a \<noteq> None" if "a \<in> frame_words (esp s - 52)" for a using r [OF that] by (simp add: m0_def)
  have "\<exists>m. do { t \<leftarrow> pushes [eflags s, cs s, ret, 0, ds s, es s] s0; pushal t } = Some (s0\<lparr>esp := esp s - 52, cmem := m\<rparr>) \<and>
    context_at m (esp s - 52) (s0\<lparr>eip := ret, cs := cs s, eflags := eflags s\<rparr>) \<and>
    (\<forall>a. a \<notin> frame_words (esp s - 52) \<longrightarrow> m a = m0 a) \<and> (\<forall>a. m a = None \<longleftrightarrow> m0 a = None)"
    using save_context_ok [of s0 "eflags s" "cs s" ret 0] r0 unfolding s0 by blast
  then obtain m where m: "do { t \<leftarrow> pushes [eflags s, cs s, ret, 0, ds s, es s] s0; pushal t } = Some (s0\<lparr>esp := esp s - 52, cmem := m\<rparr>)"
    "context_at m (esp s - 52) (s0\<lparr>eip := ret, cs := cs s, eflags := eflags s\<rparr>)"
    "\<forall>a. a \<notin> frame_words (esp s - 52) \<longrightarrow> m a = m0 a" "\<forall>a. m a = None \<longleftrightarrow> m0 a = None" by blast
  have out: "m a = cmem s a" if "a \<notin> frame_words (esp s - 52)" for a using m(3) that q by (auto simp: m0_def)
  have "esp s + 4 \<notin> frame_words (esp s - 52)" "esp s + 8 \<notin> frame_words (esp s - 52)"
    using frame_words_above [of 14 "esp s - 52"] frame_words_above [of 15 "esp s - 52"] by (simp_all add: add.commute)
  then have args: "m (esp s + 4) = Some from" "m (esp s + 8) = Some to" using s(2,3) out by simp_all
  have cells: "m from \<noteq> None" "m to = Some b" using out s(4-6) assms(2) by simp_all
  let ?m = "m(from \<mapsto> esp s - 52)"
  have "?m a = cmem s a" if "a \<in> frame_words b" for a
  proof -
    have "a \<noteq> from" "a \<notin> frame_words (esp s - 52)" using that assms(4) unfolding save_area_frame by blast+
    then show ?thesis using out by simp
  qed
  then have "context_at ?m b c" using context_at_cong [of b ?m "cmem s" c] assms(3) by blast
  then have rest: "restore_context u = Some (c\<lparr>esp := b + 56, cmem := ?m\<rparr>)" if "esp u = b" "cmem u = ?m" for u
    using restore_context_ok [of u c] that by simp
  have "context_at ?m (esp s - 52) (s0\<lparr>eip := ret, cs := cs s, eflags := eflags s\<rparr>)"
    using context_at_upd [OF s(5)] m(2) by blast
  then have ctx: "context_at ?m (esp s - 52) (s\<lparr>eax := eflags s, ebx := ret, eip := ret\<rparr>)" by (simp add: context_at_def s0_def)
  have sv: "do { s \<leftarrow> pushes [eax s0, cs s0, ebx s0, 0, ds s0, es s0] s0; pushal s } = Some (s0\<lparr>esp := esp s - 52, cmem := m\<rparr>)"
    using m(1) by (simp add: s0_def)
  have "arch_context_switch s = do {
     s \<leftarrow> do { s \<leftarrow> pushes [eax s0, cs s0, ebx s0, 0, ds s0, es s0] s0; pushal s };
     v \<leftarrow> load (esp s + 0x3c) s; let s = s\<lparr>eax := v\<rparr>;
     v \<leftarrow> load (esp s + 0x38) s; let s = s\<lparr>ebx := v\<rparr>;
     s \<leftarrow> store (ebx s) (esp s) s;
     v \<leftarrow> load (eax s) s;
     restore_context (s\<lparr>esp := v\<rparr>) }"
    using s(1) r [OF q] by (simp add: arch_context_switch_def push_ok pop_def load_def s0_def m0_def del: pushes.simps)
  also have "\<dots> = Some (c\<lparr>esp := b + 56, cmem := ?m\<rparr>)"
    unfolding sv using args cells s(7) rest by (simp add: load_def store_def Let_def add.commute)
  finally show ?thesis using ctx out unfolding save_area_frame by (intro exI [of _ ?m]) simp
qed

section \<open>Interrupts\<close>

text \<open>An interrupt saves all registers, and the way out of it through another thread stores where they are.\<close>

lemma interrupt_ok:
  assumes "\<And>a. a \<in> insert (esp s - 60) (frame_words (esp s - 56)) \<Longrightarrow> cmem s a \<noteq> None"
  shows "\<exists>m r. interrupt_save vector s = Some (r\<lparr>esp := esp s - 60, cmem := m\<rparr>) \<and> m (esp s - 60) = Some (esp s - 56) \<and>
    context_at m (esp s - 56) s \<and> (\<forall>a. a \<notin> insert (esp s - 60) (frame_words (esp s - 56)) \<longrightarrow> m a = cmem s a)"
proof -
  have "\<exists>m. do { t \<leftarrow> pushes [eflags s, cs s, eip s, vector, ds s, es s] s; pushal t } = Some (s\<lparr>esp := esp s - 56, cmem := m\<rparr>) \<and>
    context_at m (esp s - 56) (s\<lparr>eip := eip s, cs := cs s, eflags := eflags s\<rparr>) \<and>
    (\<forall>a. a \<notin> frame_words (esp s - 56) \<longrightarrow> m a = cmem s a) \<and> (\<forall>a. m a = None \<longleftrightarrow> cmem s a = None)"
    by (rule save_context_ok) (use assms in blast)
  then obtain m where m: "do { t \<leftarrow> pushes [eflags s, cs s, eip s, vector, ds s, es s] s; pushal t } = Some (s\<lparr>esp := esp s - 56, cmem := m\<rparr>)"
    "context_at m (esp s - 56) s" "\<forall>a. a \<notin> frame_words (esp s - 56) \<longrightarrow> m a = cmem s a" "\<forall>a. m a = None \<longleftrightarrow> cmem s a = None"
    by auto
  let ?r = "s\<lparr>esp := esp s - 56, cmem := m, eax := (eax s AND 0xffff0000) OR 0x10, ds := 0x10, es := 0x10\<rparr>"
  let ?m = "m(esp s - 60 \<mapsto> esp s - 56)"
  have n: "esp s - 60 \<notin> frame_words (esp s - 56)"
  proof -
    have "esp s - 60 = 4294967236 + esp s" by (simp add: diff_eq_eq)
    moreover have "4294967236 + esp s \<notin> frame_words (esp s - 56)" using frame_words_above [of "2 ^ 30 - 1" "esp s - 56"] by simp
    ultimately show ?thesis by metis
  qed
  have "m (esp s - 60) \<noteq> None" using m(4) assms by blast
  then have p: "push (esp s - 56) ?r = Some (?r\<lparr>esp := esp s - 60, cmem := ?m\<rparr>)" using push_ok [of ?r] by simp
  have "interrupt_save vector s = do {
     t \<leftarrow> do { t \<leftarrow> pushes [eflags s, cs s, eip s, vector, ds s, es s] s; pushal t };
     push (esp t) (t\<lparr>eax := (eax t AND 0xffff0000) OR 0x10, ds := 0x10, es := 0x10\<rparr>) }"
    by (simp add: interrupt_save_def del: pushes.simps)
  also have "\<dots> = Some (?r\<lparr>esp := esp s - 60, cmem := ?m\<rparr>)" unfolding m(1) using p by simp
  finally have "interrupt_save vector s = Some (?r\<lparr>esp := esp s - 60, cmem := ?m\<rparr>)" .
  moreover have "context_at ?m (esp s - 56) s" using context_at_upd [OF n] m(2) by blast
  moreover have "?m a = cmem s a" if "a \<notin> insert (esp s - 60) (frame_words (esp s - 56))" for a using m(3) that by simp
  ultimately show ?thesis by (intro exI [of _ ?m] exI [of _ ?r]) simp
qed

lemma interrupt_switch_ok:
  assumes "context_at (cmem t) (esp s - 56) s" and "cmem t (esp t) = Some (esp s - 56)" and "cmem t from \<noteq> None"
    and "from \<notin> frame_words (esp s - 56)" and "cmem t to = Some b" and "to \<noteq> from" and "context_at (cmem t) b c" and "from \<notin> frame_words b"
  shows "\<exists>m. interrupt_thread_switch from to t = Some (c\<lparr>esp := b + 56, cmem := m\<rparr>) \<and> m from = Some (esp s - 56) \<and> context_at m (esp s - 56) s"
proof -
  let ?m = "(cmem t)(from \<mapsto> esp s - 56)"
  have "context_at ?m b c" using context_at_upd [OF assms(8)] assms(7) by blast
  then have "restore_context u = Some (c\<lparr>esp := b + 56, cmem := ?m\<rparr>)" if "esp u = b" "cmem u = ?m" for u
    using restore_context_ok [of u c] that by simp
  moreover have "context_at ?m (esp s - 56) s" using context_at_upd [OF assms(4)] assms(1) by blast
  ultimately show ?thesis using assms(2,3,5,6)
    by (intro exI [of _ ?m]) (simp add: interrupt_thread_switch_def pop_def load_def store_def Let_def)
qed

section \<open>The first stack\<close>

definition entry_context :: "u32 \<Rightarrow> cpu" where
  "entry_context tentry = \<lparr>eax = 0, ecx = 0, edx = 0, ebx = 0, esp = 0, ebp = 0, esi = 0, edi = 0,
     ds = 0x10, es = 0x10, cs = 0x08, eip = tentry, eflags = 0x200, cmem = (\<lambda>_. None)\<rparr>"

lemma stack_init_ok:
  assumes "\<And>i. i < 16 \<Longrightarrow> cmem s (stack_addr - 4 * of_nat (Suc i)) \<noteq> None"
  shows "\<exists>m. arch_stack_init tentry parameter stack_addr texit s = Some (stack_addr - 64, s\<lparr>cmem := m\<rparr>) \<and>
    context_at m (stack_addr - 64) (entry_context tentry) \<and> words_at m (stack_addr - 8) [texit, parameter]"
proof -
  let ?vs = "[parameter, texit, 0x200, 0x08, tentry, 0, 0x10, 0x10, 0, 0, 0, 0, 0, 0, 0, 0]"
  have l: "length ?vs = 16" by simp
  obtain m where m: "pushes ?vs (s\<lparr>esp := stack_addr\<rparr>) = Some (s\<lparr>esp := stack_addr, esp := stack_addr - 4 * of_nat (length ?vs), cmem := m\<rparr>)"
    "words_at m (stack_addr - 4 * of_nat (length ?vs)) (rev ?vs)"
    using pushes_ok [of ?vs "s\<lparr>esp := stack_addr\<rparr>"] assms unfolding l by auto
  have w: "words_at m (stack_addr - 64) (rev ?vs)" using m(2) unfolding l by simp
  have p: "pushes ?vs (s\<lparr>esp := stack_addr\<rparr>) = Some (s\<lparr>esp := stack_addr - 64, cmem := m\<rparr>)" using m(1) unfolding l by simp
  have "arch_stack_init tentry parameter stack_addr texit s = Some (stack_addr - 64, s\<lparr>cmem := m\<rparr>)"
    unfolding arch_stack_init_def p by simp
  moreover have "context_at m (stack_addr - 64) (entry_context tentry)"
    unfolding context_at_def by (intro exI [of _ 0]) (use w in \<open>simp add: entry_context_def\<close>)
  moreover have "words_at m (stack_addr - 8) [texit, parameter]" using w by simp
  ultimately show ?thesis by blast
qed

section \<open>Properties\<close>

text \<open>C38: a thread that gives up the processor with \<open>arch_context_switch\<close> and is switched to again continues behind its
  call, with its stack as it was and with the registers it had but two: \<open>eax\<close> holds the flags and \<open>ebx\<close>, which
  a function must preserve, holds the return address. In between the other thread runs with its own registers. Nothing is
  written but 14 words of the stack and the stack pointer of the thread.\<close>

theorem context_switch_roundtrip:
  assumes "switch_call s ret from to" and "cmem s to = Some b" and "context_at (cmem s) b c"
    and "frame_words b \<inter> insert from (save_area s) = {}"
  shows "\<exists>m. arch_context_switch s = Some (c\<lparr>esp := b + 56, cmem := m\<rparr>) \<and> (\<forall>a. a \<notin> insert from (save_area s) \<longrightarrow> m a = cmem s a) \<and>
    (\<forall>t ret'. switch_call t ret' to from \<and> (\<forall>a\<in>insert from (frame_words (esp s - 52)). cmem t a = m a) \<and>
        frame_words (esp s - 52) \<inter> insert to (save_area t) = {} \<longrightarrow>
      (\<exists>m'. arch_context_switch t = Some (s\<lparr>eax := eflags s, ebx := ret, eip := ret, esp := esp s + 4, cmem := m'\<rparr>)))"
proof -
  obtain m where m: "arch_context_switch s = Some (c\<lparr>esp := b + 56, cmem := m\<rparr>)" "m from = Some (esp s - 52)"
    "context_at m (esp s - 52) (s\<lparr>eax := eflags s, ebx := ret, eip := ret\<rparr>)" "\<forall>a. a \<notin> insert from (save_area s) \<longrightarrow> m a = cmem s a"
    using switch_ok [OF assms] by blast
  have "\<exists>m'. arch_context_switch t = Some (s\<lparr>eax := eflags s, ebx := ret, eip := ret, esp := esp s + 4, cmem := m'\<rparr>)"
    if t: "switch_call t ret' to from" "\<forall>a\<in>insert from (frame_words (esp s - 52)). cmem t a = m a"
      "frame_words (esp s - 52) \<inter> insert to (save_area t) = {}" for t ret'
  proof -
    have "cmem t from = Some (esp s - 52)" using t(2) m(2) by simp
    moreover have "context_at (cmem t) (esp s - 52) (s\<lparr>eax := eflags s, ebx := ret, eip := ret\<rparr>)"
      using context_at_cong [of "esp s - 52" "cmem t" m] t(2) m(3) by blast
    ultimately obtain m' where "arch_context_switch t = Some (s\<lparr>eax := eflags s, ebx := ret, eip := ret, esp := esp s - 52 + 56, cmem := m'\<rparr>)"
      using switch_ok [OF t(1) _ _ t(3)] by blast
    moreover have "esp s - 52 + 56 = esp s + 4" by (simp add: add.commute)
    ultimately show ?thesis by metis
  qed
  then show ?thesis using m(1,4) by blast
qed

text \<open>C39: the stack that \<open>arch_stack_init\<close> prepares makes a thread start as if its entry had been called: the first
  switch to it enters \<open>tentry\<close> with interrupts enabled, with \<open>texit\<close> as the return address and \<open>parameter\<close> as the argument.\<close>

theorem thread_starts:
  assumes "\<forall>i<16. cmem s (stack_addr - 4 * of_nat (Suc i)) \<noteq> None"
  shows "\<exists>m. arch_stack_init tentry parameter stack_addr texit s = Some (stack_addr - 64, s\<lparr>cmem := m\<rparr>) \<and>
    (\<forall>u to. cmem u (esp u + 4) = Some to \<and> cmem u to = Some (stack_addr - 64) \<and> cmem u (esp u - 4) \<noteq> None \<and> esp u - 4 \<noteq> to \<and>
        (\<forall>i<16. stack_addr - 4 * of_nat (Suc i) \<noteq> esp u - 4 \<and> cmem u (stack_addr - 4 * of_nat (Suc i)) = m (stack_addr - 4 * of_nat (Suc i))) \<longrightarrow>
      (\<exists>v. arch_context_switch_to u = Some v \<and> eip v = tentry \<and> eflags v = 0x200 \<and> esp v = stack_addr - 8 \<and>
        words_at (cmem v) (stack_addr - 8) [texit, parameter]))"
proof -
  obtain m where m: "arch_stack_init tentry parameter stack_addr texit s = Some (stack_addr - 64, s\<lparr>cmem := m\<rparr>)"
    "context_at m (stack_addr - 64) (entry_context tentry)" "words_at m (stack_addr - 8) [texit, parameter]"
    using stack_init_ok [of s stack_addr tentry parameter texit] assms by blast
  have "\<exists>v. arch_context_switch_to u = Some v \<and> eip v = tentry \<and> eflags v = 0x200 \<and> esp v = stack_addr - 8 \<and>
      words_at (cmem v) (stack_addr - 8) [texit, parameter]"
    if u: "cmem u (esp u + 4) = Some to" "cmem u to = Some (stack_addr - 64)" "cmem u (esp u - 4) \<noteq> None" "esp u - 4 \<noteq> to"
      "\<forall>i<16. stack_addr - 4 * of_nat (Suc i) \<noteq> esp u - 4 \<and> cmem u (stack_addr - 4 * of_nat (Suc i)) = m (stack_addr - 4 * of_nat (Suc i))"
    for u to
  proof -
    let ?m = "(cmem u)(esp u - 4 \<mapsto> ebp u)"
    have eq: "?m (stack_addr - 64 + 4 * of_nat i) = m (stack_addr - 64 + 4 * of_nat i)" if "i < 16" for i
    proof -
      let ?a = "stack_addr - 4 * of_nat (Suc (15 - i))"
      have "?a \<noteq> esp u - 4" "cmem u ?a = m ?a" using u(5) [rule_format, of "15 - i"] by simp_all
      then have "?m ?a = m ?a" by (simp only: fun_upd_apply if_False)
      moreover have "stack_addr - 64 + 4 * of_nat i = ?a" using that by (simp add: of_nat_diff algebra_simps)
      ultimately show ?thesis by metis
    qed
    have "context_at ?m (stack_addr - 64) (entry_context tentry)"
      using context_at_cong [of "stack_addr - 64" ?m m] eq m(2) by (force simp: frame_words_def)
    then have rest: "restore_context r = Some ((entry_context tentry)\<lparr>esp := stack_addr - 8, cmem := ?m\<rparr>)"
      if "esp r = stack_addr - 64" "cmem r = ?m" for r
      using restore_context_ok [of r "entry_context tentry"] that by simp
    have "words_at ?m (stack_addr - 8) [texit, parameter]"
      using m(3) eq [of 14] eq [of 15] by (simp add: algebra_simps)
    moreover have "esp u + 4 \<noteq> esp u - 4" by (simp add: eq_diff_eq)
    ultimately show ?thesis using u(1-4) rest
      by (intro exI [of _ "(entry_context tentry)\<lparr>esp := stack_addr - 8, cmem := ?m\<rparr>"])
        (simp add: arch_context_switch_to_def push_ok load_def Let_def entry_context_def add.commute)
  qed
  then show ?thesis using m(1) by blast
qed

text \<open>A memory of 64 words, in which thread A has called the switch with the stack pointer 128, to thread B whose
  registers are stored at 192; the stack pointers of the threads are at 0 and 4. The second state is one in which B
  calls the switch.\<close>

definition sample_memory :: "u32 \<Rightarrow> u32 option" where
  "sample_memory a = (if a < 256 then Some (if a = 4 then 192 else if a = 128 then 77 else if a = 136 then 4 else 0) else None)"

definition sample_cpu :: cpu where
  "sample_cpu = (entry_context 99)\<lparr>ebx := 5, esi := 6, esp := 128, cmem := sample_memory\<rparr>"

definition zero_cpu :: cpu where
  "zero_cpu = (entry_context 0)\<lparr>ds := 0, es := 0, cs := 0, eflags := 0\<rparr>"

lemma sample_save_area:
  "esp s = 128 \<Longrightarrow> save_area s = {76, 80, 84, 88, 92, 96, 100, 104, 108, 112, 116, 120, 124, 128}"
  "esp s = 240 \<Longrightarrow> save_area s = {188, 192, 196, 200, 204, 208, 212, 216, 220, 224, 228, 232, 236, 240}"
  unfolding save_area_frame frame_words_def by (simp_all add: lessThan_nat_numeral lessThan_Suc) (auto simp: insert_commute)

lemma sample_frame_words:
  "frame_words 76 = {76, 80, 84, 88, 92, 96, 100, 104, 108, 112, 116, 120, 124, 128}"
  "frame_words 192 = {192, 196, 200, 204, 208, 212, 216, 220, 224, 228, 232, 236, 240, 244}"
  unfolding frame_words_def by (simp_all add: lessThan_nat_numeral lessThan_Suc) (auto simp: insert_commute)

theorem context_switch_roundtrip_witness:
  "\<exists>m m'. arch_context_switch sample_cpu = Some (zero_cpu\<lparr>esp := 248, cmem := m\<rparr>) \<and>
    arch_context_switch (zero_cpu\<lparr>esp := 240, cmem := m(240 \<mapsto> 88, 244 \<mapsto> 4, 248 \<mapsto> 0)\<rparr>) =
      Some (sample_cpu\<lparr>eax := 0x200, ebx := 77, eip := 77, esp := 132, cmem := m'\<rparr>)"
proof -
  have e: "esp sample_cpu = 128" "cmem sample_cpu = sample_memory" "eflags sample_cpu = 0x200"
    by (simp_all add: sample_cpu_def entry_context_def)
  have c: "switch_call sample_cpu 77 0 4" "cmem sample_cpu 4 = Some 192" "context_at (cmem sample_cpu) 192 zero_cpu"
    "frame_words 192 \<inter> insert 0 (save_area sample_cpu) = {}"
    by (simp_all add: switch_call_def e sample_save_area sample_frame_words sample_memory_def context_at_def zero_cpu_def entry_context_def)
  obtain m where m: "arch_context_switch sample_cpu = Some (zero_cpu\<lparr>esp := 192 + 56, cmem := m\<rparr>)"
    "\<forall>a. a \<notin> insert 0 (save_area sample_cpu) \<longrightarrow> m a = sample_memory a"
    "\<forall>t ret'. switch_call t ret' 4 0 \<and> (\<forall>a\<in>insert 0 (frame_words (128 - 52)). cmem t a = m a) \<and>
        frame_words (128 - 52) \<inter> insert 4 (save_area t) = {} \<longrightarrow>
      (\<exists>m'. arch_context_switch t = Some (sample_cpu\<lparr>eax := 0x200, ebx := 77, eip := 77, esp := 128 + 4, cmem := m'\<rparr>))"
    using context_switch_roundtrip [OF c] unfolding e by (elim exE conjE) (rule that)
  let ?t = "zero_cpu\<lparr>esp := 240, cmem := m(240 \<mapsto> 88, 244 \<mapsto> 4, 248 \<mapsto> 0)\<rparr>"
  have "switch_call ?t 88 4 0 \<and> (\<forall>a\<in>insert 0 (frame_words (128 - 52)). cmem ?t a = m a) \<and> frame_words (128 - 52) \<inter> insert 4 (save_area ?t) = {}"
    using m(2) by (simp add: switch_call_def sample_save_area sample_frame_words e sample_memory_def)
  from m(3) [rule_format, OF this]
  have "\<exists>m'. arch_context_switch ?t = Some (sample_cpu\<lparr>eax := 0x200, ebx := 77, eip := 77, esp := 128 + 4, cmem := m'\<rparr>)" .
  then show ?thesis using m(1) by auto
qed

lemma all_below_16: "(\<forall>i<16 :: nat. P i) \<longleftrightarrow> list_all P [0, 1, 2, 3, 4, 5, 6, 7, 8, 9, 10, 11, 12, 13, 14, 15]"
proof -
  have "[0..<16] = [0, 1, 2, 3, 4, 5, 6, 7, 8, 9, 10, 11, 12, 13, 14, 15]" by (simp add: upt_rec)
  moreover have "(\<forall>i<16. P i) \<longleftrightarrow> list_all P [0..<16]" by (auto simp: list_all_iff)
  ultimately show ?thesis by simp
qed

theorem thread_starts_witness:
  "\<exists>m v. arch_stack_init 1000 7 224 2000 sample_cpu = Some (160, sample_cpu\<lparr>cmem := m\<rparr>) \<and>
    arch_context_switch_to (sample_cpu\<lparr>cmem := m(132 \<mapsto> 0, 0 \<mapsto> 160, 124 \<mapsto> 0)\<rparr>) = Some v \<and>
    eip v = 1000 \<and> esp v = 216 \<and> words_at (cmem v) 216 [2000, 7]"
proof -
  have r: "\<forall>i<16. cmem sample_cpu (224 - 4 * of_nat (Suc i)) \<noteq> None"
    unfolding all_below_16 by (simp add: sample_cpu_def sample_memory_def)
  obtain m where m: "arch_stack_init 1000 7 224 2000 sample_cpu = Some (224 - 64, sample_cpu\<lparr>cmem := m\<rparr>)"
    "\<forall>u to. cmem u (esp u + 4) = Some to \<and> cmem u to = Some (224 - 64) \<and> cmem u (esp u - 4) \<noteq> None \<and> esp u - 4 \<noteq> to \<and>
        (\<forall>i<16. 224 - 4 * of_nat (Suc i) \<noteq> esp u - 4 \<and> cmem u (224 - 4 * of_nat (Suc i)) = m (224 - 4 * of_nat (Suc i))) \<longrightarrow>
      (\<exists>v. arch_context_switch_to u = Some v \<and> eip v = 1000 \<and> eflags v = 0x200 \<and> esp v = 224 - 8 \<and> words_at (cmem v) (224 - 8) [2000, 7])"
    using thread_starts [OF r, of 1000 7 2000] by (elim exE conjE) (rule that)
  let ?u = "sample_cpu\<lparr>cmem := m(132 \<mapsto> 0, 0 \<mapsto> 160, 124 \<mapsto> 0)\<rparr>"
  have e: "esp ?u = 128" "cmem ?u = m(132 \<mapsto> 0, 0 \<mapsto> 160, 124 \<mapsto> 0)" by (simp_all add: sample_cpu_def)
  have "\<exists>v. arch_context_switch_to ?u = Some v \<and> eip v = 1000 \<and> eflags v = 0x200 \<and> esp v = 224 - 8 \<and> words_at (cmem v) (224 - 8) [2000, 7]"
    by (rule m(2) [rule_format, of _ 0], unfold e all_below_16) simp
  then show ?thesis using m(1) by auto
qed

end
