(* ===== verification/Spec2Isabelle.thy ===== *)
theory Spec2Isabelle
  imports Coslib_List Coslib_RBTree_Correct Cos_Timer_Correct Cos_Semaphore_Correct Cos_Mutex_Correct Cos_Event_Correct Cos_MailBox_Correct
    Cos_MessageQueue_Correct Cos_Slab_Props Cos_Console_Correct Cos_Interrupt_Correct Cos_Sys_Arch_Correct Cos_Context
begin

text \<open>
  Verification of cos, a real-time kernel for the x86 written in C++.

  \<^bold>\<open>The program.\<close> The kernel runs threads of fixed priorities and shares the processor between threads of the
  same priority in time slices. The scheduler keeps one list of ready threads per priority and a red-black tree of the
  priorities that have ready threads. Timers stand in a second tree, ordered by the tick at which they
  expire; the clock interrupt increments the tick, lets the scheduler count down the time slice and fires timers.
  Semaphores, mutexes, events, mailboxes and message queues are lists of waiting threads with a payload: an operation
  that cannot go on suspends its thread, starts the timer of the thread and calls the scheduler. Memory comes from a slab
  allocator on top of a page allocator. Devices are objects with virtual driver functions; serial port, console,
  frame buffer and mouse are the drivers. The layer \<^verbatim>\<open>components/net\<close> offers the operations lwIP needs.

  \<^bold>\<open>The style of the model.\<close> Every operation is a function from its arguments and the state into \<open>option\<close>;
  \<open>None\<close> stands for the outcomes the source leaves undefined or does not return from: a dereferenced null or stale
  pointer, a write outside an object, a failed assertion, a loop without end. Errors the code reports are values.
  Machine integers are words of their width. Objects live in partial maps from addresses. Interrupt
  masking has no counterpart: an operation is atomic between two context switches. What the kernel calls but does not define is an argument: the record
  \<open>env\<close> has what other threads do before a thread runs again and the functions of timers, \<open>devenv\<close> the drivers and
  callbacks of the application, \<open>mbox_memory\<close> and similar arguments the addresses the allocator returned.

  \<^bold>\<open>The theories,\<close> with the files under \<^verbatim>\<open>src\<close> they model.

  \<^item> \<^verbatim>\<open>Cos_Prelude\<close>: the integer types, the error codes and \<open>COS_ASSERT\<close> (\<^verbatim>\<open>include/cos/cosDef.h\<close>,
    \<^verbatim>\<open>cosConf.h\<close>, \<^verbatim>\<open>cosDebug.h\<close>) and shared lemmas.
  \<^item> \<^verbatim>\<open>Coslib_List\<close>: \<^verbatim>\<open>components/stdlib/coslib/list.hpp\<close>; \<open>push_back\<close> and \<open>erase\<close> on the pointers do what
    appending and removing do on sequences, as long as the node to append has no stale link.
  \<^item> \<^verbatim>\<open>Coslib_RBTree\<close> and \<^verbatim>\<open>Coslib_RBTree_Rep\<close>, \<^verbatim>\<open>_Insert\<close>, \<^verbatim>\<open>_Remove\<close>, \<^verbatim>\<open>_Leave\<close>, \<^verbatim>\<open>_Correct\<close>:
    \<^verbatim>\<open>components/stdlib/coslib/rbtree.hpp\<close>. Insertion and removal end and keep a balanced search tree, under
    conditions on keys and colours; two runs outside of these conditions crash or lose nodes. The locales \<open>key_order\<close> and
    \<open>key_order_remove\<close> are what scheduler and timers rely on.
  \<^item> \<^verbatim>\<open>Cos_Kernel\<close>: the state of the kernel. \<^verbatim>\<open>Cos_Object\<close>: \<^verbatim>\<open>kernel/object.cpp\<close>.
  \<^item> \<^verbatim>\<open>Cos_Scheduler\<close>, \<^verbatim>\<open>Cos_Scheduler_Correct\<close>: \<^verbatim>\<open>kernel/scheduler.cpp\<close>; \<open>sched_inv\<close> relates lists and tree
    to a map from priorities to queues, the locale \<open>ready_queue\<close> is its interface.
  \<^item> \<^verbatim>\<open>Cos_Thread\<close>, \<^verbatim>\<open>Cos_Thread_Correct\<close>: \<^verbatim>\<open>kernel/thread.cpp\<close>, \<^verbatim>\<open>kernel/idle.cpp\<close>.
  \<^item> \<^verbatim>\<open>Cos_Timer\<close>, \<^verbatim>\<open>Cos_Clock\<close>, \<^verbatim>\<open>Cos_Timer_Correct\<close>: \<^verbatim>\<open>kernel/timer.cpp\<close>, \<^verbatim>\<open>kernel/clock.cpp\<close>. Timers start,
    stop and fire in the order of their expiry; a tick beyond the sign bit blocks the tree.
  \<^item> \<^verbatim>\<open>Cos_IPC\<close>, \<^verbatim>\<open>Cos_Semaphore\<close>, \<^verbatim>\<open>Cos_Mutex\<close>, \<^verbatim>\<open>Cos_Event\<close> and their \<^verbatim>\<open>_Correct\<close> theories:
    \<^verbatim>\<open>kernel/ipc\<close>. Without waiting they are a counter, a lock with an owner and a set of numbers; with waiting,
    who leaves and enters the ready lists, and where stale links of the list corrupt them.
  \<^item> \<^verbatim>\<open>Cos_MailBox\<close>, \<^verbatim>\<open>Cos_MessageQueue\<close> and their \<^verbatim>\<open>_Correct\<close> theories: used without waiting both are bounded
    queues, through the locale \<open>channel\<close> of \<^verbatim>\<open>Cos_Channel\<close>.
  \<^item> \<^verbatim>\<open>Cos_Slab\<close>, \<^verbatim>\<open>Cos_Page_Correct\<close>, \<^verbatim>\<open>Cos_Slab_Correct\<close>, \<^verbatim>\<open>Cos_Slab_Props\<close>: \<^verbatim>\<open>kernel/slab.cpp\<close>. The page
    allocator (locale \<open>page_allocator\<close>) keeps sorted free runs that do not touch; \<open>kmalloc\<close> and \<open>kfree\<close> take and return
    chunks of the class of the size.
  \<^item> \<^verbatim>\<open>Cos_Machine\<close>, \<^verbatim>\<open>Cos_Rx_Ring\<close>, \<^verbatim>\<open>Cos_Console\<close>, \<^verbatim>\<open>Cos_Serial\<close>, \<^verbatim>\<open>Cos_Video\<close>, \<^verbatim>\<open>Cos_Mouse\<close>,
    \<^verbatim>\<open>Cos_Device\<close>, \<^verbatim>\<open>Cos_Drivers\<close>, \<^verbatim>\<open>Cos_Console_Correct\<close>, \<^verbatim>\<open>Cos_Device_Correct\<close>,
    \<^verbatim>\<open>Cos_Interrupt_Correct\<close>: \<^verbatim>\<open>kernel/device\<close>, \<^verbatim>\<open>kernel/kservice.cpp\<close>, \<^verbatim>\<open>kernel/irq.cpp\<close>, \<^verbatim>\<open>arch/x86/drivers\<close> and
    \<^verbatim>\<open>arch/x86/common\<close> (interrupts and tick). The user count of a device, received bytes, messages of \<open>printk\<close>, the
    screen, pixels of a line, and the whole way of a tick interrupt.
  \<^item> \<^verbatim>\<open>Cos_Context\<close>: \<^verbatim>\<open>arch/x86/common/context_gcc.S\<close> and \<^verbatim>\<open>stack.c\<close> as programs of a processor; switching away
    and back restores the registers except those the switch itself destroys, and a new thread starts at its entry.
  \<^item> \<^verbatim>\<open>Cos_Sys_Arch\<close>, \<^verbatim>\<open>Cos_Sys_Arch_Correct\<close>: \<^verbatim>\<open>components/net/sys_arch.cpp\<close>; the mailboxes of lwIP have memory for only a
    quarter of the messages they should hold.

  \<^bold>\<open>Bounds and loops.\<close> There is no fuel. Loops that follow pointers or wait are partial functions into \<open>option\<close>, and the
  properties state that the operations return: their conclusion is an equation with \<open>Some\<close> for each call. The properties
  called a crash or an overflow state \<open>None\<close> instead. Addresses and page numbers of the allocator are natural numbers.

  \<^bold>\<open>Not modelled.\<close> The start of the system (\<^verbatim>\<open>arch/x86/boot\<close>, \<^verbatim>\<open>kernel/init.cpp\<close>, \<^verbatim>\<open>kernel/runtime.cpp\<close>), which depends on
  tables of the linker; \<^verbatim>\<open>kernel/sysheap.cpp\<close>, which the preprocessor removes; the protocols of lwIP, the GUI library and
  the C++ library, which are third-party code; the stubs for the C library, the shell, and the unit tests. The contents of
  allocated memory and the descriptor table of the processor are not represented.
\<close>

end
